(* ===== verification/Mesh_Prelude.thy ===== *)
theory Mesh_Prelude
  imports Main "HOL-Library.Char_ord" "HOL-Library.List_Lexorder"
    "HOL-Library.Product_Lexorder" "HOL-Library.Multiset" "HOL-Library.Word"
begin

text \<open>
  Generic vocabulary of the development: the result type of fallible Go
  functions, the list idioms the code base repeats (collecting the keys of a
  map and sorting them, deduplicating while keeping the first occurrence,
  sorting a slice by a key), and the facts on fixed-width words that the
  address arithmetic needs.

  Go strings are byte sequences and are modelled by \<^typ>\<open>string\<close>; the order
  of \<^typ>\<open>char\<close> imported from the library is the order of the byte values, so
  that \<^term>\<open>(<) :: string \<Rightarrow> string \<Rightarrow> bool\<close> is the bytewise lexicographic order of Go.
\<close>

section \<open>Collections of rewrite rules\<close>

named_theorems go_eval \<open>evaluation of the library model on concrete arguments\<close>
named_theorems net_simps \<open>rewriting of masks and prefixes\<close>
named_theorems plan_simps \<open>unfolding of the pure planners\<close>
named_theorems inv_intros \<open>preservation of invariants\<close>
named_theorems run_simps \<open>outcomes of runs against the outside world\<close>
named_theorems keeps_intros \<open>parts of the state that a run leaves alone\<close>

section \<open>Results of fallible functions\<close>

type_synonym go_error = string
type_synonym 'a result = "go_error + 'a"

definition bind_result :: "'a result \<Rightarrow> ('a \<Rightarrow> 'b result) \<Rightarrow> 'b result" where
  "bind_result r f = (case r of Inl e \<Rightarrow> Inl e | Inr a \<Rightarrow> f a)"

lemma bind_result_simps [simp]:
  "bind_result (Inl e) f = Inl e"
  "bind_result (Inr a) f = f a"
  by (simp_all add: bind_result_def)

lemma bind_result_Inr_iff:
  "bind_result r f = Inr b \<longleftrightarrow> (\<exists>a. r = Inr a \<and> f a = Inr b)"
  by (cases r) simp_all

text \<open>Functions that may also panic at run time return the following type.\<close>

datatype 'a go = Ret 'a | Err go_error | Panic string

definition bind_go :: "'a go \<Rightarrow> ('a \<Rightarrow> 'b go) \<Rightarrow> 'b go" where
  "bind_go r f = (case r of Ret a \<Rightarrow> f a | Err e \<Rightarrow> Err e | Panic p \<Rightarrow> Panic p)"

lemma bind_go_simps [simp]:
  "bind_go (Ret a) f = f a" "bind_go (Err e) f = Err e" "bind_go (Panic p) f = Panic p"
  by (simp_all add: bind_go_def)

lemma bind_go_Ret_iff: "bind_go r f = Ret b \<longleftrightarrow> (\<exists>a. r = Ret a \<and> f a = Ret b)"
  by (cases r) simp_all

lemma bind_go_Panic_iff:
  "bind_go r f = Panic p \<longleftrightarrow> r = Panic p \<or> (\<exists>a. r = Ret a \<and> f a = Panic p)"
  by (cases r) simp_all

text \<open>A loop over a slice whose body may fail: the first failure ends it.\<close>

fun fold_go :: "('a \<Rightarrow> 's \<Rightarrow> 's go) \<Rightarrow> 'a list \<Rightarrow> 's \<Rightarrow> 's go" where
  "fold_go f [] s = Ret s"
| "fold_go f (x # xs) s = bind_go (f x s) (fold_go f xs)"

lemma fold_go_append: "fold_go f (xs @ ys) s = bind_go (fold_go f xs s) (fold_go f ys)"
  by (induction xs arbitrary: s) (auto simp: bind_go_def split: go.splits)

lemma fold_go_invariant:
  assumes "fold_go f xs s = Ret t" "P s"
    and "\<And>x u v. x \<in> set xs \<Longrightarrow> P u \<Longrightarrow> f x u = Ret v \<Longrightarrow> P v"
  shows "P t"
  using assms
proof (induction xs arbitrary: s)
  case (Cons x xs)
  then obtain u where "f x s = Ret u" "fold_go f xs u = Ret t"
    by (auto simp: bind_go_Ret_iff)
  then show ?case using Cons by (meson list.set_intros)
qed simp

lemma fold_go_no_panic:
  assumes "\<And>x u p. x \<in> set xs \<Longrightarrow> f x u \<noteq> Panic p"
  shows "fold_go f xs s \<noteq> Panic p"
  using assms by (induction xs arbitrary: s) (auto simp: bind_go_Panic_iff)

lemma fold_go_facts:
  assumes "fold_go f xs s = Ret t"
    and step: "\<And>x u v. x \<in> set xs \<Longrightarrow> f x u = Ret v \<Longrightarrow> le u v \<and> Q x v"
    and refl: "\<And>u. le u u" and trans: "\<And>u v w. le u v \<Longrightarrow> le v w \<Longrightarrow> le u w"
    and mono: "\<And>x u v. le u v \<Longrightarrow> Q x u \<Longrightarrow> Q x v"
  shows "le s t \<and> (\<forall>x\<in>set xs. Q x t)"
  using assms(1) step
proof (induction xs arbitrary: s)
  case (Cons x xs)
  then obtain u where u: "f x s = Ret u" "fold_go f xs u = Ret t" by (auto simp: bind_go_Ret_iff)
  then have "le s u \<and> Q x u" using Cons.prems(2) [of x s u] by simp
  moreover have "le u t \<and> (\<forall>x\<in>set xs. Q x t)"
    using u(2) by (rule Cons.IH) (meson Cons.prems(2) list.set_intros(2))
  ultimately show ?case using trans mono by (metis set_ConsD)
qed (simp add: refl)

section \<open>Sorted key sets\<close>

text \<open>Collecting keys into a Go map and sorting them afterwards: the result is
  a function of the set of keys only.\<close>

definition sorted_set :: "'a::linorder list \<Rightarrow> 'a list" where
  "sorted_set xs = sort (remdups xs)"

lemma set_sorted_set [simp]: "set (sorted_set xs) = set xs"
  by (simp add: sorted_set_def)

lemma sorted_sorted_set [simp]: "sorted (sorted_set xs)"
  by (simp add: sorted_set_def)

lemma distinct_sorted_set [simp]: "distinct (sorted_set xs)"
  by (simp add: sorted_set_def)

lemma sorted_set_eq_list_of_set: "sorted_set xs = sorted_list_of_set (set xs)"
  by (simp add: sorted_set_def sorted_list_of_set_sort_remdups)

lemma sorted_set_cong: "set xs = set ys \<Longrightarrow> sorted_set xs = sorted_set ys"
  by (simp add: sorted_set_eq_list_of_set)

lemma sorted_set_Nil [simp]: "sorted_set [] = []"
  by (simp add: sorted_set_def)

lemma sorted_set_eq_Nil [simp]: "sorted_set xs = [] \<longleftrightarrow> xs = []"
  by (metis set_empty set_sorted_set)

lemma sorted_set_idem [simp]: "sorted_set (sorted_set xs) = sorted_set xs"
  by (rule sorted_set_cong) simp

section \<open>Deduplication keeping the first occurrence\<close>

fun dedup_from :: "'a list \<Rightarrow> 'a list \<Rightarrow> 'a list" where
  "dedup_from seen [] = []"
| "dedup_from seen (x # xs) =
     (if x \<in> set seen then dedup_from seen xs else x # dedup_from (x # seen) xs)"

definition dedup_first :: "'a list \<Rightarrow> 'a list" where
  "dedup_first = dedup_from []"

lemma set_dedup_from [simp]: "set (dedup_from seen xs) = set xs - set seen"
  by (induction seen xs rule: dedup_from.induct) auto

lemma distinct_dedup_from [simp]: "distinct (dedup_from seen xs)"
  by (induction seen xs rule: dedup_from.induct) auto

lemma set_dedup_first [simp]: "set (dedup_first xs) = set xs"
  by (simp add: dedup_first_def)

lemma distinct_dedup_first [simp]: "distinct (dedup_first xs)"
  by (simp add: dedup_first_def)

text \<open>Keeping the first element of each key, as a Go map from keys to the first
  value seen does.\<close>

fun first_by_from :: "'k list \<Rightarrow> ('a \<Rightarrow> 'k) \<Rightarrow> 'a list \<Rightarrow> 'a list" where
  "first_by_from seen k [] = []"
| "first_by_from seen k (x # xs) =
     (if k x \<in> set seen then first_by_from seen k xs else x # first_by_from (k x # seen) k xs)"

definition first_by :: "('a \<Rightarrow> 'k) \<Rightarrow> 'a list \<Rightarrow> 'a list" where
  "first_by = first_by_from []"

lemma first_by_from_keys [simp]: "k ` set (first_by_from seen k xs) = k ` set xs - set seen"
  by (induction seen k xs rule: first_by_from.induct) auto

lemma first_by_from_subset: "set (first_by_from seen k xs) \<subseteq> set xs"
  by (induction seen k xs rule: first_by_from.induct) auto

lemma distinct_first_by_from: "distinct (map k (first_by_from seen k xs))"
proof (induction seen k xs rule: first_by_from.induct)
  case (2 seen k x xs)
  then show ?case using first_by_from_keys [of k "k x # seen" xs] by auto
qed simp

lemma first_by_from_snoc:
  "first_by_from seen k (xs @ [x]) = first_by_from seen k xs @ (if k x \<in> set seen \<union> k ` set xs then [] else [x])"
  by (induction seen k xs rule: first_by_from.induct) auto

lemma first_by_snoc:
  "first_by k (xs @ [x]) = (if k x \<in> k ` set xs then first_by k xs else first_by k xs @ [x])"
  by (simp add: first_by_def first_by_from_snoc)

lemma first_by_Nil [simp]: "first_by k [] = []"
  by (simp add: first_by_def)

lemma first_by_keys [simp]: "k ` set (first_by k xs) = k ` set xs"
  by (simp add: first_by_def)

lemma first_by_subset: "set (first_by k xs) \<subseteq> set xs"
  by (simp add: first_by_def first_by_from_subset)

lemma distinct_first_by: "distinct (map k (first_by k xs))"
  by (simp add: first_by_def distinct_first_by_from)

section \<open>Sorting a slice by a key\<close>

text \<open>\<^verbatim>\<open>sort.Slice\<close> promises a permutation that is ordered by the comparison
  and nothing about ties. The contract is the following locale; a sort by an
  injective key is then unique, whatever algorithm is used. The model sorts
  with \<^const>\<open>sort_key\<close>.\<close>

locale slice_sort =
  fixes srt :: "('a \<Rightarrow> 'k::linorder) \<Rightarrow> 'a list \<Rightarrow> 'a list"
  assumes srt_perm: "mset (srt k xs) = mset xs"
    and srt_sorted: "sorted (map k (srt k xs))"
begin

lemma srt_set: "set (srt k xs) = set xs"
  using srt_perm [of k xs] by (metis set_mset_mset)

lemma srt_length: "length (srt k xs) = length xs"
  using srt_perm [of k xs] by (metis size_mset)

lemma srt_unique:
  assumes "inj_on k (set xs)" "mset ys = mset xs" "sorted (map k ys)"
  shows "srt k xs = ys"
proof -
  have "set ys = set xs" using assms(2) by (metis set_mset_mset)
  moreover have "mset (map k (srt k xs)) = mset (map k ys)"
    using assms(2) srt_perm [of k xs] by simp
  then have "map k (srt k xs) = map k ys"
    using srt_sorted assms(3) by (metis properties_for_sort sorted_sort_id)
  ultimately show ?thesis
    using assms(1) srt_set map_inj_on [of k "srt k xs" ys] by simp
qed

lemma srt_perm_invariant:
  assumes "inj_on k (set xs)" "mset xs = mset ys"
  shows "srt k xs = srt k ys"
  by (metis assms srt_perm srt_sorted srt_unique)

end

interpretation go_slice: slice_sort sort_key
  by unfold_locales simp_all

section \<open>Option lists\<close>

lemma set_map_filter_conv: "set (List.map_filter f xs) = {y. \<exists>x\<in>set xs. f x = Some y}"
  by (force simp: List.map_filter_def)

section \<open>Words: prefixes as shifts\<close>

unbundle bit_operations_syntax

lemma replicate_numeral [go_eval]:
  "replicate (numeral k) x = x # replicate (pred_numeral k) x"
  by (simp add: numeral_eq_Suc)

lemma bit_Suc_0_0 [simp]: "bit (Suc 0) 0"
  by (simp add: bit_0)

lemma and_not_mask_eq_iff:
  "(a AND NOT (mask k)) = (b AND NOT (mask k)) \<longleftrightarrow> drop_bit k a = drop_bit k (b :: 'a::len word)"
proof
  assume "(a AND NOT (mask k)) = (b AND NOT (mask k))"
  then have "drop_bit k (a AND NOT (mask k)) = drop_bit k (b AND NOT (mask k))" by simp
  then show "drop_bit k a = drop_bit k b"
    by (auto simp: bit_eq_iff bit_simps dest: bit_imp_le_length)
next
  assume *: "drop_bit k a = drop_bit k b"
  show "(a AND NOT (mask k)) = (b AND NOT (mask k))"
  proof (rule bit_word_eqI)
    fix n assume "n < LENGTH('a)"
    show "bit (a AND NOT (mask k)) n = bit (b AND NOT (mask k)) n"
    proof (cases "k \<le> n")
      case True
      then have "bit a n = bit (drop_bit k a) (n - k)" "bit b n = bit (drop_bit k b) (n - k)"
        by (simp_all add: bit_drop_bit_eq)
      then show ?thesis using * by (simp add: bit_simps)
    qed (simp add: bit_simps)
  qed
qed

lemma drop_bit_mono_eq:
  fixes a b :: "'a::len word"
  assumes "drop_bit k a = drop_bit k b" "k \<le> l"
  shows "drop_bit l a = drop_bit l b"
proof -
  have "drop_bit l x = drop_bit (l - k) (drop_bit k x)" for x :: "'a word"
    using assms(2) by (simp add: drop_bit_drop_bit)
  then show ?thesis using assms(1) by metis
qed

lemma drop_bit_and_not_mask:
  fixes a :: "'a::len word"
  shows "k \<le> l \<Longrightarrow> drop_bit l (a AND NOT (mask k)) = drop_bit l a"
  by (rule bit_word_eqI) (auto simp: bit_simps dest: bit_imp_le_length)

section \<open>Lists of objects by key\<close>

definition keyed_find :: "('x \<Rightarrow> 'k) \<Rightarrow> 'x list \<Rightarrow> 'k \<rightharpoonup> 'x" where
  "keyed_find key xs k = find (\<lambda>x. key x = k) xs"

definition keyed_put :: "('x \<Rightarrow> 'k) \<Rightarrow> 'k \<Rightarrow> 'x option \<Rightarrow> 'x list \<Rightarrow> 'x list" where
  "keyed_put key k new xs = (case new of None \<Rightarrow> [] | Some x \<Rightarrow> [x]) @ filter (\<lambda>x. key x \<noteq> k) xs"

lemma keyed_find_key: "keyed_find key xs k = Some x \<Longrightarrow> key x = k \<and> x \<in> set xs"
  by (auto simp: keyed_find_def find_Some_iff)

lemma keyed_find_put:
  assumes "\<And>x. new = Some x \<Longrightarrow> key x = k"
  shows "keyed_find key (keyed_put key k new xs) = (keyed_find key xs)(k := new)"
proof
  fix j
  have "find (\<lambda>x. key x = j) (filter (\<lambda>x. key x \<noteq> k) xs) = (if j = k then None else find (\<lambda>x. key x = j) xs)"
    by (induction xs) auto
  then show "keyed_find key (keyed_put key k new xs) j = ((keyed_find key xs)(k := new)) j"
    using assms by (cases new) (auto simp: keyed_find_def keyed_put_def)
qed

end
