(* ===== verification/Go_Strings.thy ===== *)
theory Go_Strings
  imports Mesh_Prelude
begin

text \<open>
  The part of the Go standard library on strings, numbers and hashes that the
  mesh code calls: \<^verbatim>\<open>strconv.Itoa\<close>, the decimal reader of package \<^verbatim>\<open>net\<close>,
  \<^verbatim>\<open>strings.{Cut,Split,Join,Trim,TrimRight,TrimSpace,ToLower,HasPrefix,HasSuffix,TrimSuffix}\<close>,
  the verbs \<^verbatim>\<open>%q\<close> and \<^verbatim>\<open>%v\<close> of \<^verbatim>\<open>fmt\<close> on strings and string slices, FNV-1a,
  SHA-256 and hexadecimal encoding.

  \<^verbatim>\<open>ToLower\<close>, \<^verbatim>\<open>TrimSpace\<close> and \<^verbatim>\<open>%q\<close> are modelled on bytes below 128; bytes
  of multi-byte runes are left unchanged. Everything the mesh validates with
  these functions (cluster identifiers, protocols, CIDRs, DNS names) is ASCII.
\<close>

section \<open>Bytes and digits\<close>

abbreviation byte_of :: "char \<Rightarrow> nat" where
  "byte_of c \<equiv> of_char c"

definition is_digit :: "char \<Rightarrow> bool" where
  "is_digit c \<longleftrightarrow> 48 \<le> byte_of c \<and> byte_of c \<le> 57"

definition digit_val :: "char \<Rightarrow> nat" where
  "digit_val c = byte_of c - 48"

definition digit_char :: "nat \<Rightarrow> char" where
  "digit_char n = char_of (48 + n)"

lemma byte_of_digit_char: "n < 10 \<Longrightarrow> byte_of (digit_char n) = 48 + n"
  by (simp add: digit_char_def)

lemma is_digit_digit_char [simp]: "n < 10 \<Longrightarrow> is_digit (digit_char n)"
  by (simp add: is_digit_def byte_of_digit_char)

lemma digit_val_digit_char [simp]: "n < 10 \<Longrightarrow> digit_val (digit_char n) = n"
  by (simp add: digit_val_def byte_of_digit_char)

lemma digit_char_digit_val: "is_digit c \<Longrightarrow> digit_char (digit_val c) = c"
  by (simp add: is_digit_def digit_val_def digit_char_def)

lemma digit_val_less: "is_digit c \<Longrightarrow> digit_val c < 10"
  by (auto simp: is_digit_def digit_val_def)

section \<open>Decimal numerals\<close>

fun itoa :: "nat \<Rightarrow> string" where
  "itoa n = (if n < 10 then [digit_char n] else itoa (n div 10) @ [digit_char (n mod 10)])"

declare itoa.simps [simp del]

definition itoa_int :: "int \<Rightarrow> string" where
  "itoa_int i = (if i < 0 then CHR ''-'' # itoa (nat (- i)) else itoa (nat i))"

definition decimal :: "string \<Rightarrow> nat" where
  "decimal s = foldl (\<lambda>n c. 10 * n + digit_val c) 0 s"

text \<open>\<^verbatim>\<open>dtoi\<close> of package \<^verbatim>\<open>net\<close>, called on a whole string: at least one digit,
  digits only, and a value below its cut-off \<^verbatim>\<open>0xFFFFFF\<close>.\<close>

definition dtoi :: "string \<Rightarrow> nat option" where
  "dtoi s = (if s \<noteq> [] \<and> list_all is_digit s \<and> decimal s < 16777215
             then Some (decimal s) else None)"

lemma itoa_not_Nil [simp]: "itoa n \<noteq> []"
  by (subst itoa.simps) simp

lemma itoa_digits: "list_all is_digit (itoa n)"
proof (induction n rule: itoa.induct)
  case (1 n)
  show ?case
    using 1 by (subst itoa.simps) (simp add: digit_val_less)
qed

lemma decimal_snoc: "decimal (s @ [c]) = 10 * decimal s + digit_val c"
  by (simp add: decimal_def)

lemma decimal_itoa [simp]: "decimal (itoa n) = n"
proof (induction n rule: itoa.induct)
  case (1 n)
  show ?case
  proof (cases "n < 10")
    case True
    then show ?thesis by (simp add: itoa.simps [of n] decimal_def)
  next
    case False
    then show ?thesis using 1 by (simp add: itoa.simps [of n] decimal_snoc)
  qed
qed

lemma itoa_inj: "itoa m = itoa n \<longleftrightarrow> m = n"
  by (metis decimal_itoa)

lemma dtoi_itoa: "n < 16777215 \<Longrightarrow> dtoi (itoa n) = Some n"
  by (simp add: dtoi_def itoa_digits)

lemma itoa_hd_zero: "n \<noteq> 0 \<Longrightarrow> hd (itoa n) \<noteq> CHR ''0''"
proof (induction n rule: itoa.induct)
  case (1 n)
  show ?case
  proof (cases "n < 10")
    case True
    then have "byte_of (hd (itoa n)) = 48 + n"
      by (simp add: itoa.simps [of n] byte_of_digit_char)
    then show ?thesis using 1 by auto
  next
    case False
    then show ?thesis using 1 by (simp add: itoa.simps [of n] hd_append)
  qed
qed

section \<open>Splitting and joining\<close>

text \<open>\<^verbatim>\<open>strings.Cut\<close> and \<^verbatim>\<open>strings.Split\<close> at a separator of one byte.\<close>

definition cut :: "char \<Rightarrow> string \<Rightarrow> (string \<times> string) option" where
  "cut c s = (case dropWhile (\<lambda>x. x \<noteq> c) s of
                [] \<Rightarrow> None
              | _ # t \<Rightarrow> Some (takeWhile (\<lambda>x. x \<noteq> c) s, t))"

fun split_on :: "char \<Rightarrow> string \<Rightarrow> string list" where
  "split_on c [] = [[]]"
| "split_on c (x # xs) =
     (if x = c then [] # split_on c xs
      else (case split_on c xs of [] \<Rightarrow> [[x]] | w # ws \<Rightarrow> (x # w) # ws))"

fun join :: "string \<Rightarrow> string list \<Rightarrow> string" where
  "join sep [] = []"
| "join sep [x] = x"
| "join sep (x # y # ys) = x @ sep @ join sep (y # ys)"

lemma cut_append:
  assumes "c \<notin> set s"
  shows "cut c (s @ c # t) = Some (s, t)"
proof -
  have "\<And>x. x \<in> set s \<Longrightarrow> x \<noteq> c" using assms by auto
  then show ?thesis by (simp add: cut_def dropWhile_append2 takeWhile_append2)
qed

lemma cut_None_iff: "cut c s = None \<longleftrightarrow> c \<notin> set s"
proof (cases "c \<in> set s")
  case True
  then obtain a b where "s = a @ c # b" "c \<notin> set a" by (meson split_list_first)
  then show ?thesis by (simp add: cut_append)
next
  case False
  then have "dropWhile (\<lambda>x. x \<noteq> c) s = []" by (auto simp: dropWhile_eq_Nil_conv)
  then have "cut c s = None" unfolding cut_def by (simp only: list.case)
  then show ?thesis using False by simp
qed

lemma cut_SomeD: "cut c s = Some (a, b) \<Longrightarrow> s = a @ c # b \<and> c \<notin> set a"
  by (induction s arbitrary: a) (auto simp: cut_def split: list.splits if_splits)

lemma split_on_not_Nil [simp]: "split_on c s \<noteq> []"
  by (induction s) (auto split: list.splits)

lemma split_on_append: "c \<notin> set w \<Longrightarrow> split_on c (w @ c # s) = w # split_on c s"
  by (induction w) (auto split: list.splits)

lemma split_on_no_sep: "c \<notin> set w \<Longrightarrow> split_on c w = [w]"
  by (induction w) (auto split: list.splits)

lemma split_on_join:
  "\<lbrakk>ws \<noteq> []; \<forall>w\<in>set ws. c \<notin> set w\<rbrakk> \<Longrightarrow> split_on c (join [c] ws) = ws"
  by (induction "[c]" ws rule: join.induct) (auto simp: split_on_no_sep split_on_append)

lemma join_split_on: "join [c] (split_on c s) = s"
proof (induction s)
  case (Cons x s)
  obtain w ws where "split_on c s = w # ws" by (cases "split_on c s") auto
  then show ?case using Cons by (cases ws) auto
qed simp

section \<open>Trimming, case and affixes\<close>

definition trim_right :: "(char \<Rightarrow> bool) \<Rightarrow> string \<Rightarrow> string" where
  "trim_right p s = rev (dropWhile p (rev s))"

definition trim :: "(char \<Rightarrow> bool) \<Rightarrow> string \<Rightarrow> string" where
  "trim p s = trim_right p (dropWhile p s)"

definition is_space :: "char \<Rightarrow> bool" where
  "is_space c \<longleftrightarrow> byte_of c \<in> {9, 10, 11, 12, 13, 32}"

definition trim_space :: "string \<Rightarrow> string" where
  "trim_space = trim is_space"

definition lower_char :: "char \<Rightarrow> char" where
  "lower_char c = (if 65 \<le> byte_of c \<and> byte_of c \<le> 90 then char_of (byte_of c + 32) else c)"

definition to_lower :: "string \<Rightarrow> string" where
  "to_lower = map lower_char"

definition upper_char :: "char \<Rightarrow> char" where
  "upper_char c = (if 97 \<le> byte_of c \<and> byte_of c \<le> 122 then char_of (byte_of c - 32) else c)"

definition to_upper :: "string \<Rightarrow> string" where
  "to_upper = map upper_char"

definition has_prefix :: "string \<Rightarrow> string \<Rightarrow> bool" where
  "has_prefix s p \<longleftrightarrow> take (length p) s = p"

definition has_suffix :: "string \<Rightarrow> string \<Rightarrow> bool" where
  "has_suffix s p \<longleftrightarrow> length p \<le> length s \<and> drop (length s - length p) s = p"

definition trim_suffix :: "string \<Rightarrow> string \<Rightarrow> string" where
  "trim_suffix s p = (if has_suffix s p then take (length s - length p) s else s)"

lemma has_prefix_iff: "has_prefix s p \<longleftrightarrow> (\<exists>t. s = p @ t)"
  unfolding has_prefix_def by (metis append_eq_conv_conj append_take_drop_id)

lemma has_suffix_iff: "has_suffix s p \<longleftrightarrow> (\<exists>t. s = t @ p)"
  unfolding has_suffix_def
  by (metis append_eq_conv_conj append_take_drop_id diff_diff_cancel length_append le_add2 length_drop add_diff_cancel_right')

lemma trim_suffix_append [simp]: "trim_suffix (s @ p) p = s"
  by (simp add: trim_suffix_def has_suffix_def)

lemma byte_of_lower_char:
  "byte_of (lower_char c) = (if 65 \<le> byte_of c \<and> byte_of c \<le> 90 then byte_of c + 32 else byte_of c)"
  by (simp add: lower_char_def)

lemma lower_char_idem [simp]: "lower_char (lower_char c) = lower_char c"
  by (auto simp: lower_char_def)

lemma to_lower_idem [simp]: "to_lower (to_lower s) = to_lower s"
  by (simp add: to_lower_def comp_def)

lemma length_to_lower [simp]: "length (to_lower s) = length s"
  by (simp add: to_lower_def)

lemma set_trim_right_subset: "set (trim_right p s) \<subseteq> set s"
  unfolding trim_right_def by (metis set_dropWhileD set_rev subsetI)

lemma set_trim_subset: "set (trim p s) \<subseteq> set s"
  unfolding trim_def using set_trim_right_subset by (metis set_dropWhileD subset_iff)

lemma length_trim_right: "length (trim_right p s) \<le> length s"
  by (simp add: trim_right_def) (metis length_dropWhile_le length_rev)

lemma trim_right_last: "trim_right p s \<noteq> [] \<Longrightarrow> \<not> p (last (trim_right p s))"
  unfolding trim_right_def by (metis hd_dropWhile last_rev rev_is_Nil_conv)

lemma trim_right_prefix: "\<exists>t. s = trim_right p s @ t"
  unfolding trim_right_def
  by (metis rev_append rev_rev_ident takeWhile_dropWhile_id)

lemma trim_right_hd: "trim_right p s \<noteq> [] \<Longrightarrow> hd (trim_right p s) = hd s"
  using trim_right_prefix [of s p] by (metis hd_append2)

lemma trim_hd: "trim p s \<noteq> [] \<Longrightarrow> \<not> p (hd (trim p s))"
  by (metis hd_dropWhile list.size(3) le_zero_eq length_0_conv length_trim_right trim_def trim_right_hd)

lemma trim_last: "trim p s \<noteq> [] \<Longrightarrow> \<not> p (last (trim p s))"
  by (simp add: trim_def trim_right_last)

section \<open>Runes\<close>

text \<open>Ranging over a string decodes UTF-8: an invalid byte is consumed alone
  and yields \<^verbatim>\<open>U+FFFD\<close>.\<close>

definition cont_byte :: "nat \<Rightarrow> nat \<Rightarrow> char \<Rightarrow> bool" where
  "cont_byte lo hi c \<longleftrightarrow> lo \<le> byte_of c \<and> byte_of c \<le> hi"

fun runes :: "string \<Rightarrow> nat list" where
  "runes [] = []"
| "runes (c # cs) =
     (let b = byte_of c in
      if b < 128 then b # runes cs
      else case cs of
        c1 # cs1 \<Rightarrow>
          if 194 \<le> b \<and> b \<le> 223 \<and> cont_byte 128 191 c1
          then (64 * (b - 192) + (byte_of c1 - 128)) # runes cs1
          else (case cs1 of
            c2 # cs2 \<Rightarrow>
              if 224 \<le> b \<and> b \<le> 239
                 \<and> cont_byte (if b = 224 then 160 else 128) (if b = 237 then 159 else 191) c1
                 \<and> cont_byte 128 191 c2
              then (4096 * (b - 224) + 64 * (byte_of c1 - 128) + (byte_of c2 - 128)) # runes cs2
              else (case cs2 of
                c3 # cs3 \<Rightarrow>
                  if 240 \<le> b \<and> b \<le> 244
                     \<and> cont_byte (if b = 240 then 144 else 128) (if b = 244 then 143 else 191) c1
                     \<and> cont_byte 128 191 c2 \<and> cont_byte 128 191 c3
                  then (262144 * (b - 240) + 4096 * (byte_of c1 - 128)
                        + 64 * (byte_of c2 - 128) + (byte_of c3 - 128)) # runes cs3
                  else 65533 # runes cs
              | [] \<Rightarrow> 65533 # runes cs)
          | [] \<Rightarrow> 65533 # runes cs)
      | [] \<Rightarrow> [65533])"

text \<open>\<^verbatim>\<open>unicode.ToLower\<close> as far as an ASCII result is concerned: besides the
  capital letters, only \<^verbatim>\<open>U+0130\<close> and \<^verbatim>\<open>U+212A\<close> have an ASCII lower case.
  Other runes stand for themselves here; they and their lower case are not ASCII.\<close>

definition lower_rune :: "nat \<Rightarrow> nat" where
  "lower_rune r = (if 65 \<le> r \<and> r \<le> 90 then r + 32
     else if r = 304 then 105 else if r = 8490 then 107 else r)"

lemma runes_ascii: "list_all (\<lambda>c. byte_of c < 128) s \<Longrightarrow> runes s = map byte_of s"
  by (induction s) simp_all

section \<open>Formatting\<close>

text \<open>\<^verbatim>\<open>%v\<close> of a \<^verbatim>\<open>[]string\<close> and \<^verbatim>\<open>%q\<close> of a \<^verbatim>\<open>string\<close>.\<close>

definition fmt_strings :: "string list \<Rightarrow> string" where
  "fmt_strings xs = ''['' @ join '' '' xs @ '']''"

definition hex_char :: "nat \<Rightarrow> char" where
  "hex_char n = (if n < 10 then char_of (48 + n) else char_of (87 + n))"

definition quote_char :: "char \<Rightarrow> string" where
  "quote_char c =
     (let b = byte_of c; bs = char_of (92 :: nat) in
      if b = 34 \<or> b = 92 then [bs, c]
      else if b = 7 then [bs, CHR ''a''] else if b = 8 then [bs, CHR ''b'']
      else if b = 9 then [bs, CHR ''t''] else if b = 10 then [bs, CHR ''n'']
      else if b = 11 then [bs, CHR ''v''] else if b = 12 then [bs, CHR ''f'']
      else if b = 13 then [bs, CHR ''r'']
      else if b < 32 \<or> b = 127 then [bs, CHR ''x'', hex_char (b div 16), hex_char (b mod 16)]
      else [c])"

definition quote :: "string \<Rightarrow> string" where
  "quote s = [char_of (34 :: nat)] @ concat (map quote_char s) @ [char_of (34 :: nat)]"

section \<open>FNV-1a\<close>

text \<open>\<^verbatim>\<open>hash/fnv\<close>: the 32- and 64-bit variants, on words of that width.\<close>

definition fnv32a :: "string \<Rightarrow> 32 word" where
  "fnv32a s = foldl (\<lambda>h c. (h XOR of_nat (byte_of c)) * 16777619) 2166136261 s"

definition fnv64a :: "string \<Rightarrow> 64 word" where
  "fnv64a s = foldl (\<lambda>h c. (h XOR of_nat (byte_of c)) * 1099511628211) 14695981039346656037 s"

section \<open>SHA-256\<close>

text \<open>The constants are defined as FIPS 180-4 defines them, from the first 64 primes:
  the first 32 bits of the fractional parts of their cube roots, and of the
  square roots of the first eight. The integer root is found bit by bit from
  the given bit downwards.\<close>

definition prime_nat :: "nat \<Rightarrow> bool" where
  "prime_nat n \<longleftrightarrow> 2 \<le> n \<and> list_all (\<lambda>d. n mod d \<noteq> 0) [2..<n]"

definition first_primes :: "nat \<Rightarrow> int list" where
  "first_primes k = map int (take k (filter prime_nat [2..<312]))"

fun int_root :: "nat \<Rightarrow> int \<Rightarrow> nat \<Rightarrow> int \<Rightarrow> int" where
  "int_root e x 0 r = (if (r + 1) ^ e \<le> x then r + 1 else r)"
| "int_root e x (Suc b) r =
     int_root e x b (if (r + 2 ^ Suc b) ^ e \<le> x then r + 2 ^ Suc b else r)"

definition root_fraction :: "nat \<Rightarrow> int \<Rightarrow> 32 word" where
  "root_fraction e p = word_of_int (int_root e (p * 2 ^ (32 * e)) 37 0)"

definition sha256_k :: "32 word list" where
  "sha256_k = map (root_fraction 3) (first_primes 64)"

definition sha256_h0 :: "32 word list" where
  "sha256_h0 = map (root_fraction 2) (first_primes 8)"

definition sha256_pad :: "8 word list \<Rightarrow> 8 word list" where
  "sha256_pad bs =
     (let n = length bs; z = (119 - n mod 64) mod 64; l = (of_nat (8 * n) :: 64 word) in
      bs @ [0x80] @ replicate z 0 @ map (\<lambda>i. ucast (drop_bit (56 - 8 * i) l)) [0..<8])"

fun be_words :: "8 word list \<Rightarrow> 32 word list" where
  "be_words (a # b # c # d # r) =
     (push_bit 24 (ucast a) OR push_bit 16 (ucast b) OR push_bit 8 (ucast c) OR ucast d) # be_words r"
| "be_words _ = []"

text \<open>The message schedule, kept as the list of the words so far in reverse.\<close>

fun sha256_schedule :: "nat \<Rightarrow> 32 word list \<Rightarrow> 32 word list" where
  "sha256_schedule 0 r = rev r"
| "sha256_schedule (Suc n) r =
     (let w2 = r ! 1; w7 = r ! 6; w15 = r ! 14; w16 = r ! 15;
          s0 = word_rotr 7 w15 XOR word_rotr 18 w15 XOR drop_bit 3 w15;
          s1 = word_rotr 17 w2 XOR word_rotr 19 w2 XOR drop_bit 10 w2
      in sha256_schedule n ((s1 + w7 + s0 + w16) # r))"

fun sha256_round :: "32 word list \<Rightarrow> 32 word \<times> 32 word \<Rightarrow> 32 word list" where
  "sha256_round [a, b, c, d, e, f, g, h] (k, w) =
     (let t1 = h + (word_rotr 6 e XOR word_rotr 11 e XOR word_rotr 25 e)
                 + ((e AND f) XOR (NOT e AND g)) + k + w;
          t2 = (word_rotr 2 a XOR word_rotr 13 a XOR word_rotr 22 a)
                 + ((a AND b) XOR (a AND c) XOR (b AND c))
      in [t1 + t2, a, b, c, d + t1, e, f, g])"
| "sha256_round st _ = st"

definition sha256_block :: "32 word list \<Rightarrow> 32 word list \<Rightarrow> 32 word list" where
  "sha256_block st ws =
     map2 (+) st (foldl sha256_round st (zip sha256_k (sha256_schedule 48 (rev ws))))"

fun sha256_blocks :: "nat \<Rightarrow> 32 word list \<Rightarrow> 32 word list \<Rightarrow> 32 word list" where
  "sha256_blocks 0 st ws = st"
| "sha256_blocks (Suc n) st ws = sha256_blocks n (sha256_block st (take 16 ws)) (drop 16 ws)"

text \<open>\<^verbatim>\<open>sha256.Sum256\<close> of a string, as 32 bytes.\<close>

definition sha256 :: "string \<Rightarrow> 8 word list" where
  "sha256 s =
     (let ws = be_words (sha256_pad (map (\<lambda>c. of_nat (byte_of c)) s)) in
      concat (map (\<lambda>w. map (\<lambda>i. ucast (drop_bit (24 - 8 * i) w)) [0..<4])
        (sha256_blocks (length ws div 16) sha256_h0 ws)))"

definition hex_of_bytes :: "8 word list \<Rightarrow> string" where
  "hex_of_bytes bs = concat (map (\<lambda>b. [hex_char (unat b div 16), hex_char (unat b mod 16)]) bs)"

section \<open>Lengths of digests\<close>

lemma length_sha256_round: "length st = 8 \<Longrightarrow> length (sha256_round st kw) = 8"
  by (induction st kw rule: sha256_round.induct) (auto simp: Let_def)

lemma length_foldl_sha256_round: "length st = 8 \<Longrightarrow> length (foldl sha256_round st kws) = 8"
  by (induction kws arbitrary: st) (simp_all add: length_sha256_round)

lemma length_sha256_blocks: "length st = 8 \<Longrightarrow> length (sha256_blocks n st ws) = 8"
  by (induction n arbitrary: st ws) (simp_all add: sha256_block_def length_foldl_sha256_round)

lemma length_sha256_h0: "length sha256_h0 = 8"
proof -
  define more where "more = filter prime_nat [20..<312]"
  have small: "filter prime_nat [2..<20] = [2, 3, 5, 7, 11, 13, 17, 19]"
    by (simp add: prime_nat_def)
  have "[2..<20 + 292] = [2..<20] @ [20..<20 + 292 :: nat]"
    by (rule upt_add_eq_append) (simp only: numeral_le_iff semiring_norm)
  then have "filter prime_nat [2..<312] = filter prime_nat [2..<20] @ more"
    unfolding more_def by (simp only: filter_append numeral_plus_numeral semiring_norm)
  then show ?thesis unfolding sha256_h0_def first_primes_def by (simp only: small) simp
qed

lemma length_sha256 [simp]: "length (sha256 s) = 32"
  by (simp add: sha256_def Let_def length_concat comp_def sum_list_triv length_sha256_blocks
      length_sha256_h0)

lemma length_hex_of_bytes [simp]: "length (hex_of_bytes bs) = 2 * length bs"
  by (simp add: hex_of_bytes_def length_concat comp_def sum_list_triv)

definition is_hex_char :: "char \<Rightarrow> bool" where
  "is_hex_char c \<longleftrightarrow> is_digit c \<or> (97 \<le> byte_of c \<and> byte_of c \<le> 102)"

lemma is_hex_char_hex_char: "n < 16 \<Longrightarrow> is_hex_char (hex_char n)"
  by (simp add: is_hex_char_def hex_char_def is_digit_def)

lemma hex_of_bytes_chars: "c \<in> set (hex_of_bytes bs) \<Longrightarrow> is_hex_char c"
proof -
  have "unat (b :: 8 word) div 16 < 16" for b
    using unsigned_less [of b, where 'a = nat] by simp
  then show "c \<in> set (hex_of_bytes bs) \<Longrightarrow> is_hex_char c"
    by (auto simp: hex_of_bytes_def is_hex_char_hex_char)
qed

section \<open>Evaluation\<close>

lemma itoa_eval [go_eval]:
  "itoa 0 = ''0''" "itoa (Suc 0) = ''1''"
  "itoa (numeral k) = (if numeral k < (10 :: nat) then [digit_char (numeral k)]
     else itoa (numeral k div 10) @ [digit_char (numeral k mod 10)])"
  by (simp_all add: itoa.simps [of 0] itoa.simps [of "Suc 0"] itoa.simps [of "numeral k"] digit_char_def
      char_of_def)

lemmas string_eval [go_eval] =
  is_digit_def digit_val_def digit_char_def decimal_def dtoi_def cut_def trim_right_def trim_def
  is_space_def trim_space_def lower_char_def to_lower_def upper_char_def to_upper_def
  has_prefix_def has_suffix_def trim_suffix_def cont_byte_def lower_rune_def fmt_strings_def
  quote_char_def quote_def hex_char_def fnv32a_def fnv64a_def char_of_def Let_def

end
