(* ===== verification/Go_Net.thy ===== *)
theory Go_Net
  imports Go_Strings
begin

text \<open>
  The part of packages \<^verbatim>\<open>net\<close> and \<^verbatim>\<open>net/netip\<close> that the mesh relies on: the
  two representations of an IP address, \<^verbatim>\<open>To4\<close>, CIDR masks, \<^verbatim>\<open>IPNet.Contains\<close>,
  \<^verbatim>\<open>IPNet.String\<close>, \<^verbatim>\<open>ParseIP\<close> and \<^verbatim>\<open>ParseCIDR\<close>, together with the theory of
  prefixes that the planners use: what a network contains, when two networks
  overlap, and that parsing yields well-formed networks.

  A \<^verbatim>\<open>net.IP\<close> is a byte slice of length 4 or 16, here a word of 32 or 128
  bits. Every mask of the program is built by \<^verbatim>\<open>CIDRMask(ones, bits)\<close>, and a
  mask is modelled by these two numbers.
\<close>

section \<open>Addresses and masks\<close>

datatype ip = IP4 "32 word" | IP16 "128 word"

definition To4 :: "ip \<Rightarrow> 32 word option" where
  "To4 x = (case x of
      IP4 a \<Rightarrow> Some a
    | IP16 a \<Rightarrow> if drop_bit 32 a = 0xffff then Some (ucast a) else None)"

definition v4_in_v6 :: "32 word \<Rightarrow> 128 word" where
  "v4_in_v6 a = push_bit 32 0xffff OR ucast a"

definition To16 :: "ip \<Rightarrow> 128 word" where
  "To16 x = (case x of IP4 a \<Rightarrow> v4_in_v6 a | IP16 a \<Rightarrow> a)"

datatype ipmask = CIDRMask (mask_ones: nat) (mask_bits: nat)

record IPNet =
  net_IP :: ip
  net_Mask :: ipmask

definition cidr_mask :: "nat \<Rightarrow> 'a::len word" where
  "cidr_mask n = NOT (mask (LENGTH('a) - n))"

text \<open>\<^verbatim>\<open>networkNumberAndMask\<close>: a mask of 16 bytes applied to an address that
  has a 4-byte form keeps its last 4 bytes.\<close>

datatype netnum = NN4 "32 word" nat | NN16 "128 word" nat | NNnil

definition networkNumberAndMask :: "IPNet \<Rightarrow> netnum" where
  "networkNumberAndMask n =
     (case To4 (net_IP n) of
        Some a \<Rightarrow>
          (if mask_bits (net_Mask n) = 32 then NN4 a (mask_ones (net_Mask n))
           else if mask_bits (net_Mask n) = 128 then NN4 a (mask_ones (net_Mask n) - 96)
           else NNnil)
      | None \<Rightarrow>
          (case net_IP n of
             IP16 a \<Rightarrow> if mask_bits (net_Mask n) = 128 then NN16 a (mask_ones (net_Mask n)) else NNnil
           | IP4 _ \<Rightarrow> NNnil))"

definition Contains :: "IPNet \<Rightarrow> ip \<Rightarrow> bool" where
  "Contains n x =
     (case networkNumberAndMask n of
        NN4 a m \<Rightarrow> (case To4 x of Some b \<Rightarrow> (a AND cidr_mask m) = (b AND cidr_mask m) | None \<Rightarrow> False)
      | NN16 a m \<Rightarrow> (case To4 x of Some _ \<Rightarrow> False
                     | None \<Rightarrow> (case x of IP16 b \<Rightarrow> (a AND cidr_mask m) = (b AND cidr_mask m)
                                        | IP4 _ \<Rightarrow> False))
      | NNnil \<Rightarrow> False)"

section \<open>Printing\<close>

definition byte_at :: "nat \<Rightarrow> 32 word \<Rightarrow> nat" where
  "byte_at i a = unat (ucast (drop_bit (8 * i) a) :: 8 word)"

definition string_of_ip4 :: "32 word \<Rightarrow> string" where
  "string_of_ip4 a =
     join ''.'' [itoa (byte_at 3 a), itoa (byte_at 2 a), itoa (byte_at 1 a), itoa (byte_at 0 a)]"

definition groups_of :: "128 word \<Rightarrow> nat list" where
  "groups_of a = map (\<lambda>i. unat (ucast (drop_bit (16 * (7 - i)) a) :: 16 word)) [0..<8]"

fun hex_of_nat :: "nat \<Rightarrow> string" where
  "hex_of_nat n = (if n < 16 then [hex_char n] else hex_of_nat (n div 16) @ [hex_char (n mod 16)])"

declare hex_of_nat.simps [simp del]

fun zero_run :: "nat list \<Rightarrow> nat" where
  "zero_run [] = 0"
| "zero_run (g # gs) = (if g = 0 then Suc (zero_run gs) else 0)"

text \<open>The first longest run of at least two zero groups, as start and length
  (length 0 when there is none).\<close>

fun best_run :: "nat \<Rightarrow> nat list \<Rightarrow> nat \<times> nat \<Rightarrow> nat \<times> nat" where
  "best_run i [] best = best"
| "best_run i (g # gs) best =
     (let l = zero_run (g # gs) in
      best_run (Suc i) gs (if 2 \<le> l \<and> snd best < l then (i, l) else best))"

definition string_of_ip16 :: "128 word \<Rightarrow> string" where
  "string_of_ip16 a =
     (let gs = groups_of a; (s, l) = best_run 0 gs (0, 0) in
      if l = 0 then join '':'' (map hex_of_nat gs)
      else join '':'' (map hex_of_nat (take s gs)) @ ''::'' @
           join '':'' (map hex_of_nat (drop (s + l) gs)))"

definition string_of_ip :: "ip \<Rightarrow> string" where
  "string_of_ip x = (case To4 x of
      Some a \<Rightarrow> string_of_ip4 a
    | None \<Rightarrow> (case x of IP16 a \<Rightarrow> string_of_ip16 a | IP4 a \<Rightarrow> string_of_ip4 a))"

definition string_of_net :: "IPNet \<Rightarrow> string" where
  "string_of_net n = (case networkNumberAndMask n of
      NN4 a m \<Rightarrow> string_of_ip4 a @ ''/'' @ itoa m
    | NN16 a m \<Rightarrow> string_of_ip16 a @ ''/'' @ itoa m
    | NNnil \<Rightarrow> ''<nil>'')"

section \<open>Parsing\<close>

text \<open>\<^verbatim>\<open>parseIPv4Fields\<close>: the value and number of digits of the current octet,
  the octets so far, and the remaining bytes.\<close>

fun parseIPv4Fields :: "nat \<Rightarrow> nat \<Rightarrow> nat list \<Rightarrow> string \<Rightarrow> nat list option" where
  "parseIPv4Fields val dl fs [] =
     (if length fs < 3 then None else Some (fs @ [val]))"
| "parseIPv4Fields val dl fs (c # cs) =
     (if is_digit c then
        (if dl = 1 \<and> val = 0 then None
         else let v = 10 * val + digit_val c in
              if 255 < v then None else parseIPv4Fields v (Suc dl) fs cs)
      else if c = CHR ''.'' then
        (if dl = 0 \<or> cs = [] \<or> length fs = 3 then None
         else parseIPv4Fields 0 0 (fs @ [val]) cs)
      else None)"

fun word_of_octets :: "nat list \<Rightarrow> 32 word" where
  "word_of_octets fs = foldl (\<lambda>a b. push_bit 8 a OR of_nat b) 0 fs"

definition hex_val :: "char \<Rightarrow> nat option" where
  "hex_val c = (let b = byte_of c in
     if 48 \<le> b \<and> b \<le> 57 then Some (b - 48)
     else if 97 \<le> b \<and> b \<le> 102 then Some (b - 87)
     else if 65 \<le> b \<and> b \<le> 70 then Some (b - 55)
     else None)"

text \<open>The leading hexadecimal digits of a group: their value, and the rest;
  \<^verbatim>\<open>None\<close> when there are more than four.\<close>

fun hex_group :: "nat \<Rightarrow> nat \<Rightarrow> string \<Rightarrow> (nat \<times> nat \<times> string) option" where
  "hex_group acc off [] = Some (acc, off, [])"
| "hex_group acc off (c # cs) =
     (case hex_val c of
        None \<Rightarrow> Some (acc, off, c # cs)
      | Some v \<Rightarrow> if 3 < off then None else hex_group (16 * acc + v) (Suc off) cs)"

text \<open>The loop of \<^verbatim>\<open>parseIPv6\<close>: at most \<^verbatim>\<open>fuel\<close> further groups of 16 bits,
  \<^verbatim>\<open>gs\<close> the groups read so far and \<^verbatim>\<open>ell\<close> the position of the ellipsis. The
  initial fuel 8 is the bound \<^verbatim>\<open>i < 16\<close> of the loop, so running out of it is
  the regular loop exit.\<close>

fun parseIPv6_loop ::
  "nat \<Rightarrow> nat list \<Rightarrow> nat option \<Rightarrow> string \<Rightarrow> (nat list \<times> nat option \<times> string) option" where
  "parseIPv6_loop 0 gs ell s = Some (gs, ell, s)"
| "parseIPv6_loop (Suc fuel) gs ell s =
     (case hex_group 0 0 s of
        None \<Rightarrow> None
      | Some (acc, off, r) \<Rightarrow>
          if off = 0 then None
          else (case r of
            [] \<Rightarrow> Some (gs @ [acc], ell, [])
          | c # r' \<Rightarrow>
              if c = CHR ''.'' then
                (if ell = None \<and> length gs \<noteq> 6 then None
                 else if 6 < length gs then None
                 else (case parseIPv4Fields 0 0 [] s of
                    Some [p, q, u, v] \<Rightarrow> Some (gs @ [256 * p + q, 256 * u + v], ell, [])
                  | _ \<Rightarrow> None))
              else if c \<noteq> CHR '':'' then None
              else (case r' of
                [] \<Rightarrow> None
              | c' # r'' \<Rightarrow>
                  if c' = CHR '':'' then
                    (if ell \<noteq> None then None
                     else if r'' = [] then Some (gs @ [acc], Some (length gs + 1), [])
                     else parseIPv6_loop fuel (gs @ [acc]) (Some (length gs + 1)) r'')
                  else parseIPv6_loop fuel (gs @ [acc]) ell r')))"

definition word_of_groups :: "nat list \<Rightarrow> 128 word" where
  "word_of_groups gs = foldl (\<lambda>a g. push_bit 16 a OR of_nat g) 0 gs"

text \<open>\<^verbatim>\<open>parseIPv6\<close>, without and with a zone.\<close>

definition parseIPv6_body :: "string \<Rightarrow> 128 word option" where
  "parseIPv6_body s =
     (let (ell, r) = (if has_prefix s ''::'' then (Some 0, drop 2 s) else (None, s)) in
      if ell \<noteq> None \<and> r = [] then Some 0
      else (case parseIPv6_loop 8 [] ell r of
         None \<Rightarrow> None
       | Some (gs, ell', rest) \<Rightarrow>
           if rest \<noteq> [] then None
           else if length gs < 8 then
             (case ell' of None \<Rightarrow> None
              | Some e \<Rightarrow> Some (word_of_groups (take e gs @ replicate (8 - length gs) 0 @ drop e gs)))
           else if ell' \<noteq> None then None
           else Some (word_of_groups gs)))"

datatype netip_addr = Addr4 "32 word" | Addr6 "128 word" string

definition parseIPv6 :: "string \<Rightarrow> netip_addr option" where
  "parseIPv6 s = (case cut (CHR ''%'') s of
      None \<Rightarrow> map_option (\<lambda>a. Addr6 a []) (parseIPv6_body s)
    | Some (b, zone) \<Rightarrow>
        if zone = [] then None else map_option (\<lambda>a. Addr6 a zone) (parseIPv6_body b))"

definition parseIPv4 :: "string \<Rightarrow> netip_addr option" where
  "parseIPv4 s = map_option (\<lambda>fs. Addr4 (word_of_octets fs)) (parseIPv4Fields 0 0 [] s)"

text \<open>\<^verbatim>\<open>netip.ParseAddr\<close> dispatches on the first of the bytes \<^verbatim>\<open>. : %\<close>.\<close>

definition ParseAddr :: "string \<Rightarrow> netip_addr option" where
  "ParseAddr s = (case dropWhile (\<lambda>c. c \<notin> {CHR ''.'', CHR '':'', CHR ''%''}) s of
      [] \<Rightarrow> None
    | c # _ \<Rightarrow> if c = CHR ''.'' then parseIPv4 s
               else if c = CHR '':'' then parseIPv6 s else None)"

text \<open>\<^verbatim>\<open>net.ParseIP\<close> returns 16 bytes also for IPv4 text.\<close>

definition ParseIP :: "string \<Rightarrow> ip option" where
  "ParseIP s = (case ParseAddr s of
      Some (Addr4 a) \<Rightarrow> Some (IP16 (v4_in_v6 a))
    | Some (Addr6 a z) \<Rightarrow> if z = [] then Some (IP16 a) else None
    | None \<Rightarrow> None)"

definition cidr_error :: "string \<Rightarrow> go_error" where
  "cidr_error s = ''invalid CIDR address: '' @ s"

definition ParseCIDR :: "string \<Rightarrow> (ip \<times> IPNet) result" where
  "ParseCIDR s = (case cut (CHR ''/'') s of
      None \<Rightarrow> Inl (cidr_error s)
    | Some (addr, m) \<Rightarrow>
        (case (ParseAddr addr, dtoi m) of
           (Some (Addr4 a), Some n) \<Rightarrow>
             if n \<le> 32 then Inr (IP16 (v4_in_v6 a),
                 \<lparr>net_IP = IP4 (a AND cidr_mask n), net_Mask = CIDRMask n 32\<rparr>)
             else Inl (cidr_error s)
         | (Some (Addr6 a z), Some n) \<Rightarrow>
             if z = [] \<and> n \<le> 128 then Inr (IP16 a,
                 \<lparr>net_IP = IP16 (a AND cidr_mask n), net_Mask = CIDRMask n 128\<rparr>)
             else Inl (cidr_error s)
         | _ \<Rightarrow> Inl (cidr_error s)))"

text \<open>The network of a CIDR string, when it parses.\<close>

definition parse_net :: "string \<Rightarrow> IPNet option" where
  "parse_net s = (case ParseCIDR s of Inl _ \<Rightarrow> None | Inr (_, n) \<Rightarrow> Some n)"

section \<open>\<^verbatim>\<open>net.SplitHostPort\<close>\<close>

definition SplitHostPort :: "string \<Rightarrow> (string \<times> string) result" where
  "SplitHostPort hostport =
     (let addrErr = (\<lambda>why. Inl (''address '' @ hostport @ '': '' @ why));
          port = rev (takeWhile (\<lambda>c. c \<noteq> CHR '':'') (rev hostport));
          i = length hostport - length port - 1;
          finish = (\<lambda>host j k.
            if CHR ''['' \<in> set (drop j hostport) then addrErr ''unexpected '[' in address''
            else if CHR '']'' \<in> set (drop k hostport) then addrErr ''unexpected ']' in address''
            else Inr (host, port))
      in if CHR '':'' \<notin> set hostport then addrErr ''missing port in address''
         else if hd hostport = CHR ''['' then
           (if CHR '']'' \<notin> set hostport then addrErr ''missing ']' in address''
            else let e = length (takeWhile (\<lambda>c. c \<noteq> CHR '']'') hostport) in
              if e + 1 = length hostport then addrErr ''missing port in address''
              else if e + 1 = i then finish (drop 1 (take e hostport)) 1 (e + 1)
              else if hostport ! (e + 1) = CHR '':'' then addrErr ''too many colons in address''
              else addrErr ''missing port in address'')
         else let host = take i hostport in
           if CHR '':'' \<in> set host then addrErr ''too many colons in address''
           else finish host 0 0)"

section \<open>Prefixes\<close>

lemma and_cidr_mask_eq_iff [net_simps]:
  "(a AND cidr_mask m) = (b AND cidr_mask m) \<longleftrightarrow>
   drop_bit (LENGTH('a) - m) a = drop_bit (LENGTH('a) - m) (b :: 'a::len word)"
  by (simp add: cidr_mask_def and_not_mask_eq_iff)

lemma drop_bit_and_cidr_mask [net_simps]:
  fixes a :: "'a::len word"
  shows "m \<le> n \<Longrightarrow> drop_bit (LENGTH('a) - m) (a AND cidr_mask n) = drop_bit (LENGTH('a) - m) a"
  unfolding cidr_mask_def by (rule drop_bit_and_not_mask) simp

lemma prefix_nested:
  fixes a b x :: "'a::len word"
  assumes "drop_bit (LENGTH('a) - m) a = drop_bit (LENGTH('a) - m) x"
    and "drop_bit (LENGTH('a) - n) b = drop_bit (LENGTH('a) - n) x"
    and "m \<le> n"
  shows "drop_bit (LENGTH('a) - m) a = drop_bit (LENGTH('a) - m) b"
  using assms drop_bit_mono_eq [of "LENGTH('a) - n" b x "LENGTH('a) - m"] by simp

text \<open>A network whose address and mask have matching sizes: what \<^verbatim>\<open>ParseCIDR\<close> returns.\<close>

definition wf_net :: "IPNet \<Rightarrow> bool" where
  "wf_net n = (case net_IP n of
      IP4 a \<Rightarrow> mask_bits (net_Mask n) = 32 \<and> mask_ones (net_Mask n) \<le> 32
               \<and> a AND cidr_mask (mask_ones (net_Mask n)) = a
    | IP16 a \<Rightarrow> mask_bits (net_Mask n) = 128 \<and> mask_ones (net_Mask n) \<le> 128
               \<and> a AND cidr_mask (mask_ones (net_Mask n)) = a)"

lemma To4_IP4 [simp]: "To4 (IP4 a) = Some a"
  by (simp add: To4_def)

lemma wf_netE:
  assumes "wf_net n"
  obtains (nn4) a m where "networkNumberAndMask n = NN4 a m" "To4 (net_IP n) = Some a"
  | (nn16) a m where "networkNumberAndMask n = NN16 a m" "To4 (net_IP n) = None" "net_IP n = IP16 a"
proof (cases "To4 (net_IP n)")
  case None
  then obtain a where "net_IP n = IP16 a"
    by (cases "net_IP n") auto
  then show ?thesis
    using assms None that(2) by (simp add: wf_net_def networkNumberAndMask_def)
next
  case (Some a)
  then show ?thesis
    using assms that(1) by (auto simp: wf_net_def networkNumberAndMask_def split: ip.splits)
qed

lemma Contains_base: "wf_net n \<Longrightarrow> Contains n (net_IP n)"
  by (erule wf_netE) (simp_all add: Contains_def)

lemma Contains_NN4:
  "networkNumberAndMask n = NN4 a m \<Longrightarrow>
   Contains n x \<longleftrightarrow> (\<exists>b. To4 x = Some b \<and> drop_bit (32 - m) a = drop_bit (32 - m) b)"
  by (auto simp: Contains_def net_simps split: option.splits)

lemma Contains_NN16:
  "networkNumberAndMask n = NN16 a m \<Longrightarrow>
   Contains n x \<longleftrightarrow>
     (\<exists>b. To4 x = None \<and> x = IP16 b \<and> drop_bit (128 - m) a = drop_bit (128 - m) b)"
  by (auto simp: Contains_def net_simps split: option.splits ip.splits)

lemma common_address_imp_base:
  assumes "wf_net p" "wf_net q" "Contains p x" "Contains q x"
  shows "Contains p (net_IP q) \<or> Contains q (net_IP p)"
  using assms(1)
proof (cases rule: wf_netE)
  case p: (nn4 a m)
  with assms(3) obtain x4 where x: "To4 x = Some x4" "drop_bit (32 - m) a = drop_bit (32 - m) x4"
    by (auto simp: Contains_NN4)
  from assms(2) show ?thesis
  proof (cases rule: wf_netE)
    case q: (nn4 b n)
    with assms(4) x have "drop_bit (32 - n) b = drop_bit (32 - n) x4" by (simp add: Contains_NN4)
    then show ?thesis
      using p q x prefix_nested [of m a x4 n b] prefix_nested [of n b x4 m a]
      by (cases "m \<le> n") (simp_all add: Contains_NN4)
  next
    case (nn16 b n)
    then show ?thesis using assms(4) x by (simp add: Contains_NN16)
  qed
next
  case p: (nn16 a m)
  with assms(3) obtain y where x: "To4 x = None" "x = IP16 y" "drop_bit (128 - m) a = drop_bit (128 - m) y"
    by (auto simp: Contains_NN16)
  from assms(2) show ?thesis
  proof (cases rule: wf_netE)
    case q: (nn16 b n)
    with assms(4) x have "drop_bit (128 - n) b = drop_bit (128 - n) y" by (simp add: Contains_NN16)
    then show ?thesis
      using p q x prefix_nested [of m a y n b] prefix_nested [of n b y m a]
      by (cases "m \<le> n") (simp_all add: Contains_NN16)
  next
    case (nn4 b n)
    then show ?thesis using assms(4) x by (simp add: Contains_NN4)
  qed
qed

lemma overlap_iff_common_address:
  assumes "wf_net p" "wf_net q"
  shows "Contains p (net_IP q) \<or> Contains q (net_IP p) \<longleftrightarrow> (\<exists>x. Contains p x \<and> Contains q x)"
  using assms common_address_imp_base Contains_base by blast

lemma wf_parsed_net:
  fixes a :: "'a::len word"
  shows "(a AND cidr_mask n) AND cidr_mask n = a AND cidr_mask n"
  by (simp add: and.assoc)

lemma ParseCIDR_wf: "ParseCIDR s = Inr (x, n) \<Longrightarrow> wf_net n"
  by (auto simp: ParseCIDR_def wf_net_def wf_parsed_net
      split: option.splits netip_addr.splits if_splits prod.splits)

lemma parse_net_wf: "parse_net s = Some n \<Longrightarrow> wf_net n"
  by (auto simp: parse_net_def ParseCIDR_wf split: sum.splits)

lemma parse_net_ParseCIDR: "parse_net s = Some n \<longleftrightarrow> (\<exists>x. ParseCIDR s = Inr (x, n))"
  by (auto simp: parse_net_def split: sum.splits)

section \<open>IPv4 text round trip\<close>

lemma byte_at_less: "byte_at i a < 256"
  using unsigned_less [of "ucast (drop_bit (8 * i) a) :: 8 word", where 'a = nat]
  by (simp add: byte_at_def)

lemma not_is_digit_dot [simp]: "\<not> is_digit (CHR ''.'')"
  by (simp add: is_digit_def)

lemma itoa_octet:
  assumes "v < 256"
  shows "itoa v = (if v < 10 then [digit_char v]
     else if v < 100 then [digit_char (v div 10), digit_char (v mod 10)]
     else [digit_char (v div 100), digit_char (v div 10 mod 10), digit_char (v mod 10)])"
proof -
  have "v div 100 = v div 10 div 10" by (simp add: div_mult2_eq [symmetric])
  then show ?thesis
    using assms by (auto simp: itoa.simps [of v] itoa.simps [of "v div 10"] itoa.simps [of "v div 10 div 10"])
qed

lemma parse_octet:
  assumes "v < 256"
  shows "parseIPv4Fields 0 0 fs (itoa v @ s) = parseIPv4Fields v (length (itoa v)) fs s"
proof -
  have digits: "q2 * 10 + r1 = q1 \<Longrightarrow> q1 * 10 + r0 = v \<Longrightarrow> 10 * (10 * q2 + r1) + r0 = v"
    for q1 q2 r0 r1 :: nat by simp
  have "v div 100 = v div 10 div 10" by (simp add: div_mult2_eq [symmetric])
  then have "10 * (10 * (v div 100) + v div 10 mod 10) + v mod 10 = v"
    using digits [OF div_mult_mod_eq div_mult_mod_eq] by metis
  moreover from this have "10 * (v div 100) + v div 10 mod 10 \<le> v" by arith
  ultimately show ?thesis
    using assms by (auto simp: itoa_octet Let_def div_eq_0_iff)
qed

lemma parse_dotted:
  assumes "a < 256" "b < 256" "c < 256" "d < 256"
  shows "parseIPv4Fields 0 0 [] (join ''.'' [itoa a, itoa b, itoa c, itoa d]) = Some [a, b, c, d]"
proof -
  have "parseIPv4Fields 0 0 [a, b, c] (itoa d) = Some [a, b, c, d]"
    using parse_octet [of d "[a, b, c]" "[]"] assms by simp
  then show ?thesis
    using assms by (simp add: parse_octet)
qed

lemma word_of_octets_byte_at:
  "word_of_octets [byte_at 3 a, byte_at 2 a, byte_at 1 a, byte_at 0 a] = a"
proof -
  have oct: "of_nat (byte_at i a) = (drop_bit (8 * i) a AND mask 8)" for i
    by (simp add: byte_at_def) (rule bit_word_eqI, auto simp: bit_simps)
  show ?thesis
  proof (rule bit_word_eqI)
    fix n assume "n < LENGTH(32)"
    then consider "n < 8" | "8 \<le> n" "n < 16" | "16 \<le> n" "n < 24" | "24 \<le> n" "n < 32" by fastforce
    then show "bit (word_of_octets [byte_at 3 a, byte_at 2 a, byte_at 1 a, byte_at 0 a]) n = bit a n"
      by cases (auto simp: oct bit_simps)
  qed
qed

declare word_of_octets.simps [simp del]

lemma dotted_first_sep:
  "dropWhile (\<lambda>c. c \<notin> {CHR ''.'', CHR '':'', CHR ''%''}) (itoa n @ CHR ''.'' # s) = CHR ''.'' # s"
proof -
  have "\<And>c. c \<in> set (itoa n) \<Longrightarrow> c \<notin> {CHR ''.'', CHR '':'', CHR ''%''}"
    using itoa_digits [of n] by (auto simp: list_all_iff is_digit_def)
  then show ?thesis by (simp add: dropWhile_append2)
qed

lemma ParseAddr_ip4: "ParseAddr (string_of_ip4 a) = Some (Addr4 a)"
proof -
  have "ParseAddr (string_of_ip4 a) = parseIPv4 (string_of_ip4 a)"
    unfolding ParseAddr_def string_of_ip4_def using dotted_first_sep by simp
  then show ?thesis
    by (simp only: parseIPv4_def string_of_ip4_def parse_dotted byte_at_less
        word_of_octets_byte_at option.map)
qed

lemma To4_v4_in_v6 [simp]: "To4 (IP16 (v4_in_v6 a)) = Some a"
proof -
  have "drop_bit 32 (v4_in_v6 a) = 0xffff"
    by (rule bit_word_eqI) (auto simp: v4_in_v6_def bit_simps dest: bit_imp_le_length)
  moreover have "(ucast (push_bit 32 k OR ucast a :: 128 word) :: 32 word) = a" for k
    by (rule bit_word_eqI) (auto simp: bit_simps)
  then have "(ucast (v4_in_v6 a) :: 32 word) = a" unfolding v4_in_v6_def .
  ultimately show ?thesis by (simp add: To4_def)
qed

lemma ParseIP_ip4: "ParseIP (string_of_ip4 a) = Some (IP16 (v4_in_v6 a))"
  by (simp add: ParseIP_def ParseAddr_ip4)

lemma slash_notin_ip4: "CHR ''/'' \<notin> set (string_of_ip4 a)"
proof -
  have "CHR ''/'' \<notin> set (itoa n)" for n
    using itoa_digits [of n] by (auto simp: list_all_iff is_digit_def)
  then show ?thesis by (simp add: string_of_ip4_def)
qed

lemma ParseCIDR_ip4:
  assumes "m \<le> 32"
  shows "ParseCIDR (string_of_ip4 a @ ''/'' @ itoa m) =
    Inr (IP16 (v4_in_v6 a), \<lparr>net_IP = IP4 (a AND cidr_mask m), net_Mask = CIDRMask m 32\<rparr>)"
  using assms cut_append [OF slash_notin_ip4, of a "itoa m"] dtoi_itoa [of m]
  by (simp add: ParseCIDR_def ParseAddr_ip4)

lemma string_of_ip4_inj: "string_of_ip4 a = string_of_ip4 b \<longleftrightarrow> a = b"
  by (metis ParseAddr_ip4 netip_addr.inject(1) option.inject)

section \<open>Evaluation\<close>

lemmas parseIPv6_loop_numeral [go_eval] =
  parseIPv6_loop.simps(2) [of "pred_numeral k", folded numeral_eq_Suc] for k

lemma hex_of_nat_eval [go_eval]:
  "hex_of_nat 0 = ''0''" "hex_of_nat (Suc 0) = ''1''"
  "hex_of_nat (numeral k) = (if numeral k < (16 :: nat) then [hex_char (numeral k)]
     else hex_of_nat (numeral k div 16) @ [hex_char (numeral k mod 16)])"
  by (simp_all add: hex_of_nat.simps [of 0] hex_of_nat.simps [of "Suc 0"]
      hex_of_nat.simps [of "numeral k"] hex_char_def char_of_def)

lemma cidr_mask_eval [go_eval]:
  "(cidr_mask n :: 'a::len word) = - (2 ^ (LENGTH('a) - n))"
  by (simp add: cidr_mask_def mask_eq_exp_minus_1 minus_eq_not_minus_1 [symmetric])

lemmas net_eval [go_eval] =
  To4_def v4_in_v6_def To16_def networkNumberAndMask_def Contains_def byte_at_def string_of_ip4_def
  groups_of_def string_of_ip16_def string_of_ip_def string_of_net_def word_of_octets.simps
  hex_val_def word_of_groups_def parseIPv6_body_def parseIPv6_def parseIPv4_def ParseAddr_def
  ParseIP_def cidr_error_def ParseCIDR_def parse_net_def

section \<open>Reading back printed IPv6 addresses\<close>

lemma hex_val_hex_char: "v < 16 \<Longrightarrow> hex_val (hex_char v) = Some v"
  by (auto simp: hex_val_def hex_char_def Let_def)

lemma hex_of_nat_16:
  assumes "g < 65536"
  shows "hex_of_nat g = (if g < 16 then [hex_char g]
     else if g < 256 then [hex_char (g div 16), hex_char (g mod 16)]
     else if g < 4096 then [hex_char (g div 256), hex_char (g div 16 mod 16), hex_char (g mod 16)]
     else [hex_char (g div 4096), hex_char (g div 256 mod 16), hex_char (g div 16 mod 16), hex_char (g mod 16)])"
proof -
  have "g div 256 = g div 16 div 16" "g div 4096 = g div 16 div 16 div 16"
    by (simp_all add: div_mult2_eq [symmetric])
  then show ?thesis
    using assms by (auto simp: hex_of_nat.simps [of g] hex_of_nat.simps [of "g div 16"]
        hex_of_nat.simps [of "g div 16 div 16"] hex_of_nat.simps [of "g div 16 div 16 div 16"])
qed

lemma hex_group_printed:
  assumes "g < 65536" "r = [] \<or> hex_val (hd r) = None"
  shows "hex_group 0 0 (hex_of_nat g @ r) = Some (g, length (hex_of_nat g), r)"
proof -
  have "hex_group a n r = Some (a, n, r)" for a n using assms(2) by (cases r) auto
  moreover have "g div 256 = g div 16 div 16" "g div 4096 = g div 256 div 16"
    by (simp_all add: div_mult2_eq [symmetric])
  then have "16 * (g div 4096) + g div 256 mod 16 = g div 256" "16 * (g div 256) + g div 16 mod 16 = g div 16"
    "16 * (g div 16) + g mod 16 = g"
    by (simp_all only: mult_div_mod_eq)
  moreover have "g div 4096 < 16" using assms(1) by (simp add: div_less_iff_less_mult)
  ultimately show ?thesis
    using assms(1) by (auto simp: hex_of_nat_16 hex_val_hex_char div_less_iff_less_mult)
qed

lemma hex_of_nat_hd: "g < 65536 \<Longrightarrow> \<exists>c s v. hex_of_nat g = c # s \<and> hex_val c = Some v"
  by (auto simp: hex_of_nat_16 hex_val_hex_char)

lemma loop_last:
  assumes "g < 65536"
  shows "parseIPv6_loop (Suc fuel) gs ell (hex_of_nat g) = Some (gs @ [g], ell, [])"
  using hex_group_printed [OF assms, of "[]"] hex_of_nat_hd [OF assms] by auto

lemma hex_val_colon [simp]: "hex_val (CHR '':'') = None"
  by (simp add: hex_val_def)

lemma loop_next:
  assumes "g < 65536" "c \<noteq> CHR '':''"
  shows "parseIPv6_loop (Suc fuel) gs ell (hex_of_nat g @ CHR '':'' # c # s) = parseIPv6_loop fuel (gs @ [g]) ell (c # s)"
  using hex_group_printed [OF assms(1), of "CHR '':'' # c # s"] hex_of_nat_hd [OF assms(1)] assms(2) by auto

lemma loop_ellipsis:
  assumes "g < 65536"
  shows "parseIPv6_loop (Suc fuel) gs None (hex_of_nat g @ CHR '':'' # CHR '':'' # s) =
    (if s = [] then Some (gs @ [g], Some (length gs + 1), []) else parseIPv6_loop fuel (gs @ [g]) (Some (length gs + 1)) s)"
  using hex_group_printed [OF assms(1), of "CHR '':'' # CHR '':'' # s"] hex_of_nat_hd [OF assms(1)] by auto

abbreviation printed :: "nat list \<Rightarrow> string" where
  "printed gs \<equiv> join '':'' (map hex_of_nat gs)"

lemma printed_hd:
  assumes "gs \<noteq> []" "\<forall>g\<in>set gs. g < 65536"
  shows "\<exists>c s. printed gs = c # s \<and> c \<noteq> CHR '':''"
proof -
  obtain g gs' where g: "gs = g # gs'" using assms(1) by (cases gs) auto
  then obtain c s v where "hex_of_nat g = c # s" "hex_val c = Some v" using hex_of_nat_hd assms(2) by fastforce
  then show ?thesis using g by (cases gs') auto
qed

lemma loop_printed:
  assumes "gs' \<noteq> []" "length gs' \<le> fuel" "\<forall>g\<in>set gs'. g < 65536"
  shows "parseIPv6_loop fuel gs ell (printed gs') = Some (gs @ gs', ell, [])"
  using assms
proof (induction gs' arbitrary: fuel gs)
  case (Cons g gs')
  then obtain f where f: "fuel = Suc f" by (cases fuel) auto
  show ?case
  proof (cases "gs' = []")
    case True
    then show ?thesis using Cons.prems f loop_last [of g] by simp
  next
    case False
    then obtain c s where c: "printed gs' = c # s" "c \<noteq> CHR '':''" using printed_hd [of gs'] Cons.prems by auto
    have "printed (g # gs') = hex_of_nat g @ CHR '':'' # c # s" using False c(1) by (cases gs') auto
    then show ?thesis using Cons.IH [OF False, of f "gs @ [g]"] Cons.prems f c loop_next [of g c] by simp
  qed
qed simp

lemma loop_printed_ellipsis:
  assumes "left \<noteq> []" "length left + length right \<le> fuel" "\<forall>g\<in>set (left @ right). g < 65536"
  shows "parseIPv6_loop fuel gs None (printed left @ ''::'' @ printed right) =
    Some (gs @ left @ right, Some (length gs + length left), [])"
  using assms
proof (induction left arbitrary: fuel gs)
  case (Cons g left)
  then obtain f where f: "fuel = Suc f" by (cases fuel) auto
  show ?case
  proof (cases "left = []")
    case True
    have "right = [] \<Longrightarrow> printed right = []" by simp
    moreover have "right \<noteq> [] \<Longrightarrow> printed right \<noteq> []" using printed_hd [of right] Cons.prems by auto
    ultimately show ?thesis
      using Cons.prems f True loop_ellipsis [of g f gs] loop_printed [of right f "gs @ [g]"] by (cases "right = []") auto
  next
    case False
    then obtain c s where c: "printed left = c # s" "c \<noteq> CHR '':''" using printed_hd [of left] Cons.prems by auto
    have "printed (g # left) = hex_of_nat g @ CHR '':'' # c # s" using False c(1) by (cases left) auto
    then show ?thesis using Cons.IH [OF False, of f "gs @ [g]"] Cons.prems f c loop_next [of g c] by simp
  qed
qed simp

lemma zero_run_replicate: "\<exists>t. gs = replicate (zero_run gs) 0 @ t"
  by (induction gs) auto

lemma best_run_zeros:
  assumes "best_run i gs (s0, l0) = (s, l)"
  shows "(s, l) = (s0, l0) \<or> (\<exists>pre t. gs = pre @ replicate l 0 @ t \<and> s = i + length pre \<and> 2 \<le> l)"
  using assms
proof (induction gs arbitrary: i s0 l0)
  case (Cons g gs)
  let ?l = "zero_run (g # gs)"
  obtain s1 l1 where b: "(if 2 \<le> ?l \<and> l0 < ?l then (i, ?l) else (s0, l0)) = (s1, l1)" by fastforce
  have "best_run (Suc i) gs (s1, l1) = (s, l)" using Cons.prems b by (simp add: Let_def split: if_splits)
  from Cons.IH [OF this] show ?case
  proof
    assume eq: "(s, l) = (s1, l1)"
    show ?thesis
    proof (cases "2 \<le> ?l \<and> l0 < ?l")
      case True
      have l: "l = ?l" "s = i" "2 \<le> l" using True eq b by (simp_all del: zero_run.simps)
      obtain t where "g # gs = replicate ?l 0 @ t" using zero_run_replicate by blast
      then have "g # gs = [] @ replicate l 0 @ t \<and> s = i + length ([] :: nat list) \<and> 2 \<le> l"
        unfolding l(1) [symmetric] using l(2,3) by simp
      then show ?thesis by blast
    next
      case False
      then show ?thesis using eq b by auto
    qed
  next
    assume "\<exists>pre t. gs = pre @ replicate l 0 @ t \<and> s = Suc i + length pre \<and> 2 \<le> l"
    then obtain pre t where "gs = pre @ replicate l 0 @ t" "s = Suc i + length pre" "2 \<le> l" by blast
    then have "g # gs = (g # pre) @ replicate l 0 @ t \<and> s = i + length (g # pre) \<and> 2 \<le> l" by simp
    then show ?thesis by blast
  qed
qed simp

lemma groups_of_bound: "\<forall>g\<in>set (groups_of a). g < 65536" "length (groups_of a) = 8"
proof -
  have "unat w < 65536" for w :: "16 word" using unsigned_less [of w, where 'a = nat] by simp
  then show "\<forall>g\<in>set (groups_of a). g < 65536" by (simp add: groups_of_def)
qed (simp add: groups_of_def)

lemma word_of_groups_groups_of: "word_of_groups (groups_of a) = a"
proof -
  have grp: "of_nat (unat (ucast (drop_bit k a) :: 16 word)) = (drop_bit k a AND mask 16)" for k
    by simp (rule bit_word_eqI, auto simp: bit_simps)
  have eq: "word_of_groups (groups_of a) =
      foldl (\<lambda>w i. push_bit 16 w OR (drop_bit (16 * (7 - i)) a AND mask 16)) 0 [0..<8]"
    by (simp only: word_of_groups_def groups_of_def foldl_map grp)
  have "foldl (\<lambda>w i. push_bit 16 w OR (drop_bit (16 * (7 - i)) a AND mask 16)) 0 [0..<Suc i] = drop_bit (16 * (7 - i)) a"
    if "i < 8" for i
    using that
  proof (induction i)
    case 0
    have "drop_bit 112 a AND mask 16 = drop_bit 112 a"
      by (rule bit_word_eqI) (auto simp: bit_simps dest: bit_imp_le_length)
    then show ?case by simp
  next
    case (Suc i)
    define k where "k = 16 * (7 - Suc i)"
    have k: "16 * (7 - i) = 16 + k" "16 * (7 - Suc i) = k" "16 * (6 - i) = k" using Suc.prems by (simp_all add: k_def)
    have "push_bit 16 (drop_bit (16 + k) a) OR (drop_bit k a AND mask 16) = drop_bit k a"
      by (rule bit_word_eqI) (auto simp: bit_simps)
    then show ?case using Suc unfolding k(2) by (simp add: k(1,3))
  qed
  from this [of 7] show ?thesis unfolding eq by simp
qed

lemma parseIPv6_body_printed: "parseIPv6_body (string_of_ip16 a) = Some a"
proof -
  let ?gs = "groups_of a"
  obtain s l where best: "best_run 0 ?gs (0, 0) = (s, l)" by fastforce
  note b = groups_of_bound [of a]
  have no_prefix: "\<not> has_prefix (printed left @ t) ''::''" if "left \<noteq> []" "\<forall>g\<in>set left. g < 65536" for left t
    using printed_hd [OF that] by (auto simp: has_prefix_def)
  show ?thesis
  proof (cases "l = 0")
    case True
    then have "string_of_ip16 a = printed ?gs" using best by (simp add: string_of_ip16_def)
    moreover have "?gs \<noteq> []" using b(2) by auto
    ultimately show ?thesis
      using loop_printed [of ?gs 8 "[]" None] no_prefix [of ?gs "[]"] b word_of_groups_groups_of
      by (simp add: parseIPv6_body_def)
  next
    case False
    then obtain pre t where gs: "?gs = pre @ replicate l 0 @ t" "s = length pre" "2 \<le> l"
      using best_run_zeros [OF best] by auto
    then have str: "string_of_ip16 a = printed pre @ ''::'' @ printed t" "length pre + l + length t = 8"
      using best False b(2) by (simp_all add: string_of_ip16_def)
    then have z: "8 - (length pre + length t) = l" "8 - length (pre @ t) = l" "length (pre @ t) < 8" using gs(3) by simp_all
    have bt: "\<forall>g\<in>set (pre @ t). g < 65536" using b(1) gs(1) by auto
    have w: "word_of_groups (pre @ replicate l 0 @ t) = a" using word_of_groups_groups_of [of a] gs(1) by simp
    show ?thesis
    proof (cases "pre = []")
      case True
      then have "has_prefix (string_of_ip16 a) ''::''" "drop 2 (string_of_ip16 a) = printed t"
        using str by (simp_all add: has_prefix_def)
      moreover have "word_of_groups (replicate 8 0) = 0" by (simp add: word_of_groups_def numeral_eq_Suc)
      moreover have "t \<noteq> [] \<Longrightarrow> printed t \<noteq> []" using printed_hd [of t] bt by auto
      ultimately show ?thesis
        using True w gs(3) str(2) z loop_printed [of t 8 "[]" "Some 0"] bt
        by (cases "t = []") (auto simp: parseIPv6_body_def)
    next
      case False
      then show ?thesis
        using loop_printed_ellipsis [of pre t 8 "[]"] no_prefix [of pre "''::'' @ printed t"] str bt w gs(3) z
        by (auto simp: parseIPv6_body_def)
    qed
  qed
qed

lemma hex_of_nat_chars: "g < 65536 \<Longrightarrow> c \<in> set (hex_of_nat g) \<Longrightarrow> hex_val c \<noteq> None"
  by (auto simp: hex_of_nat_16 hex_val_hex_char split: if_splits)

lemma printed_chars: "\<forall>g\<in>set gs. g < 65536 \<Longrightarrow> c \<in> set (printed gs) \<Longrightarrow> hex_val c \<noteq> None \<or> c = CHR '':''"
proof (induction gs)
  case (Cons g gs)
  then show ?case using hex_of_nat_chars [of g c] by (cases gs) auto
qed simp

lemma ip16_chars:
  assumes "c \<in> set (string_of_ip16 a)"
  shows "hex_val c \<noteq> None \<or> c = CHR '':''"
proof -
  obtain s l where best: "best_run 0 (groups_of a) (0, 0) = (s, l)" by fastforce
  have sub: "\<forall>g\<in>set (take k (groups_of a)). g < 65536" "\<forall>g\<in>set (drop k (groups_of a)). g < 65536" for k
    using groups_of_bound(1) [of a] by (auto dest: in_set_takeD in_set_dropD)
  show ?thesis
    using assms best printed_chars [OF groups_of_bound(1), of c a] printed_chars [OF sub(1), of c] printed_chars [OF sub(2), of c]
    by (auto simp: string_of_ip16_def Let_def split: if_splits)
qed

lemma ip16_colon: "CHR '':'' \<in> set (string_of_ip16 a)"
proof -
  obtain s l where best: "best_run 0 (groups_of a) (0, 0) = (s, l)" by fastforce
  obtain g0 g1 gs where "groups_of a = g0 # g1 # gs"
    using groups_of_bound(2) [of a] by (cases "groups_of a"; cases "tl (groups_of a)") auto
  then have "CHR '':'' \<in> set (printed (groups_of a))" by simp
  then show ?thesis using best by (simp add: string_of_ip16_def Let_def)
qed

text \<open>Printing an IPv6 address and parsing it gives it back.\<close>

lemma ParseAddr_ip16: "ParseAddr (string_of_ip16 a) = Some (Addr6 a [])"
proof -
  let ?s = "string_of_ip16 a"
  have only: "c \<in> set ?s \<Longrightarrow> c \<notin> {CHR ''.'', CHR ''%''}" for c using ip16_chars [of c a] by (auto simp: hex_val_def)
  have "dropWhile (\<lambda>c. c \<notin> {CHR ''.'', CHR '':'', CHR ''%''}) ?s \<noteq> []" using ip16_colon [of a] by (auto simp: dropWhile_eq_Nil_conv)
  then obtain c r where d: "dropWhile (\<lambda>c. c \<notin> {CHR ''.'', CHR '':'', CHR ''%''}) ?s = c # r" by (metis list.exhaust)
  have "c \<in> {CHR ''.'', CHR '':'', CHR ''%''}"
    using hd_dropWhile [of "\<lambda>c. c \<notin> {CHR ''.'', CHR '':'', CHR ''%''}" ?s] unfolding d by simp
  moreover have "c \<in> set ?s" using set_dropWhileD [of c _ ?s] d by (metis list.set_intros(1))
  ultimately have c: "c = CHR '':''" using only by auto
  have "dropWhile (\<lambda>x. x \<noteq> CHR ''%'') ?s = []" using only by (auto simp: dropWhile_eq_Nil_conv)
  then have "cut (CHR ''%'') ?s = None" unfolding cut_def by (simp only: list.case)
  then show ?thesis using d c parseIPv6_body_printed [of a] by (simp add: ParseAddr_def parseIPv6_def)
qed

lemma slash_notin_ip16: "CHR ''/'' \<notin> set (string_of_ip16 a)"
  using ip16_chars [of "CHR ''/''" a] by (auto simp: hex_val_def)

lemma ParseCIDR_ip16:
  assumes "m \<le> 128"
  shows "ParseCIDR (string_of_ip16 a @ ''/'' @ itoa m) =
    Inr (IP16 a, \<lparr>net_IP = IP16 (a AND cidr_mask m), net_Mask = CIDRMask m 128\<rparr>)"
  using assms cut_append [OF slash_notin_ip16, of a "itoa m"] dtoi_itoa [of m]
  by (simp add: ParseCIDR_def ParseAddr_ip16)

lemma string_of_ip16_inj: "string_of_ip16 a = string_of_ip16 b \<longleftrightarrow> a = b"
  by (metis ParseAddr_ip16 netip_addr.inject(2) option.inject)

lemma To16_IP4_inj: "v4_in_v6 a = v4_in_v6 b \<longleftrightarrow> a = b"
  using To4_v4_in_v6 [of a] To4_v4_in_v6 [of b] by (metis option.inject)

lemma To16_To4: "To4 x = Some a \<Longrightarrow> To16 x = v4_in_v6 a"
proof (cases x)
  case (IP16 b)
  assume "To4 x = Some a"
  with IP16 have a: "drop_bit 32 b = 0xffff" "a = ucast b" by (auto simp: To4_def split: if_splits)
  have "b = push_bit 32 (drop_bit 32 b) OR ucast (ucast b :: 32 word)"
    by (rule bit_word_eqI) (auto simp: bit_simps)
  then show ?thesis using a IP16 by (simp add: To16_def v4_in_v6_def)
qed (simp add: To16_def)


lemma ParseIP_string: "ParseIP (string_of_ip x) = Some (IP16 (To16 x))"
proof (cases "To4 x")
  case None
  then obtain a where "x = IP16 a" by (cases x) auto
  then show ?thesis using None by (simp add: string_of_ip_def ParseIP_def ParseAddr_ip16 To16_def)
qed (simp add: string_of_ip_def ParseIP_ip4 To16_To4)

lemma string_of_ip_eq: "string_of_ip x = string_of_ip y \<longleftrightarrow> To16 x = To16 y"
proof
  assume "To16 x = To16 y"
  moreover have "string_of_ip x = string_of_ip (IP16 (To16 x))" for x
    by (cases x) (auto simp: string_of_ip_def To16_def split: option.splits)
  ultimately show "string_of_ip x = string_of_ip y" by metis
qed (metis ParseIP_string ip.inject(2) option.inject)

lemma mapped_ones:
  assumes "wf_net n" "net_IP n = IP16 a" "To4 (net_IP n) \<noteq> None"
  shows "96 \<le> mask_ones (net_Mask n)"
proof (rule ccontr)
  assume lt: "\<not> 96 \<le> mask_ones (net_Mask n)"
  have "drop_bit 32 a = 0xffff" using assms(2,3) by (auto simp: To4_def split: if_splits)
  then have "bit (drop_bit 32 a) 0" by simp
  then have "bit a 32" by (simp add: bit_drop_bit_eq)
  moreover have "a AND cidr_mask (mask_ones (net_Mask n)) = a" using assms(1,2) by (simp add: wf_net_def)
  ultimately have "bit (cidr_mask (mask_ones (net_Mask n)) :: 128 word) 32" by (metis bit_and_iff)
  then show False using lt by (simp add: cidr_mask_def bit_simps)
qed

lemma masked_low:
  fixes a :: "128 word"
  assumes "a AND cidr_mask m = a" "96 \<le> m" "m \<le> 128"
  shows "(ucast a :: 32 word) AND cidr_mask (m - 96) = ucast a"
proof (rule bit_word_eqI)
  fix n assume "n < LENGTH(32)"
  moreover have "bit a n \<Longrightarrow> 128 - m \<le> n"
    using arg_cong [OF assms(1), of "\<lambda>w. bit w n"] by (auto simp: cidr_mask_def bit_simps)
  ultimately show "bit ((ucast a :: 32 word) AND cidr_mask (m - 96)) n = bit (ucast a :: 32 word) n"
    using assms(2,3) by (auto simp: cidr_mask_def bit_simps)
qed

text \<open>A printed network parses to a network with the same number and mask, and to itself
  unless it is the IPv4-mapped form of an IPv4 network.\<close>

lemma parse_string_of_net:
  assumes "wf_net n"
  shows "\<exists>n'. parse_net (string_of_net n) = Some n' \<and> networkNumberAndMask n' = networkNumberAndMask n
    \<and> (To4 (net_IP n) = None \<or> (\<exists>a. net_IP n = IP4 a) \<longrightarrow> n' = n)"
proof (cases "net_IP n")
  case (IP4 b)
  then have "parse_net (string_of_net n) = Some n"
    using assms ParseCIDR_ip4 [of "mask_ones (net_Mask n)" b]
    by (cases "net_Mask n") (simp add: wf_net_def string_of_net_def networkNumberAndMask_def parse_net_def)
  then show ?thesis by blast
next
  case (IP16 b)
  note wf = assms [unfolded wf_net_def IP16, simplified]
  show ?thesis
  proof (cases "To4 (net_IP n)")
    case None
    then have "parse_net (string_of_net n) = Some n"
      using wf IP16 ParseCIDR_ip16 [of "mask_ones (net_Mask n)" b]
      by (cases "net_Mask n") (simp add: string_of_net_def networkNumberAndMask_def parse_net_def)
    then show ?thesis by blast
  next
    case (Some c)
    let ?m = "mask_ones (net_Mask n) - 96"
    have m: "96 \<le> mask_ones (net_Mask n)" using mapped_ones [OF assms IP16] Some by simp
    have "?m \<le> 32" using wf by arith
    then have "parse_net (string_of_net n) = Some \<lparr>net_IP = IP4 (c AND cidr_mask ?m), net_Mask = CIDRMask ?m 32\<rparr>"
      using wf IP16 Some m ParseCIDR_ip4 [of ?m c]
      by (simp add: string_of_net_def networkNumberAndMask_def parse_net_def)
    moreover have "c AND cidr_mask ?m = c"
      using masked_low [of b] wf m Some IP16 by (auto simp: To4_def split: if_splits)
    ultimately show ?thesis using wf IP16 Some by (auto simp: networkNumberAndMask_def)
  qed
qed

end
