(* ===== verification/Topology_Plan.thy ===== *)
theory Topology_Plan
  imports Go_Net
begin

text \<open>
  \<^verbatim>\<open>pkg/topology/plan.go\<close>: which of the ranges a peer advertises may be routed,
  and the object name derived from a cluster identifier; with the specification
  type of a peer from \<^verbatim>\<open>pkg/apis/networking/v1alpha1\<close>.
\<close>

section \<open>The peer specification\<close>

datatype MeshPeerPhase = PhaseUnset | Pending | Connected | Error

record MeshPeerSpec =
  sp_ClusterID :: string
  sp_PublicKey :: string
  sp_Endpoint :: string
  sp_PodCIDRs :: "string list"
  sp_ServiceCIDRs :: "string list"

definition AllCIDRs :: "MeshPeerSpec \<Rightarrow> string list" where
  "AllCIDRs s = sp_PodCIDRs s @ sp_ServiceCIDRs s"

section \<open>Plans\<close>

record Plan =
  pl_PublicKey :: string
  pl_Endpoint :: string
  pl_DesiredCIDRs :: "string list"
  pl_RoutableCIDRs :: "string list"
  pl_ConflictingCIDRs :: "string list"
  pl_Phase :: MeshPeerPhase
  pl_Message :: string

definition Programmable :: "Plan \<Rightarrow> bool" where
  "Programmable p \<longleftrightarrow> pl_PublicKey p \<noteq> ''''"

definition HasConflicts :: "Plan \<Rightarrow> bool" where
  "HasConflicts p \<longleftrightarrow> length (pl_ConflictingCIDRs p) > 0"

fun ParseCIDRList :: "string list \<Rightarrow> IPNet list" where
  "ParseCIDRList [] = []"
| "ParseCIDRList (c # cs) =
     (case ParseCIDR c of Inr (_, n) \<Rightarrow> n # ParseCIDRList cs | Inl _ \<Rightarrow> ParseCIDRList cs)"

fun OverlapsAny :: "IPNet \<Rightarrow> IPNet list \<Rightarrow> bool" where
  "OverlapsAny candidate [] = False"
| "OverlapsAny candidate (n # ns) =
     (if Contains n (net_IP candidate) \<or> Contains candidate (net_IP n) then True
      else OverlapsAny candidate ns)"

fun mustParseCIDRs :: "string list \<Rightarrow> IPNet list go" where
  "mustParseCIDRs [] = Ret []"
| "mustParseCIDRs (c # cs) =
     (case ParseCIDR c of
        Inl err \<Rightarrow> Panic (''topology: bad built-in CIDR '' @ quote c @ '': '' @ err)
      | Inr (_, n) \<Rightarrow> bind_go (mustParseCIDRs cs) (\<lambda>ns. Ret (n # ns)))"

text \<open>The package variable \<^verbatim>\<open>dangerousNets\<close>; that its initialisation does not
  panic is proved below.\<close>

definition dangerous_literals :: "string list" where
  "dangerous_literals =
     [''127.0.0.0/8'', ''::1/128'', ''169.254.0.0/16'', ''fe80::/10'', ''224.0.0.0/4'', ''ff00::/8'']"

definition dangerousNets :: "IPNet list" where
  "dangerousNets = (case mustParseCIDRs dangerous_literals of Ret ns \<Rightarrow> ns | _ \<Rightarrow> [])"

definition IsDangerousCIDR :: "IPNet option \<Rightarrow> bool" where
  "IsDangerousCIDR n = (case n of
      None \<Rightarrow> False
    | Some n \<Rightarrow> if mask_ones (net_Mask n) = 0 then True else OverlapsAny n dangerousNets)"

fun DangerousCIDRs :: "string list \<Rightarrow> string list" where
  "DangerousCIDRs [] = []"
| "DangerousCIDRs (c # cs) =
     (case ParseCIDR c of
        Inr (_, n) \<Rightarrow> if IsDangerousCIDR (Some n) then c # DangerousCIDRs cs else DangerousCIDRs cs
      | Inl _ \<Rightarrow> DangerousCIDRs cs)"

fun Partition_loop ::
  "IPNet list \<Rightarrow> string list \<Rightarrow> string list \<times> string list \<Rightarrow> string list \<times> string list" where
  "Partition_loop locals [] acc = acc"
| "Partition_loop locals (c # cs) (routable, conflicts) =
     (case ParseCIDR c of
        Inl _ \<Rightarrow> Partition_loop locals cs (routable, conflicts @ [c])
      | Inr (_, remote) \<Rightarrow>
          if IsDangerousCIDR (Some remote) \<or> OverlapsAny remote locals
          then Partition_loop locals cs (routable, conflicts @ [c])
          else Partition_loop locals cs (routable @ [c], conflicts))"

definition Partition :: "string list \<Rightarrow> string list \<Rightarrow> string list \<times> string list" where
  "Partition desired localCIDRs = Partition_loop (ParseCIDRList localCIDRs) desired ([], [])"

definition PlanPeer :: "MeshPeerSpec \<Rightarrow> string list \<Rightarrow> Plan" where
  "PlanPeer spec localCIDRs =
     (let desired = AllCIDRs spec in
      if sp_PublicKey spec = '''' then
        \<lparr>pl_PublicKey = '''', pl_Endpoint = sp_Endpoint spec, pl_DesiredCIDRs = desired,
         pl_RoutableCIDRs = [], pl_ConflictingCIDRs = [], pl_Phase = Error,
         pl_Message = ''spec.publicKey is required''\<rparr>
      else
        let (routable, conflicts) = Partition desired localCIDRs;
            plan = \<lparr>pl_PublicKey = sp_PublicKey spec, pl_Endpoint = sp_Endpoint spec,
                    pl_DesiredCIDRs = desired, pl_RoutableCIDRs = routable,
                    pl_ConflictingCIDRs = conflicts, pl_Phase = PhaseUnset, pl_Message = ''''\<rparr>
        in if length conflicts > 0 then
             (let dangerous = DangerousCIDRs desired in
              if length dangerous > 0 then
                plan\<lparr>pl_Phase := Error,
                     pl_Message := ''refusing to route dangerous ranges '' @ fmt_strings dangerous
                       @ '' (default/loopback/link-local/multicast are never steered into the mesh); unrouted: ''
                       @ fmt_strings conflicts\<rparr>
              else
                plan\<lparr>pl_Phase := Error,
                     pl_Message := ''CIDR overlap with local cluster requires NAT remap; unrouted: ''
                       @ fmt_strings conflicts\<rparr>)
           else
             plan\<lparr>pl_Phase := Connected,
                  pl_Message := ''peer programmed; '' @ itoa (length routable) @ ''/''
                    @ itoa (length desired) @ '' CIDRs routed''\<rparr>)"

section \<open>Object names\<close>

definition maxSanitizedNameLen :: nat where
  "maxSanitizedNameLen = 253"

definition sanitize_rune :: "nat \<Rightarrow> char" where
  "sanitize_rune r =
     (if (97 \<le> r \<and> r \<le> 122) \<or> (48 \<le> r \<and> r \<le> 57) then char_of r else CHR ''-'')"

definition SanitizeName :: "string \<Rightarrow> string" where
  "SanitizeName cid =
     (let out = trim (\<lambda>c. c = CHR ''-'') (map (\<lambda>r. sanitize_rune (lower_rune r)) (runes cid)) in
      if out = '''' then ''peer''
      else if out = cid \<and> length out \<le> maxSanitizedNameLen then out
      else
        let suffix = ''-'' @ take 8 (hex_of_bytes (sha256 cid));
            maxBase = maxSanitizedNameLen - length suffix;
            base = (if length out > maxBase then trim_right (\<lambda>c. c = CHR ''-'') (take maxBase out) else out)
        in base @ suffix)"

section \<open>Routing plans\<close>

lemma ParseCIDRList_conv: "ParseCIDRList cs = List.map_filter parse_net cs"
  by (induction cs) (auto simp: parse_net_def List.map_filter_simps split: sum.splits)

lemma set_ParseCIDRList: "n \<in> set (ParseCIDRList cs) \<longleftrightarrow> (\<exists>c\<in>set cs. parse_net c = Some n)"
  by (auto simp: ParseCIDRList_conv set_map_filter_conv)

lemma OverlapsAny_iff:
  "OverlapsAny c ns \<longleftrightarrow> (\<exists>n\<in>set ns. Contains n (net_IP c) \<or> Contains c (net_IP n))"
  by (induction ns) auto

lemma OverlapsAny_common:
  assumes "wf_net c" "\<forall>n\<in>set ns. wf_net n"
  shows "OverlapsAny c ns \<longleftrightarrow> (\<exists>n\<in>set ns. \<exists>x. Contains n x \<and> Contains c x)"
  unfolding OverlapsAny_iff using assms
  by (intro bex_cong refl overlap_iff_common_address) simp_all

lemma dangerousNets_eval [go_eval]:
  "dangerousNets =
     [\<lparr>net_IP = IP4 0x7f000000, net_Mask = CIDRMask 8 32\<rparr>,
      \<lparr>net_IP = IP16 1, net_Mask = CIDRMask 128 128\<rparr>,
      \<lparr>net_IP = IP4 0xa9fe0000, net_Mask = CIDRMask 16 32\<rparr>,
      \<lparr>net_IP = IP16 0xfe800000000000000000000000000000, net_Mask = CIDRMask 10 128\<rparr>,
      \<lparr>net_IP = IP4 0xe0000000, net_Mask = CIDRMask 4 32\<rparr>,
      \<lparr>net_IP = IP16 0xff000000000000000000000000000000, net_Mask = CIDRMask 8 128\<rparr>]"
  by (simp add: dangerousNets_def dangerous_literals_def go_eval)

lemma dangerous_literals_parse: "mustParseCIDRs dangerous_literals = Ret dangerousNets"
  by (simp add: dangerousNets_eval dangerous_literals_def go_eval)

lemma mustParseCIDRs_wf: "mustParseCIDRs cs = Ret ns \<Longrightarrow> \<forall>n\<in>set ns. wf_net n"
  by (induction cs arbitrary: ns) (auto simp: bind_go_Ret_iff ParseCIDR_wf split: sum.splits)

lemma dangerousNets_wf: "\<forall>n\<in>set dangerousNets. wf_net n"
  using dangerous_literals_parse by (rule mustParseCIDRs_wf)

lemma ParseCIDRList_wf: "\<forall>n\<in>set (ParseCIDRList cs). wf_net n"
  by (auto simp: set_ParseCIDRList parse_net_wf)

text \<open>The specification of a CIDR that may be routed: it parses, it is not a
  default route, and no address of it lies in a dangerous or a local range.\<close>

definition may_route :: "string list \<Rightarrow> string \<Rightarrow> bool" where
  "may_route localCIDRs c \<longleftrightarrow>
     (\<exists>n. parse_net c = Some n \<and> mask_ones (net_Mask n) \<noteq> 0 \<and>
       (\<forall>x. Contains n x \<longrightarrow>
          (\<forall>d\<in>set dangerousNets. \<not> Contains d x) \<and>
          (\<forall>l\<in>set (ParseCIDRList localCIDRs). \<not> Contains l x)))"

lemma may_route_conv:
  "may_route localCIDRs c \<longleftrightarrow>
     (case ParseCIDR c of Inl _ \<Rightarrow> False
      | Inr (_, n) \<Rightarrow> \<not> (IsDangerousCIDR (Some n) \<or> OverlapsAny n (ParseCIDRList localCIDRs)))"
proof (cases "ParseCIDR c")
  case (Inr p)
  obtain x n where p: "p = (x, n)" by (cases p)
  then have wf: "wf_net n" using Inr ParseCIDR_wf by simp
  have "may_route localCIDRs c \<longleftrightarrow> mask_ones (net_Mask n) \<noteq> 0 \<and>
      \<not> (\<exists>d\<in>set dangerousNets. \<exists>x. Contains d x \<and> Contains n x) \<and>
      \<not> (\<exists>l\<in>set (ParseCIDRList localCIDRs). \<exists>x. Contains l x \<and> Contains n x)"
    using Inr p unfolding may_route_def parse_net_def by auto
  then show ?thesis
    using Inr p
    by (simp add: IsDangerousCIDR_def OverlapsAny_common [OF wf dangerousNets_wf]
        OverlapsAny_common [OF wf ParseCIDRList_wf])
qed (simp add: may_route_def parse_net_def)

lemma Partition_loop_conv:
  "Partition_loop (ParseCIDRList ls) cs (r, k) =
     (r @ filter (may_route ls) cs, k @ filter (\<lambda>c. \<not> may_route ls c) cs)"
  by (induction cs arbitrary: r k) (auto simp: may_route_conv split: sum.splits)

lemma Partition_conv:
  "Partition cs ls = (filter (may_route ls) cs, filter (\<lambda>c. \<not> may_route ls c) cs)"
  by (simp add: Partition_def Partition_loop_conv)

lemma PlanPeer_fields [plan_simps]:
  "pl_PublicKey (PlanPeer spec ls) = sp_PublicKey spec"
  "pl_Endpoint (PlanPeer spec ls) = sp_Endpoint spec"
  "pl_DesiredCIDRs (PlanPeer spec ls) = AllCIDRs spec"
  "pl_RoutableCIDRs (PlanPeer spec ls) =
     (if sp_PublicKey spec = '''' then [] else filter (may_route ls) (AllCIDRs spec))"
  "pl_ConflictingCIDRs (PlanPeer spec ls) =
     (if sp_PublicKey spec = '''' then [] else filter (\<lambda>c. \<not> may_route ls c) (AllCIDRs spec))"
  by (simp_all add: PlanPeer_def Partition_conv Let_def)

lemma PlanPeer_Phase [plan_simps]:
  "pl_Phase (PlanPeer spec ls) =
     (if sp_PublicKey spec \<noteq> '''' \<and> (\<forall>c\<in>set (AllCIDRs spec). may_route ls c)
      then Connected else Error)"
  by (auto simp: PlanPeer_def Partition_conv Let_def filter_empty_conv)

lemma may_route_routed:
  "c \<in> set (pl_RoutableCIDRs (PlanPeer spec ls)) \<Longrightarrow> may_route ls c"
  by (simp add: plan_simps split: if_splits)



text \<open>C29. The plan is exact: a plan with a public key routes precisely the
  desired ranges that satisfy the specification \<^const>\<open>may_route\<close>, in their order, and
  withholds the others; a plan without one routes nothing; and the phase is
  Connected when the plan is programmable and nothing is withheld, and Error
  otherwise.\<close>

theorem PlanPeer_exact:
  "let p = PlanPeer spec localCIDRs in
     (pl_Phase p = Connected \<longleftrightarrow> Programmable p \<and> \<not> HasConflicts p) \<and>
     (pl_Phase p = Connected \<or> pl_Phase p = Error) \<and>
     (if Programmable p
      then pl_RoutableCIDRs p = filter (may_route localCIDRs) (AllCIDRs spec) \<and>
           pl_ConflictingCIDRs p = filter (\<lambda>c. \<not> may_route localCIDRs c) (AllCIDRs spec)
      else pl_RoutableCIDRs p = [] \<and> pl_ConflictingCIDRs p = [])"
  by (auto simp: Let_def plan_simps Programmable_def HasConflicts_def filter_empty_conv)

section \<open>Object names\<close>

definition alnum_char :: "char \<Rightarrow> bool" where
  "alnum_char c \<longleftrightarrow> (97 \<le> byte_of c \<and> byte_of c \<le> 122) \<or> (48 \<le> byte_of c \<and> byte_of c \<le> 57)"

text \<open>The object names Kubernetes accepts, restricted to one label alphabet: lower-case
  letters, digits and inner dashes, at most 253 bytes.\<close>

definition legal_name :: "string \<Rightarrow> bool" where
  "legal_name s \<longleftrightarrow> s \<noteq> [] \<and> length s \<le> 253 \<and> list_all (\<lambda>c. alnum_char c \<or> c = CHR ''-'') s
     \<and> alnum_char (hd s) \<and> alnum_char (last s)"

lemma sanitize_rune_char: "alnum_char (sanitize_rune r) \<or> sanitize_rune r = CHR ''-''"
  by (auto simp: sanitize_rune_def alnum_char_def)

lemma sanitize_byte:
  "alnum_char c \<or> c = CHR ''-'' \<Longrightarrow> sanitize_rune (lower_rune (byte_of c)) = c"
  by (auto simp: sanitize_rune_def lower_rune_def alnum_char_def)

lemma alnum_not_dash [simp]: "\<not> alnum_char (CHR ''-'')"
  by (simp add: alnum_char_def)

lemma hex_alnum: "is_hex_char c \<Longrightarrow> alnum_char c"
  by (auto simp: is_hex_char_def alnum_char_def is_digit_def)

lemma trim_id: "s \<noteq> [] \<Longrightarrow> \<not> p (hd s) \<Longrightarrow> \<not> p (last s) \<Longrightarrow> trim p s = s"
  using dropWhile_eq_self_iff [of p s] dropWhile_eq_self_iff [of p "rev s"]
  by (simp add: trim_def trim_right_def hd_rev)

lemma SanitizeName_id: 
  assumes "legal_name s"
  shows "SanitizeName s = s"
proof -
  have "list_all (\<lambda>c. byte_of c < 128) s"
    using assms by (fastforce simp: legal_name_def list_all_iff alnum_char_def)
  then have "map (\<lambda>r. sanitize_rune (lower_rune r)) (runes s) = s"
    using assms by (simp add: runes_ascii legal_name_def list_all_iff map_idI sanitize_byte)
  moreover have "trim (\<lambda>c. c = CHR ''-'') s = s"
    using assms by (intro trim_id) (auto simp: legal_name_def)
  ultimately show ?thesis
    using assms by (simp add: SanitizeName_def legal_name_def maxSanitizedNameLen_def)
qed

lemma legal_name_base:
  assumes "base \<noteq> []" "length base \<le> 244" "list_all (\<lambda>c. alnum_char c \<or> c = CHR ''-'') base"
    "alnum_char (hd base)"
  shows "legal_name (base @ ''-'' @ take 8 (hex_of_bytes (sha256 cid)))"
proof -
  let ?h = "take 8 (hex_of_bytes (sha256 cid))"
  have len: "length ?h = 8" by simp
  have h: "\<forall>c\<in>set ?h. alnum_char c"
    using hex_of_bytes_chars hex_alnum in_set_takeD by fast
  moreover have ne: "?h \<noteq> []" using len by force
  ultimately have "alnum_char (last ?h)" using last_in_set by blast
  then show ?thesis
    using assms h len ne by (auto simp: legal_name_def list_all_iff simp del: take_eq_Nil)
qed

lemma trim_right_not_Nil: "s \<noteq> [] \<Longrightarrow> \<not> p (hd s) \<Longrightarrow> trim_right p s \<noteq> []"
  by (auto simp: trim_right_def dropWhile_eq_Nil_conv)

lemma legal_name_cut:
  assumes "out \<noteq> []" "\<forall>c\<in>set out. alnum_char c \<or> c = CHR ''-''" "alnum_char (hd out)"
  shows "legal_name (trim_right (\<lambda>c. c = CHR ''-'') (take 244 out) @ ''-'' @ take 8 (hex_of_bytes (sha256 cid)))"
proof -
  let ?t = "take 244 out"
  have t: "?t \<noteq> []" "hd ?t = hd out" using assms(1) by (cases out; simp)+
  then have ne: "trim_right (\<lambda>c. c = CHR ''-'') ?t \<noteq> []"
    using assms(3) by (intro trim_right_not_Nil) auto
  have "length (trim_right (\<lambda>c. c = CHR ''-'') ?t) \<le> 244"
    using length_trim_right [of "\<lambda>c. c = CHR ''-''" ?t] by simp
  moreover have "\<forall>c\<in>set (trim_right (\<lambda>c. c = CHR ''-'') ?t). alnum_char c \<or> c = CHR ''-''"
    using set_trim_right_subset [of _ ?t] set_take_subset [of 244 out] assms(2) by blast
  ultimately show ?thesis
    using ne trim_right_hd [OF ne] t assms(3) by (intro legal_name_base) (simp_all add: list_all_iff)
qed

lemma SanitizeName_cases:
  obtains out where "\<forall>c\<in>set out. alnum_char c \<or> c = CHR ''-''"
    "out \<noteq> [] \<Longrightarrow> alnum_char (hd out) \<and> alnum_char (last out)"
    "SanitizeName cid = (if out = [] then ''peer'' else if out = cid \<and> length out \<le> 253 then out
       else (if length out > 244 then trim_right (\<lambda>c. c = CHR ''-'') (take 244 out) else out)
         @ ''-'' @ take 8 (hex_of_bytes (sha256 cid)))"
proof -
  let ?raw = "map (\<lambda>r. sanitize_rune (lower_rune r)) (runes cid)"
  define out where "out = trim (\<lambda>c. c = CHR ''-'') ?raw"
  have "set out \<subseteq> set ?raw" unfolding out_def by (rule set_trim_subset)
  then have chars: "\<forall>c\<in>set out. alnum_char c \<or> c = CHR ''-''"
    using sanitize_rune_char by auto
  moreover have "alnum_char (hd out) \<and> alnum_char (last out)" if ne: "out \<noteq> []"
  proof -
    have "hd out \<noteq> CHR ''-''" "last out \<noteq> CHR ''-''"
      using trim_hd [OF ne [unfolded out_def]] trim_last [OF ne [unfolded out_def]] by (simp_all add: out_def)
    then show ?thesis using chars hd_in_set [OF ne] last_in_set [OF ne] by blast
  qed
  moreover have "253 - length (''-'' @ take 8 (hex_of_bytes (sha256 cid))) = 244" by simp
  note that [of out, unfolded this [symmetric]]
  ultimately show thesis
    unfolding SanitizeName_def out_def [symmetric] Let_def maxSanitizedNameLen_def by simp
qed

lemma SanitizeName_is_legal: "legal_name (SanitizeName cid)"
proof (rule SanitizeName_cases [of cid])
  fix out
  assume chars: "\<forall>c\<in>set out. alnum_char c \<or> c = CHR ''-''"
    and ends: "out \<noteq> [] \<Longrightarrow> alnum_char (hd out) \<and> alnum_char (last out)"
    and eq: "SanitizeName cid = (if out = [] then ''peer'' else if out = cid \<and> length out \<le> 253 then out
       else (if length out > 244 then trim_right (\<lambda>c. c = CHR ''-'') (take 244 out) else out)
         @ ''-'' @ take 8 (hex_of_bytes (sha256 cid)))"
  consider "out = []" | "out \<noteq> []" "out = cid" "length out \<le> 253"
    | "out \<noteq> []" "\<not> (out = cid \<and> length out \<le> 253)" by blast
  then show "legal_name (SanitizeName cid)"
  proof cases
    case 1
    then show ?thesis unfolding eq by (simp add: legal_name_def alnum_char_def)
  next
    case 2
    then show ?thesis unfolding eq using chars ends by (simp add: legal_name_def list_all_iff)
  next
    case 3
    then show ?thesis
      unfolding eq using chars ends legal_name_cut [of out cid] legal_name_base [of out cid]
      by (auto simp: list_all_iff)
  qed
qed

text \<open>C35. The name derived from any cluster identifier is a legal object name (at
  most 253 lower-case letters, digits and inner dashes), and sanitizing is
  idempotent: a legal name is its own name.\<close>

theorem SanitizeName_legal_idempotent:
  "legal_name (SanitizeName cid) \<and> SanitizeName (SanitizeName cid) = SanitizeName cid"
  by (simp add: SanitizeName_is_legal SanitizeName_id)

text \<open>Identifiers without any usable character share one name, without the
  disambiguating hash, and it is also the name of the identifier \<^verbatim>\<open>peer\<close>.\<close>

lemma SanitizeName_fallback_collides:
  "SanitizeName ''!!!'' = ''peer'' \<and> SanitizeName ''???'' = ''peer'' \<and> SanitizeName ''peer'' = ''peer''"
  by (simp add: SanitizeName_def sanitize_rune_def maxSanitizedNameLen_def go_eval)

end
