(* ===== verification/Topology_Remap.thy ===== *)
theory Topology_Remap
  imports Topology_Plan
begin

text \<open>
  \<^verbatim>\<open>pkg/topology/remap.go\<close>: the deterministic virtual range of a real range
  (\<^verbatim>\<open>VirtualCIDR\<close>) and the remap plan of a peer (\<^verbatim>\<open>PlanRemap\<close>) with its
  collision check.
\<close>

section \<open>Overlap remap\<close>

definition DefaultRemapPool :: string where
  "DefaultRemapPool = ''172.16.0.0/12''"

record Remap =
  rm_Real :: string
  rm_Virtual :: string

record RemapPlan =
  rp_RouteVirtual :: "string list"
  rp_Locals :: "Remap list"

definition hash32 :: "string \<Rightarrow> 32 word" where
  "hash32 s = fnv32a s"

definition uint32ToIP :: "32 word \<Rightarrow> ip" where
  "uint32ToIP v = IP4 v"

definition ipToUint32 :: "ip \<Rightarrow> 32 word option" where
  "ipToUint32 x = To4 x"

text \<open>A shift by at least the width of the operand is zero in Go.\<close>

definition shl :: "'a::len word \<Rightarrow> nat \<Rightarrow> 'a word" where
  "shl w n = (if n < LENGTH('a) then push_bit n w else 0)"

definition VirtualCIDR :: "string \<Rightarrow> string \<Rightarrow> string \<Rightarrow> string go" where
  "VirtualCIDR pool clusterID realCIDR =
     (case ParseCIDR pool of
        Inl err \<Rightarrow> Err (''parsing remap pool '' @ quote pool @ '': '' @ err)
      | Inr (_, poolNet) \<Rightarrow>
          (case To4 (net_IP poolNet) of
             None \<Rightarrow> Err (''remap pool '' @ quote pool @ '' must be IPv4'')
           | Some poolBase \<Rightarrow>
               let poolOnes = mask_ones (net_Mask poolNet) in
               (case ParseCIDR realCIDR of
                  Inl err \<Rightarrow> Err (''parsing real CIDR '' @ quote realCIDR @ '': '' @ err)
                | Inr (_, realNet) \<Rightarrow>
                    if To4 (net_IP realNet) = None then
                      Err (''real CIDR '' @ quote realCIDR @ '' must be IPv4 to remap'')
                    else
                      let realOnes = mask_ones (net_Mask realNet) in
                      if realOnes < poolOnes then
                        Err (''real CIDR '' @ quote realCIDR @ '' (/'' @ itoa realOnes
                          @ '') is larger than the remap pool '' @ quote pool @ '' (/'' @ itoa poolOnes @ '')'')
                      else
                        let blockBits = unat (word_of_int (32 - int realOnes) :: 64 word);
                            numBlocks = shl (1 :: 64 word) (realOnes - poolOnes)
                        in if numBlocks = 0 then Panic ''runtime error: integer divide by zero''
                           else
                             let index = ucast (hash32 (clusterID @ ''|'' @ realCIDR)) mod numBlocks;
                                 virtual = poolBase + shl (ucast index :: 32 word) blockBits
                             in Ret (string_of_ip (uint32ToIP virtual) @ ''/'' @ itoa realOnes))))"

definition cidrsOverlap :: "IPNet \<Rightarrow> IPNet \<Rightarrow> bool" where
  "cidrsOverlap a b \<longleftrightarrow> Contains a (net_IP b) \<or> Contains b (net_IP a)"

text \<open>The three maps \<^verbatim>\<open>PlanRemap\<close> accumulates.\<close>

record remap_state =
  rs_route :: "string list"
  rs_local :: "(string \<times> Remap) list"
  rs_owner :: "string \<rightharpoonup> string"

definition claim :: "string \<Rightarrow> string \<Rightarrow> string \<Rightarrow> remap_state \<Rightarrow> remap_state go" where
  "claim pool virtual source st =
     (case rs_owner st virtual of
        Some prev \<Rightarrow>
          if prev \<noteq> source then
            Err (''remap collision in pool '' @ pool @ '': '' @ prev @ '' and '' @ source
              @ '' both map to virtual '' @ virtual
              @ ''; choose a larger remap pool or non-overlapping CIDRs'')
          else Ret (st\<lparr>rs_owner := (rs_owner st)(virtual \<mapsto> source)\<rparr>)
      | None \<Rightarrow> Ret (st\<lparr>rs_owner := (rs_owner st)(virtual \<mapsto> source)\<rparr>))"

definition wrap_err :: "string \<Rightarrow> 'a go \<Rightarrow> 'a go" where
  "wrap_err prefix r = (case r of Err e \<Rightarrow> Err (prefix @ e) | _ \<Rightarrow> r)"

definition remap_local :: "string \<Rightarrow> string \<Rightarrow> IPNet \<Rightarrow> IPNet \<Rightarrow> remap_state \<Rightarrow> remap_state go" where
  "remap_local pool localClusterID cyNet cx st =
     (if \<not> cidrsOverlap cx cyNet then Ret st
      else
        let rl = string_of_net cx in
        bind_go (wrap_err (''allocating virtual CIDR for local '' @ rl @ '': '')
                  (VirtualCIDR pool localClusterID rl)) (\<lambda>vx.
        bind_go (claim pool vx (''local '' @ localClusterID @ '' '' @ rl) st) (\<lambda>st.
        Ret (st\<lparr>rs_local := (rl, \<lparr>rm_Real = rl, rm_Virtual = vx\<rparr>) # rs_local st\<rparr>))))"

definition remap_conflict ::
  "string \<Rightarrow> string \<Rightarrow> IPNet list \<Rightarrow> string \<Rightarrow> string \<Rightarrow> remap_state \<Rightarrow> remap_state go" where
  "remap_conflict pool localClusterID locals peerClusterID cy st =
     (case ParseCIDR cy of
        Inl _ \<Rightarrow> Ret st
      | Inr (_, cyNet) \<Rightarrow>
          bind_go (wrap_err (''allocating virtual CIDR for peer '' @ peerClusterID @ '' '' @ cy @ '': '')
                    (VirtualCIDR pool peerClusterID cy)) (\<lambda>vy.
          bind_go (claim pool vy (''peer '' @ peerClusterID @ '' '' @ cy) st) (\<lambda>st.
          fold_go (remap_local pool localClusterID cyNet) locals
            (st\<lparr>rs_route := vy # rs_route st\<rparr>))))"

definition keysSorted :: "string list \<Rightarrow> string list" where
  "keysSorted m = sorted_set m"

definition sortedRemapKeys :: "(string \<times> Remap) list \<Rightarrow> string list" where
  "sortedRemapKeys m = sorted_set (map fst m)"

definition PlanRemap ::
  "string \<Rightarrow> string \<Rightarrow> string list \<Rightarrow> string \<Rightarrow> string list \<Rightarrow> RemapPlan go" where
  "PlanRemap pool localClusterID localCIDRs peerClusterID conflictingPeerCIDRs =
     bind_go (fold_go (remap_conflict pool localClusterID (ParseCIDRList localCIDRs) peerClusterID)
               conflictingPeerCIDRs \<lparr>rs_route = [], rs_local = [], rs_owner = Map.empty\<rparr>) (\<lambda>st.
     Ret \<lparr>rp_RouteVirtual = keysSorted (rs_route st),
          rp_Locals = map (\<lambda>rl. the (map_of (rs_local st) rl)) (sortedRemapKeys (rs_local st))\<rparr>)"

section \<open>The overlap remap\<close>

lemma bit_take_bit_self: "take_bit k w = w \<Longrightarrow> bit w m \<Longrightarrow> m < k"
  for w :: "'a::len word"
  by (metis bit_take_bit_iff)

lemma shl_eq: "shl w n = push_bit n (w :: 'a::len word)"
  by (rule bit_word_eqI) (auto simp: shl_def bit_simps)

lemma shl_one: "k < LENGTH('a) \<Longrightarrow> shl (1 :: 'a::len word) k = 2 ^ k"
  by (simp add: shl_def push_bit_eq_mult)

lemma block_in_pool:
  fixes base :: "32 word" and idx :: "64 word"
  assumes "p \<le> r" "r \<le> 32" "take_bit (r - p) idx = idx" "base AND cidr_mask p = base"
  shows "drop_bit (32 - p) (base + push_bit (32 - r) (ucast idx)) = drop_bit (32 - p) base"
    "(base + push_bit (32 - r) (ucast idx)) AND cidr_mask r = base + push_bit (32 - r) (ucast idx)"
proof -
  let ?blk = "push_bit (32 - r) (ucast idx) :: 32 word"
  have blk: "bit ?blk n \<Longrightarrow> 32 - r \<le> n \<and> n < 32 - p" for n
    using bit_take_bit_self [OF assms(3)] assms(1,2) by (fastforce simp: bit_simps)
  have base: "bit base n \<Longrightarrow> 32 - p \<le> n" for n
    using arg_cong [OF assms(4), of "\<lambda>w. bit w n"] by (auto simp: cidr_mask_def bit_simps)
  have "base + ?blk = base OR ?blk"
    using blk base by (intro disjunctive_add_eq_or bit_word_eqI) (force simp: bit_and_iff)
  then have sum: "bit (base + ?blk) n \<longleftrightarrow> bit base n \<or> bit ?blk n" for n
    by (simp add: bit_or_iff)
  show "drop_bit (32 - p) (base + ?blk) = drop_bit (32 - p) base"
    by (rule bit_word_eqI) (auto simp: bit_drop_bit_eq sum dest: blk)
  have "bit (base + ?blk) n \<Longrightarrow> 32 - r \<le> n" for n
    using blk base assms(1) by (fastforce simp: sum)
  then show "(base + ?blk) AND cidr_mask r = base + ?blk"
    by (intro bit_word_eqI) (auto simp: cidr_mask_def bit_and_iff bit_not_iff bit_mask_iff not_less)
qed

text \<open>What \<^verbatim>\<open>VirtualCIDR\<close> computes when both ranges are written in IPv4 notation.\<close>

lemma VirtualCIDR_ip4:
  assumes pool: "parse_net pool = Some P" "net_IP P = IP4 base" "mask_ones (net_Mask P) = p"
    and real: "parse_net c = Some R" "net_IP R = IP4 a" "mask_ones (net_Mask R) = r"
    and "p \<le> r"
  shows "VirtualCIDR pool cid c =
    Ret (string_of_ip4 (base + push_bit (32 - r) (ucast (take_bit (r - p) (ucast (hash32 (cid @ ''|'' @ c))) :: 64 word)))
         @ ''/'' @ itoa r)"
proof -
  have r: "r \<le> 32" using real parse_net_wf [OF real(1)] by (simp add: wf_net_def)
  have "word_of_int (32 - int r) = (word_of_nat (32 - r) :: 64 word)"
    using r by (simp add: of_nat_diff)
  then have bb: "unat (word_of_int (32 - int r) :: 64 word) = 32 - r"
    by (simp only: unsigned_of_nat) (simp add: take_bit_nat_eq_self)
  obtain x y where xy: "ParseCIDR pool = Inr (x, P)" "ParseCIDR c = Inr (y, R)"
    using pool(1) real(1) by (auto simp: parse_net_ParseCIDR)
  have lt: "r - p < LENGTH(64)" using r by simp
  then have nz: "(2 :: 64 word) ^ (r - p) \<noteq> 0" by simp
  show ?thesis
    unfolding VirtualCIDR_def xy using assms(2,3,5,6,7) nz
    by (simp only: sum.case prod.case To4_IP4 option.case Let_def bb shl_one [OF lt] shl_eq
        take_bit_eq_mod uint32ToIP_def string_of_ip_def if_False option.distinct not_less not_le)
       (simp add: not_less)
qed

lemma VirtualCIDR_block:
  assumes "parse_net pool = Some P" "net_IP P = IP4 base" "parse_net c = Some R" "net_IP R = IP4 a"
    and "mask_ones (net_Mask P) \<le> mask_ones (net_Mask R)"
  obtains w where "VirtualCIDR pool cid c = Ret (string_of_ip4 w @ ''/'' @ itoa (mask_ones (net_Mask R)))"
    "w AND cidr_mask (mask_ones (net_Mask R)) = w"
    "drop_bit (32 - mask_ones (net_Mask P)) w = drop_bit (32 - mask_ones (net_Mask P)) base"
proof -
  let ?r = "mask_ones (net_Mask R)" and ?p = "mask_ones (net_Mask P)"
  let ?idx = "take_bit (?r - ?p) (ucast (hash32 (cid @ ''|'' @ c))) :: 64 word"
  have "?r \<le> 32" "base AND cidr_mask ?p = base"
    using parse_net_wf [OF assms(3)] parse_net_wf [OF assms(1)] assms(2,4) by (auto simp: wf_net_def)
  note block_in_pool [OF assms(5) this(1) _ this(2), of ?idx]
  moreover note VirtualCIDR_ip4 [OF assms(1,2) refl assms(3,4) refl assms(5), of cid]
  ultimately show thesis using that by simp
qed

lemma wf_net_IP4:
  assumes "wf_net N" "net_IP N = IP4 a"
  obtains m where "N = \<lparr>net_IP = IP4 a, net_Mask = CIDRMask m 32\<rparr>" "m \<le> 32"
  using assms by (cases N; cases "net_Mask N") (auto simp: wf_net_def)

lemma networkNumber_ip4 [simp]:
  "networkNumberAndMask \<lparr>net_IP = IP4 a, net_Mask = CIDRMask m 32\<rparr> = NN4 a m"
  by (simp add: networkNumberAndMask_def)

lemma Contains_subprefix:
  assumes "m \<le> n" "drop_bit (32 - m) b = drop_bit (32 - m) a"
    and "Contains \<lparr>net_IP = IP4 b, net_Mask = CIDRMask n 32\<rparr> x"
  shows "Contains \<lparr>net_IP = IP4 a, net_Mask = CIDRMask m 32\<rparr> x"
proof -
  obtain y where y: "To4 x = Some y" "drop_bit (32 - n) b = drop_bit (32 - n) y"
    using assms(3) by (auto simp: Contains_NN4 [OF networkNumber_ip4])
  then have "drop_bit (32 - m) b = drop_bit (32 - m) y"
    using assms(1) drop_bit_mono_eq [of "32 - n" b y "32 - m"] by simp
  then show ?thesis using assms(2) y by (simp add: Contains_NN4 [OF networkNumber_ip4])
qed

lemma VirtualCIDR_valid:
  assumes "parse_net pool = Some P" "net_IP P = IP4 base" "parse_net c = Some R" "net_IP R = IP4 a"
    and "mask_ones (net_Mask P) \<le> mask_ones (net_Mask R)"
  shows "\<exists>v V. VirtualCIDR pool cid c = Ret v \<and> parse_net v = Some V \<and> string_of_net V = v \<and>
    net_Mask V = net_Mask R \<and> (\<forall>x. Contains V x \<longrightarrow> Contains P x)"
proof -
  obtain p where P: "P = \<lparr>net_IP = IP4 base, net_Mask = CIDRMask p 32\<rparr>"
    using parse_net_wf [OF assms(1)] assms(2) by (rule wf_net_IP4)
  obtain r where R: "R = \<lparr>net_IP = IP4 a, net_Mask = CIDRMask r 32\<rparr>" "r \<le> 32"
    using parse_net_wf [OF assms(3)] assms(4) by (rule wf_net_IP4)
  obtain w where w: "VirtualCIDR pool cid c = Ret (string_of_ip4 w @ ''/'' @ itoa r)"
    "w AND cidr_mask r = w" "drop_bit (32 - p) w = drop_bit (32 - p) base"
    using VirtualCIDR_block [OF assms, of cid] P R by auto
  let ?V = "\<lparr>net_IP = IP4 w, net_Mask = CIDRMask r 32\<rparr>"
  have "parse_net (string_of_ip4 w @ ''/'' @ itoa r) = Some ?V"
    using R(2) w(2) ParseCIDR_ip4 [of r w] by (simp add: parse_net_def)
  moreover have "Contains ?V x \<Longrightarrow> Contains P x" for x
    using Contains_subprefix [OF _ w(3)] assms(5) P R by simp
  ultimately show ?thesis
    using w(1) R by (intro exI [of _ "string_of_ip4 w @ ''/'' @ itoa r"] exI [of _ ?V])
      (simp add: string_of_net_def)
qed


definition remap_le :: "remap_state \<Rightarrow> remap_state \<Rightarrow> bool" where
  "remap_le u v \<longleftrightarrow> rs_owner u \<subseteq>\<^sub>m rs_owner v \<and> set (rs_route u) \<subseteq> set (rs_route v)
     \<and> set (rs_local u) \<subseteq> set (rs_local v)"

lemma remap_le_refl: "remap_le u u"
  by (simp add: remap_le_def)

lemma remap_le_trans: "remap_le u v \<Longrightarrow> remap_le v w \<Longrightarrow> remap_le u w"
  unfolding remap_le_def by (meson map_le_trans subset_trans)

lemma map_leI_owner: "m \<subseteq>\<^sub>m m' \<Longrightarrow> m v = Some s \<Longrightarrow> m' v = Some s"
  by (metis domI map_le_def)

lemma claim_Ret:
  assumes "claim pool v src st = Ret st'"
  shows "remap_le st st'" "rs_owner st' v = Some src"
    "rs_route st' = rs_route st" "rs_local st' = rs_local st"
  using assms by (auto simp: claim_def remap_le_def map_le_def split: option.splits if_splits)

lemma claim_RetD:
  "claim pool v src st = Ret st' \<Longrightarrow> remap_le st st' \<and> rs_owner st' v = Some src \<and>
     rs_route st' = rs_route st \<and> rs_local st' = rs_local st"
  by (simp add: claim_Ret)

lemma wrap_err_Ret [simp]: "wrap_err p r = Ret a \<longleftrightarrow> r = Ret a"
  by (cases r) (simp_all add: wrap_err_def)

abbreviation peer_source :: "string \<Rightarrow> string \<Rightarrow> string" where
  "peer_source pid cy \<equiv> ''peer '' @ pid @ '' '' @ cy"

abbreviation local_source :: "string \<Rightarrow> string \<Rightarrow> string" where
  "local_source lid rl \<equiv> ''local '' @ lid @ '' '' @ rl"

text \<open>What the accumulated maps hold of one local range and of one conflicting range.\<close>

definition local_done :: "string \<Rightarrow> string \<Rightarrow> IPNet \<Rightarrow> IPNet \<Rightarrow> remap_state \<Rightarrow> bool" where
  "local_done pool lid cyNet cx st \<longleftrightarrow> (cidrsOverlap cx cyNet \<longrightarrow>
     (\<exists>vx. VirtualCIDR pool lid (string_of_net cx) = Ret vx \<and>
       (string_of_net cx, \<lparr>rm_Real = string_of_net cx, rm_Virtual = vx\<rparr>) \<in> set (rs_local st)))"

definition conflict_done ::
  "string \<Rightarrow> string \<Rightarrow> IPNet list \<Rightarrow> string \<Rightarrow> string \<Rightarrow> remap_state \<Rightarrow> bool" where
  "conflict_done pool lid locals pid cy st \<longleftrightarrow>
     (\<forall>n. parse_net cy = Some n \<longrightarrow>
       (\<exists>vy. VirtualCIDR pool pid cy = Ret vy \<and> vy \<in> set (rs_route st)
          \<and> rs_owner st vy = Some (peer_source pid cy)) \<and>
       (\<forall>cx\<in>set locals. local_done pool lid n cx st))"

lemma local_done_mono: "remap_le u v \<Longrightarrow> local_done pool lid n cx u \<Longrightarrow> local_done pool lid n cx v"
  unfolding local_done_def remap_le_def by blast

lemma conflict_done_mono:
  assumes "remap_le u v" "conflict_done pool lid locals pid cy u"
  shows "conflict_done pool lid locals pid cy v"
  using assms local_done_mono [OF assms(1)] unfolding conflict_done_def remap_le_def
  by (meson map_leI_owner subsetD)

lemma remap_local_done:
  "remap_local pool lid n cx u = Ret v \<Longrightarrow> remap_le u v \<and> local_done pool lid n cx v"
  by (auto simp: remap_local_def local_done_def bind_go_Ret_iff Let_def remap_le_refl
      remap_le_def dest!: claim_RetD split: if_splits)

lemma remap_conflict_done:
  assumes "remap_conflict pool lid locals pid cy u = Ret v"
  shows "remap_le u v \<and> conflict_done pool lid locals pid cy v"
proof (cases "ParseCIDR cy")
  case (Inl e)
  then show ?thesis using assms
    by (simp add: remap_conflict_def conflict_done_def parse_net_def remap_le_refl)
next
  case (Inr xn)
  obtain x n where xn: "xn = (x, n)" by (cases xn)
  with assms Inr obtain vy w where vy: "VirtualCIDR pool pid cy = Ret vy"
    and w: "claim pool vy (peer_source pid cy) u = Ret w"
    and f: "fold_go (remap_local pool lid n) locals (w\<lparr>rs_route := vy # rs_route w\<rparr>) = Ret v"
    by (auto simp: remap_conflict_def bind_go_Ret_iff)
  have rest: "remap_le (w\<lparr>rs_route := vy # rs_route w\<rparr>) v \<and> (\<forall>cx\<in>set locals. local_done pool lid n cx v)"
    using f remap_local_done remap_le_refl remap_le_trans local_done_mono by (rule fold_go_facts)
  moreover have "remap_le u (w\<lparr>rs_route := vy # rs_route w\<rparr>)"
    using claim_Ret [OF w] by (auto simp: remap_le_def)
  ultimately have "remap_le u v" using remap_le_trans by blast
  moreover have "rs_owner v vy = Some (peer_source pid cy)"
    using rest claim_Ret(2) [OF w] by (auto simp: remap_le_def intro: map_leI_owner)
  moreover have "vy \<in> set (rs_route v)" using rest by (auto simp: remap_le_def)
  ultimately show ?thesis
    using rest vy Inr xn by (simp add: conflict_done_def parse_net_def)
qed

text \<open>What every entry of the accumulated maps stands for.\<close>

definition local_entry_ok ::
  "string \<Rightarrow> string \<Rightarrow> IPNet list \<Rightarrow> string set \<Rightarrow> remap_state \<Rightarrow> string \<times> Remap \<Rightarrow> bool" where
  "local_entry_ok pool lid locals C st e \<longleftrightarrow>
     (\<exists>vx cx cy n. e = (string_of_net cx, \<lparr>rm_Real = string_of_net cx, rm_Virtual = vx\<rparr>) \<and>
        VirtualCIDR pool lid (string_of_net cx) = Ret vx \<and>
        rs_owner st vx = Some (local_source lid (string_of_net cx)) \<and>
        cx \<in> set locals \<and> cy \<in> C \<and> parse_net cy = Some n \<and> cidrsOverlap cx n)"

definition route_entry_ok :: "string \<Rightarrow> string \<Rightarrow> string set \<Rightarrow> remap_state \<Rightarrow> string \<Rightarrow> bool" where
  "route_entry_ok pool pid C st v \<longleftrightarrow>
     (\<exists>cy\<in>C. parse_net cy \<noteq> None \<and> VirtualCIDR pool pid cy = Ret v \<and>
        rs_owner st v = Some (peer_source pid cy))"

definition entries_ok ::
  "string \<Rightarrow> string \<Rightarrow> IPNet list \<Rightarrow> string \<Rightarrow> string set \<Rightarrow> remap_state \<Rightarrow> bool" where
  "entries_ok pool lid locals pid C st \<longleftrightarrow>
     (\<forall>e\<in>set (rs_local st). local_entry_ok pool lid locals C st e) \<and>
     (\<forall>v\<in>set (rs_route st). route_entry_ok pool pid C st v)"

lemma entry_ok_mono:
  assumes "rs_owner u \<subseteq>\<^sub>m rs_owner v"
  shows "local_entry_ok pool lid locals C u e \<Longrightarrow> local_entry_ok pool lid locals C v e"
    "route_entry_ok pool pid C u r \<Longrightarrow> route_entry_ok pool pid C v r"
  unfolding local_entry_ok_def route_entry_ok_def using map_leI_owner [OF assms] by blast+

lemma entries_ok_claim:
  assumes "entries_ok pool lid locals pid C u" "claim pool v src u = Ret w"
  shows "entries_ok pool lid locals pid C w"
  using assms claim_Ret [OF assms(2)] entry_ok_mono [of u w]
  unfolding entries_ok_def remap_le_def by simp

lemma entries_ok_local:
  assumes "entries_ok pool lid locals pid C u" "remap_local pool lid n cx u = Ret v"
    "cx \<in> set locals" "cy \<in> C" "parse_net cy = Some n"
  shows "entries_ok pool lid locals pid C v"
proof (cases "cidrsOverlap cx n")
  case True
  with assms(2) obtain vx w where vx: "VirtualCIDR pool lid (string_of_net cx) = Ret vx"
    and w: "claim pool vx (local_source lid (string_of_net cx)) u = Ret w"
    and v: "v = w\<lparr>rs_local := (string_of_net cx, \<lparr>rm_Real = string_of_net cx, rm_Virtual = vx\<rparr>) # rs_local w\<rparr>"
    by (auto simp: remap_local_def bind_go_Ret_iff Let_def)
  have "local_entry_ok pool lid locals C v (string_of_net cx, \<lparr>rm_Real = string_of_net cx, rm_Virtual = vx\<rparr>)"
    using assms(3-5) True vx claim_Ret(2) [OF w] v unfolding local_entry_ok_def by auto
  moreover have "rs_owner w \<subseteq>\<^sub>m rs_owner v" using v by simp
  ultimately show ?thesis
    using entries_ok_claim [OF assms(1) w] entry_ok_mono [of w v] v unfolding entries_ok_def by simp
qed (use assms in \<open>simp add: remap_local_def\<close>)

lemma entries_ok_conflict:
  assumes "cy \<in> C" "entries_ok pool lid locals pid C u" "remap_conflict pool lid locals pid cy u = Ret v"
  shows "entries_ok pool lid locals pid C v"
proof (cases "ParseCIDR cy")
  case (Inr xn)
  obtain x n where xn: "xn = (x, n)" by (cases xn)
  with assms(3) Inr obtain vy w where vy: "VirtualCIDR pool pid cy = Ret vy"
    and w: "claim pool vy (peer_source pid cy) u = Ret w"
    and f: "fold_go (remap_local pool lid n) locals (w\<lparr>rs_route := vy # rs_route w\<rparr>) = Ret v"
    by (auto simp: remap_conflict_def bind_go_Ret_iff)
  have n: "parse_net cy = Some n" using Inr xn by (simp add: parse_net_def)
  let ?w = "w\<lparr>rs_route := vy # rs_route w\<rparr>"
  have "route_entry_ok pool pid C ?w vy"
    using assms(1) vy n claim_Ret(2) [OF w] unfolding route_entry_ok_def by auto
  then have "entries_ok pool lid locals pid C ?w"
    using entries_ok_claim [OF assms(2) w] entry_ok_mono [of w ?w] unfolding entries_ok_def by simp
  with f show ?thesis
    by (rule fold_go_invariant) (use entries_ok_local assms(1) n in blast)
qed (use assms in \<open>simp add: remap_conflict_def\<close>)


lemma PlanRemap_state:
  assumes "PlanRemap pool lid ls pid cs = Ret plan"
  obtains st where "rp_RouteVirtual plan = sorted_set (rs_route st)"
    "rp_Locals plan = map (\<lambda>rl. the (map_of (rs_local st) rl)) (sorted_set (map fst (rs_local st)))"
    "\<And>cy. cy \<in> set cs \<Longrightarrow> conflict_done pool lid (ParseCIDRList ls) pid cy st"
    "entries_ok pool lid (ParseCIDRList ls) pid (set cs) st"
proof -
  let ?s0 = "\<lparr>rs_route = [], rs_local = [], rs_owner = Map.empty\<rparr>"
  obtain st where st: "fold_go (remap_conflict pool lid (ParseCIDRList ls) pid) cs ?s0 = Ret st"
    and plan: "plan = \<lparr>rp_RouteVirtual = keysSorted (rs_route st),
      rp_Locals = map (\<lambda>rl. the (map_of (rs_local st) rl)) (sortedRemapKeys (rs_local st))\<rparr>"
    using assms by (auto simp: PlanRemap_def bind_go_Ret_iff)
  have "remap_le ?s0 st \<and> (\<forall>cy\<in>set cs. conflict_done pool lid (ParseCIDRList ls) pid cy st)"
    using st remap_conflict_done remap_le_refl remap_le_trans conflict_done_mono by (rule fold_go_facts)
  moreover have "entries_ok pool lid (ParseCIDRList ls) pid (set cs) ?s0" by (simp add: entries_ok_def)
  with st have "entries_ok pool lid (ParseCIDRList ls) pid (set cs) st"
    by (rule fold_go_invariant) (rule entries_ok_conflict)
  ultimately show thesis
    using that plan by (simp add: keysSorted_def sortedRemapKeys_def)
qed

lemma PlanRemap_routes_set:
  assumes "PlanRemap pool lid ls pid cs = Ret plan"
  shows "set (rp_RouteVirtual plan) = {v. \<exists>cy\<in>set cs. parse_net cy \<noteq> None \<and> VirtualCIDR pool pid cy = Ret v}" (is "_ = ?S")
proof -
  obtain st where st: "rp_RouteVirtual plan = sorted_set (rs_route st)"
    "\<And>cy. cy \<in> set cs \<Longrightarrow> conflict_done pool lid (ParseCIDRList ls) pid cy st"
    "entries_ok pool lid (ParseCIDRList ls) pid (set cs) st"
    using PlanRemap_state [OF assms] by metis
  have "v \<in> ?S" if "v \<in> set (rs_route st)" for v
    using that st(3) unfolding entries_ok_def route_entry_ok_def by blast
  moreover have "v \<in> set (rs_route st)" if "v \<in> ?S" for v
  proof -
    from that obtain cy n where cy: "cy \<in> set cs" "parse_net cy = Some n" "VirtualCIDR pool pid cy = Ret v" by auto
    then show ?thesis using st(2) [OF cy(1)] unfolding conflict_done_def by simp
  qed
  ultimately show ?thesis using st(1) by auto
qed

lemma local_lookup:
  assumes "entries_ok pool lid locals pid C st" "rl \<in> fst ` set (rs_local st)"
  obtains vx where "map_of (rs_local st) rl = Some \<lparr>rm_Real = rl, rm_Virtual = vx\<rparr>"
    "VirtualCIDR pool lid rl = Ret vx" "rs_owner st vx = Some (local_source lid rl)"
proof -
  obtain rm where rm: "map_of (rs_local st) rl = Some rm" using assms(2) by (metis map_of_eq_None_iff not_None_eq)
  then have "local_entry_ok pool lid locals C st (rl, rm)"
    using assms(1) map_of_SomeD unfolding entries_ok_def by fastforce
  then show thesis using that rm unfolding local_entry_ok_def by auto
qed

lemma PlanRemap_locals_set:
  assumes "PlanRemap pool lid ls pid cs = Ret plan"
  shows "set (rp_Locals plan) = {\<lparr>rm_Real = string_of_net cx, rm_Virtual = vx\<rparr> | cx vx.
     cx \<in> set (ParseCIDRList ls) \<and> VirtualCIDR pool lid (string_of_net cx) = Ret vx \<and>
     (\<exists>cy\<in>set cs. \<exists>n. parse_net cy = Some n \<and> cidrsOverlap cx n)}" (is "_ = ?S")
proof -
  obtain st where st: "rp_Locals plan = map (\<lambda>rl. the (map_of (rs_local st) rl)) (sorted_set (map fst (rs_local st)))"
    "\<And>cy. cy \<in> set cs \<Longrightarrow> conflict_done pool lid (ParseCIDRList ls) pid cy st"
    "entries_ok pool lid (ParseCIDRList ls) pid (set cs) st"
    using PlanRemap_state [OF assms] by metis
  have "e \<in> ?S" if "e \<in> set (rp_Locals plan)" for e
  proof -
    from that st(1) obtain rl where rl: "rl \<in> fst ` set (rs_local st)" "e = the (map_of (rs_local st) rl)"
      by auto
    obtain vx where vx: "map_of (rs_local st) rl = Some \<lparr>rm_Real = rl, rm_Virtual = vx\<rparr>"
      using local_lookup [OF st(3) rl(1)] by metis
    then have "local_entry_ok pool lid (ParseCIDRList ls) (set cs) st (rl, \<lparr>rm_Real = rl, rm_Virtual = vx\<rparr>)"
      using st(3) map_of_SomeD unfolding entries_ok_def by fastforce
    then show "e \<in> ?S" using vx rl(2) unfolding local_entry_ok_def by auto
  qed
  moreover have "e \<in> set (rp_Locals plan)" if "e \<in> ?S" for e
  proof -
    from that obtain cx vx cy n where e: "e = \<lparr>rm_Real = string_of_net cx, rm_Virtual = vx\<rparr>"
      "cx \<in> set (ParseCIDRList ls)" "VirtualCIDR pool lid (string_of_net cx) = Ret vx"
      "cy \<in> set cs" "parse_net cy = Some n" "cidrsOverlap cx n" by blast
    then have "(string_of_net cx, e) \<in> set (rs_local st)"
      using st(2) [OF e(4)] unfolding conflict_done_def local_done_def by auto
    then have rl: "string_of_net cx \<in> fst ` set (rs_local st)" by force
    then obtain w where "map_of (rs_local st) (string_of_net cx) = Some \<lparr>rm_Real = string_of_net cx, rm_Virtual = w\<rparr>"
      "VirtualCIDR pool lid (string_of_net cx) = Ret w" using local_lookup [OF st(3)] by metis
    then have "e = the (map_of (rs_local st) (string_of_net cx))" using e by simp
    moreover have "string_of_net cx \<in> set (sorted_set (map fst (rs_local st)))" using rl by simp
    ultimately show ?thesis unfolding st(1) set_map by (rule image_eqI)
  qed
  ultimately show ?thesis by blast
qed

lemma VirtualCIDR_mapped:
  assumes "parse_net pool = Some P" "net_IP P = IP4 base"
    and "parse_net c = Some R" "net_IP R = IP16 a" "To4 (net_IP R) \<noteq> None"
  shows "VirtualCIDR pool cid c = Panic ''runtime error: integer divide by zero''"
proof -
  have "mask_ones (net_Mask P) \<le> 32" "96 \<le> mask_ones (net_Mask R)"
    using parse_net_wf [OF assms(1)] assms(2) mapped_ones [OF parse_net_wf [OF assms(3)]] assms(4,5)
    by (simp_all add: wf_net_def)
  moreover obtain x y where "ParseCIDR pool = Inr (x, P)" "ParseCIDR c = Inr (y, R)"
    using assms(1,3) by (auto simp: parse_net_ParseCIDR)
  ultimately show ?thesis using assms(2,5) by (simp add: VirtualCIDR_def Let_def shl_def)
qed

lemma VirtualCIDR_RetD:
  assumes "VirtualCIDR pool cid c = Ret v" "parse_net pool = Some P" "net_IP P = IP4 base"
  obtains R a where "parse_net c = Some R" "net_IP R = IP4 a" "mask_ones (net_Mask P) \<le> mask_ones (net_Mask R)"
proof -
  obtain x where x: "ParseCIDR pool = Inr (x, P)" using assms(2) by (auto simp: parse_net_ParseCIDR)
  then obtain y R where R: "ParseCIDR c = Inr (y, R)" using assms(1,3)
    by (cases "ParseCIDR c") (auto simp: VirtualCIDR_def Let_def)
  then have ok: "To4 (net_IP R) \<noteq> None" "mask_ones (net_Mask P) \<le> mask_ones (net_Mask R)"
    using assms(1,3) x by (auto simp: VirtualCIDR_def Let_def split: if_splits)
  have pR: "parse_net c = Some R" using R by (auto simp: parse_net_def)
  show thesis
  proof (cases "net_IP R")
    case (IP4 a) then show ?thesis using that pR ok by blast
  next
    case (IP16 a)
    then have "VirtualCIDR pool cid c = Panic ''runtime error: integer divide by zero''"
      using VirtualCIDR_mapped [OF assms(2,3) pR] ok by blast
    then show ?thesis using assms(1) by simp
  qed
qed

lemma same_block:
  assumes "wf_net U" "wf_net V" "net_IP U = IP4 a" "net_IP V = IP4 b" "net_Mask U = net_Mask V" "cidrsOverlap U V"
  shows "U = V"
proof -
  obtain m where m: "U = \<lparr>net_IP = IP4 a, net_Mask = CIDRMask m 32\<rparr>"
    using assms(1,3) by (rule wf_net_IP4)
  then have V: "V = \<lparr>net_IP = IP4 b, net_Mask = CIDRMask m 32\<rparr>" using assms(4,5) by (cases V) simp
  have "drop_bit (32 - m) a = drop_bit (32 - m) b"
    using assms(6) unfolding cidrsOverlap_def m V by (auto simp: Contains_NN4 [OF networkNumber_ip4])
  then have "a AND cidr_mask m = b AND cidr_mask m" by (simp add: net_simps)
  then show ?thesis using assms(1,2) m V by (simp add: wf_net_def)
qed

lemma VirtualCIDR_separate:
  assumes pool: "parse_net pool = Some P" "net_IP P = IP4 base"
    and u: "VirtualCIDR pool c1 r1 = Ret u" "parse_net u = Some U"
    and v: "VirtualCIDR pool c2 r2 = Ret v" "parse_net v = Some V"
    and "u \<noteq> v" "net_Mask U = net_Mask V"
  shows "\<not> cidrsOverlap U V"
proof
  assume ov: "cidrsOverlap U V"
  have ip4: "string_of_net W = w \<and> (\<exists>a. net_IP W = IP4 a)"
    if w: "VirtualCIDR pool cid r = Ret w" "parse_net w = Some W" for cid r w W
  proof -
    from w(1) pool obtain R b where R: "parse_net r = Some R" "net_IP R = IP4 b"
      "mask_ones (net_Mask P) \<le> mask_ones (net_Mask R)" by (rule VirtualCIDR_RetD)
    then have "string_of_net W = w" "net_Mask W = net_Mask R"
      using VirtualCIDR_valid [OF pool R, of cid] w by auto
    moreover have "wf_net W" "wf_net R" using w(2) R(1) parse_net_wf by blast+
    ultimately show ?thesis using R(2) by (cases "net_IP W") (auto simp: wf_net_def)
  qed
  have "U = V"
    using same_block ov assms(8) ip4 [OF u] ip4 [OF v] parse_net_wf [OF u(2)] parse_net_wf [OF v(2)] by blast
  then show False using ip4 [OF u] ip4 [OF v] assms(7) by simp
qed

lemmas remap_eval = VirtualCIDR_def DefaultRemapPool_def hash32_def shl_def uint32ToIP_def

lemma VirtualCIDR_examples:
  "VirtualCIDR ''172.16.0.0/12'' ''b'' ''10.0.0.0/16'' = Ret ''172.18.0.0/16''"
  "VirtualCIDR ''172.16.0.0/12'' ''b'' ''10.96.144.0/20'' = Ret ''172.18.176.0/20''"
  "VirtualCIDR ''172.16.0.0/12'' ''a'' ''10.0.0.0/16'' = Ret ''172.31.0.0/16''"
  by (simp_all add: remap_eval go_eval)

lemma parse_net_examples:
  "ParseCIDR ''10.0.0.0/16'' = Inr (IP16 0xffff0a000000, \<lparr>net_IP = IP4 0x0a000000, net_Mask = CIDRMask 16 32\<rparr>)"
  "ParseCIDR ''10.96.144.0/20'' = Inr (IP16 0xffff0a609000, \<lparr>net_IP = IP4 0x0a609000, net_Mask = CIDRMask 20 32\<rparr>)"
  "parse_net ''172.18.0.0/16'' = Some \<lparr>net_IP = IP4 0xac120000, net_Mask = CIDRMask 16 32\<rparr>"
  "parse_net ''172.31.0.0/16'' = Some \<lparr>net_IP = IP4 0xac1f0000, net_Mask = CIDRMask 16 32\<rparr>"
  "parse_net ''172.18.176.0/20'' = Some \<lparr>net_IP = IP4 0xac12b000, net_Mask = CIDRMask 20 32\<rparr>"
  "parse_net ''172.16.0.0/12'' = Some \<lparr>net_IP = IP4 0xac100000, net_Mask = CIDRMask 12 32\<rparr>"
  by (simp_all add: go_eval)

lemmas plan_remap_eval = PlanRemap_def remap_conflict_def remap_local_def claim_def wrap_err_def
  keysSorted_def sortedRemapKeys_def sorted_set_def cidrsOverlap_def DefaultRemapPool_def
  VirtualCIDR_examples parse_net_examples Let_def

lemma PlanRemap_example:
  "PlanRemap DefaultRemapPool ''a'' [''10.0.0.0/16''] ''b'' [''10.0.0.0/16''] =
     Ret \<lparr>rp_RouteVirtual = [''172.18.0.0/16''],
          rp_Locals = [\<lparr>rm_Real = ''10.0.0.0/16'', rm_Virtual = ''172.31.0.0/16''\<rparr>]\<rparr>"
proof -
  have "string_of_net \<lparr>net_IP = IP4 0x0a000000, net_Mask = CIDRMask 16 32\<rparr> = ''10.0.0.0/16''"
    by (simp add: go_eval)
  then show ?thesis by (simp add: plan_remap_eval Contains_def)
qed

section \<open>Properties of the remap\<close>

text \<open>C30. With an IPv4 pool and an IPv4 range that fits it, the virtual range is
  always computed, its text is the canonical form of a network with the prefix
  length of the real range, and it lies inside the pool: every address of it is
  an address of the pool.\<close>

theorem VirtualCIDR_in_pool:
  assumes "parse_net pool = Some P" "net_IP P = IP4 base" "parse_net c = Some R" "net_IP R = IP4 a"
    and "mask_ones (net_Mask P) \<le> mask_ones (net_Mask R)"
  shows "\<exists>v V. VirtualCIDR pool cid c = Ret v \<and> parse_net v = Some V \<and> string_of_net V = v \<and>
    net_Mask V = net_Mask R \<and> (\<forall>x. Contains V x \<longrightarrow> Contains P x)"
  using assms by (rule VirtualCIDR_valid)

theorem VirtualCIDR_in_pool_witness:
  "\<exists>v V. VirtualCIDR DefaultRemapPool ''east'' ''10.0.0.0/16'' = Ret v \<and> parse_net v = Some V \<and>
    (\<forall>x. Contains V x \<longrightarrow> Contains \<lparr>net_IP = IP4 0xac100000, net_Mask = CIDRMask 12 32\<rparr> x)"
  using VirtualCIDR_in_pool [of DefaultRemapPool "\<lparr>net_IP = IP4 0xac100000, net_Mask = CIDRMask 12 32\<rparr>"
      "0xac100000" "''10.0.0.0/16''" "\<lparr>net_IP = IP4 0x0a000000, net_Mask = CIDRMask 16 32\<rparr>" "0x0a000000" "''east''"]
  by (simp add: DefaultRemapPool_def go_eval) blast

text \<open>A range in IPv4-mapped IPv6 notation, which the IPv4 check accepts,
  makes the computation of a virtual range panic with a division by zero.\<close>

lemma VirtualCIDR_mapped_panics:
  assumes "parse_net pool = Some P" "net_IP P = IP4 base"
    and "parse_net c = Some R" "net_IP R = IP16 a" "To4 (net_IP R) \<noteq> None"
  shows "VirtualCIDR pool cid c = Panic ''runtime error: integer divide by zero''"
  using assms by (rule VirtualCIDR_mapped)

lemma VirtualCIDR_mapped_panics_example:
  "VirtualCIDR ''172.16.0.0/12'' ''east'' ''::ffff:10.0.0.0/120'' = Panic ''runtime error: integer divide by zero''"
  by (rule VirtualCIDR_mapped_panics [of _ "\<lparr>net_IP = IP4 0xac100000, net_Mask = CIDRMask 12 32\<rparr>" "0xac100000" _
      "\<lparr>net_IP = IP16 0xffff0a000000, net_Mask = CIDRMask 120 128\<rparr>" "0xffff0a000000"]) (simp_all add: go_eval)

text \<open>C16. A successful remap plan is exact: the routed virtual ranges are those
  of the well-formed conflicting ranges of the peer, sorted and without
  duplicates; the local pairs are those of the local ranges that share an
  address with one of them, sorted by their real range and without
  duplicates.\<close>

theorem PlanRemap_exact:
  assumes "PlanRemap pool lid localCIDRs pid cs = Ret plan"
  shows "set (rp_RouteVirtual plan) = {v. \<exists>cy\<in>set cs. parse_net cy \<noteq> None \<and> VirtualCIDR pool pid cy = Ret v} \<and>
    sorted (rp_RouteVirtual plan) \<and> distinct (rp_RouteVirtual plan) \<and>
    set (rp_Locals plan) = {\<lparr>rm_Real = string_of_net cx, rm_Virtual = vx\<rparr> | cx vx.
       cx \<in> set (ParseCIDRList localCIDRs) \<and> VirtualCIDR pool lid (string_of_net cx) = Ret vx \<and>
       (\<exists>cy\<in>set cs. \<exists>n. parse_net cy = Some n \<and> cidrsOverlap cx n)} \<and>
    sorted (map rm_Real (rp_Locals plan)) \<and> distinct (map rm_Real (rp_Locals plan))"
proof -
  obtain st where st: "rp_RouteVirtual plan = sorted_set (rs_route st)"
    "rp_Locals plan = map (\<lambda>rl. the (map_of (rs_local st) rl)) (sorted_set (map fst (rs_local st)))"
    "\<And>cy. cy \<in> set cs \<Longrightarrow> conflict_done pool lid (ParseCIDRList localCIDRs) pid cy st"
    "entries_ok pool lid (ParseCIDRList localCIDRs) pid (set cs) st"
    using PlanRemap_state [OF assms] by metis
  have "map (\<lambda>rl. rm_Real (the (map_of (rs_local st) rl))) (sorted_set (map fst (rs_local st)))
      = map id (sorted_set (map fst (rs_local st)))"
  proof (rule map_cong [OF refl])
    fix rl assume "rl \<in> set (sorted_set (map fst (rs_local st)))"
    then have "rl \<in> fst ` set (rs_local st)" by simp
    with st(4) show "rm_Real (the (map_of (rs_local st) rl)) = id rl"
      by (rule local_lookup) simp
  qed
  then have reals: "map rm_Real (rp_Locals plan) = sorted_set (map fst (rs_local st))"
    using st(2) by (simp add: comp_def)
  then show ?thesis using st(1) PlanRemap_routes_set [OF assms] PlanRemap_locals_set [OF assms] by simp
qed

theorem PlanRemap_exact_witness:
  "\<exists>plan. PlanRemap DefaultRemapPool ''a'' [''10.0.0.0/16''] ''b'' [''10.0.0.0/16''] = Ret plan \<and>
     sorted (rp_RouteVirtual plan) \<and> rp_RouteVirtual plan \<noteq> [] \<and>
     sorted (map rm_Real (rp_Locals plan)) \<and> rp_Locals plan \<noteq> []"
  using PlanRemap_exact [OF PlanRemap_example] PlanRemap_example by simp

text \<open>A successful remap plan has no collisions: no two conflicting ranges
  are routed under one virtual range, no two local ranges are presented under
  one, and no virtual range is both routed and presented.\<close>

lemma PlanRemap_collision_free:
  assumes "PlanRemap pool lid localCIDRs pid cs = Ret plan"
  shows "inj_on (VirtualCIDR pool pid) {cy \<in> set cs. parse_net cy \<noteq> None} \<and>
    inj_on rm_Virtual (set (rp_Locals plan)) \<and>
    (\<forall>rm\<in>set (rp_Locals plan). rm_Virtual rm \<notin> set (rp_RouteVirtual plan))"
proof -
  obtain st where st: "rp_RouteVirtual plan = sorted_set (rs_route st)"
    "rp_Locals plan = map (\<lambda>rl. the (map_of (rs_local st) rl)) (sorted_set (map fst (rs_local st)))"
    "\<And>cy. cy \<in> set cs \<Longrightarrow> conflict_done pool lid (ParseCIDRList localCIDRs) pid cy st"
    "entries_ok pool lid (ParseCIDRList localCIDRs) pid (set cs) st"
    using PlanRemap_state [OF assms] by metis
  have loc: "rs_owner st (rm_Virtual rm) = Some (local_source lid (rm_Real rm)) \<and>
      VirtualCIDR pool lid (rm_Real rm) = Ret (rm_Virtual rm)"
    if "rm \<in> set (rp_Locals plan)" for rm
  proof -
    from that obtain rl where rl: "rl \<in> fst ` set (rs_local st)" "rm = the (map_of (rs_local st) rl)"
      unfolding st(2) by auto
    from st(4) rl(1) show ?thesis by (rule local_lookup) (use rl(2) in simp)
  qed
  have rt: "\<exists>cy. rs_owner st v = Some (peer_source pid cy)" if "v \<in> set (rp_RouteVirtual plan)" for v
    using that st(4) unfolding st(1) entries_ok_def route_entry_ok_def by auto
  have "inj_on (VirtualCIDR pool pid) {cy \<in> set cs. parse_net cy \<noteq> None}"
  proof (rule inj_onI, clarify)
    fix c d n m assume "c \<in> set cs" "d \<in> set cs" "parse_net c = Some n" "parse_net d = Some m"
      and eq: "VirtualCIDR pool pid c = VirtualCIDR pool pid d"
    then obtain v w where "VirtualCIDR pool pid c = Ret v" "rs_owner st v = Some (peer_source pid c)"
      "VirtualCIDR pool pid d = Ret w" "rs_owner st w = Some (peer_source pid d)"
      using st(3) unfolding conflict_done_def by meson
    then show "c = d" using eq by simp
  qed
  moreover have "inj_on rm_Virtual (set (rp_Locals plan))"
  proof (rule inj_onI)
    fix x y assume xy: "x \<in> set (rp_Locals plan)" "y \<in> set (rp_Locals plan)" "rm_Virtual x = rm_Virtual y"
    then have "rm_Real x = rm_Real y" using loc [OF xy(1)] loc [OF xy(2)] by simp
    then show "x = y" using xy(3) by simp
  qed
  moreover have "\<forall>rm\<in>set (rp_Locals plan). rm_Virtual rm \<notin> set (rp_RouteVirtual plan)"
    using loc rt by fastforce
  ultimately show ?thesis by blast
qed

lemma PlanRemap_collision_free_example:
  "\<exists>plan. PlanRemap DefaultRemapPool ''a'' [''10.0.0.0/16''] ''b'' [''10.0.0.0/16''] = Ret plan \<and>
     (\<forall>rm\<in>set (rp_Locals plan). rm_Virtual rm \<notin> set (rp_RouteVirtual plan)) \<and> rp_Locals plan \<noteq> []"
  using PlanRemap_collision_free [OF PlanRemap_example] PlanRemap_example by simp

text \<open>Two different virtual ranges of one pool with the same prefix length have
  no address in common, so that equality of text is all that has to be
  compared among ranges of one size.\<close>

lemma VirtualCIDR_same_size_disjoint:
  assumes "parse_net pool = Some P" "net_IP P = IP4 base"
    and "VirtualCIDR pool c1 r1 = Ret u" "parse_net u = Some U"
    and "VirtualCIDR pool c2 r2 = Ret v" "parse_net v = Some V"
    and "u \<noteq> v" "net_Mask U = net_Mask V"
  shows "\<not> cidrsOverlap U V \<and> \<not> (\<exists>x. Contains U x \<and> Contains V x)"
proof -
  have "\<not> cidrsOverlap U V" using assms by (rule VirtualCIDR_separate)
  then show ?thesis
    using overlap_iff_common_address [of U V] parse_net_wf [OF assms(4)] parse_net_wf [OF assms(6)]
    by (auto simp: cidrsOverlap_def)
qed

lemma VirtualCIDR_same_size_disjoint_example:
  "\<not> cidrsOverlap \<lparr>net_IP = IP4 0xac120000, net_Mask = CIDRMask 16 32\<rparr>
                  \<lparr>net_IP = IP4 0xac1f0000, net_Mask = CIDRMask 16 32\<rparr>"
  using VirtualCIDR_same_size_disjoint [OF parse_net_examples(6) _ VirtualCIDR_examples(1) parse_net_examples(3)
      VirtualCIDR_examples(3) parse_net_examples(4)] by simp


end
