(* ===== verification/Topology_Conflicts.thy ===== *)
theory Topology_Conflicts
  imports Topology_Remap
begin

text \<open>
  \<^verbatim>\<open>pkg/topology/conflicts.go\<close>: the validation of the peers a control plane
  advertises.
\<close>

section \<open>Validation of an advertised topology\<close>

record PeerIdentity =
  pi_ClusterID :: string
  pi_PublicKey :: string
  pi_Endpoint :: string
  pi_CIDRs :: "string list"

record TopologyConflict =
  tc_ClusterID :: string
  tc_Reason :: string

definition TopologyConflict_String :: "TopologyConflict \<Rightarrow> string" where
  "TopologyConflict_String c = tc_ClusterID c @ '': '' @ tc_Reason c"

record parsedPeer =
  pp_id :: string
  pp_nets :: "IPNet list"
  pp_order :: nat

definition missingFieldConflicts :: "PeerIdentity \<Rightarrow> nat \<Rightarrow> TopologyConflict list" where
  "missingFieldConflicts p i =
     (if pi_ClusterID p = '''' then
        [\<lparr>tc_ClusterID = ''<peer #'' @ itoa i @ ''>'', tc_Reason = ''missing cluster ID''\<rparr>] else [])
   @ (if pi_PublicKey p = '''' then
        [\<lparr>tc_ClusterID = pi_ClusterID p, tc_Reason = ''missing public key''\<rparr>] else [])
   @ (if pi_Endpoint p = '''' then
        [\<lparr>tc_ClusterID = pi_ClusterID p, tc_Reason = ''missing endpoint''\<rparr>] else [])"

text \<open>The ellipsis is the rune \<^verbatim>\<open>U+2026\<close>, three bytes in UTF-8.\<close>

definition shortKey :: "string \<Rightarrow> string" where
  "shortKey k = (if length k \<le> 8 then k
     else take 8 k @ [char_of (226 :: nat), char_of (128 :: nat), char_of (166 :: nat)])"

type_synonym seen_maps = "string list \<times> (string \<rightharpoonup> string)"

definition identityConflicts ::
  "PeerIdentity \<Rightarrow> seen_maps \<Rightarrow> TopologyConflict list \<times> seen_maps" where
  "identityConflicts p seen =
     (let (seenID, seenKey) = seen;
          outID = (if pi_ClusterID p \<noteq> '''' \<and> pi_ClusterID p \<in> set seenID
                   then [\<lparr>tc_ClusterID = pi_ClusterID p, tc_Reason = ''duplicate cluster ID''\<rparr>] else []);
          seenID' = (if pi_ClusterID p \<noteq> '''' then pi_ClusterID p # seenID else seenID)
      in if pi_PublicKey p \<noteq> '''' then
           (case seenKey (pi_PublicKey p) of
              Some first \<Rightarrow>
                (outID @ [\<lparr>tc_ClusterID = pi_ClusterID p,
                          tc_Reason = ''public key '' @ shortKey (pi_PublicKey p)
                            @ '' also used by cluster '' @ quote first\<rparr>], (seenID', seenKey))
            | None \<Rightarrow> (outID, (seenID', seenKey(pi_PublicKey p \<mapsto> pi_ClusterID p))))
         else (outID, (seenID', seenKey)))"

fun parse_cidrs_of :: "string \<Rightarrow> string list \<Rightarrow> IPNet list \<times> TopologyConflict list" where
  "parse_cidrs_of cid [] = ([], [])"
| "parse_cidrs_of cid (c # cs) =
     (let (nets, out) = parse_cidrs_of cid cs in
      case ParseCIDR c of
        Inl err \<Rightarrow> (nets, \<lparr>tc_ClusterID = cid,
                          tc_Reason = ''invalid CIDR '' @ quote c @ '': '' @ err\<rparr> # out)
      | Inr (_, n) \<Rightarrow> (n # nets, out))"

definition parsePeerCIDRs :: "PeerIdentity \<Rightarrow> nat \<Rightarrow> parsedPeer \<times> TopologyConflict list" where
  "parsePeerCIDRs p order =
     (let (nets, out) = parse_cidrs_of (pi_ClusterID p) (pi_CIDRs p) in
      (\<lparr>pp_id = pi_ClusterID p, pp_nets = nets, pp_order = order\<rparr>, out))"

fun firstOverlap :: "IPNet list \<Rightarrow> IPNet list \<Rightarrow> string" where
  "firstOverlap [] b = ''''"
| "firstOverlap (x # a) b =
     (if list_ex (cidrsOverlap x) b then string_of_net x else firstOverlap a b)"

definition overlap_pair :: "parsedPeer \<Rightarrow> parsedPeer \<Rightarrow> TopologyConflict list" where
  "overlap_pair p q =
     (if pp_id p = pp_id q then []
      else
        let (a, b) = (if pp_id p > pp_id q then (q, p) else (p, q));
            ovl = firstOverlap (pp_nets a) (pp_nets b)
        in if ovl \<noteq> '''' then
             [\<lparr>tc_ClusterID = pp_id a,
               tc_Reason = ''CIDR '' @ ovl @ '' overlaps cluster '' @ quote (pp_id b)\<rparr>]
           else [])"

fun cidrOverlapConflicts :: "parsedPeer list \<Rightarrow> TopologyConflict list" where
  "cidrOverlapConflicts [] = []"
| "cidrOverlapConflicts (p # ps) = concat (map (overlap_pair p) ps) @ cidrOverlapConflicts ps"

fun detect_loop ::
  "nat \<Rightarrow> PeerIdentity list \<Rightarrow> seen_maps \<Rightarrow> TopologyConflict list \<times> parsedPeer list" where
  "detect_loop i [] seen = ([], [])"
| "detect_loop i (p # ps) seen =
     (let (idc, seen') = identityConflicts p seen;
          (pp, cc) = parsePeerCIDRs p i;
          (rest, parsed) = detect_loop (Suc i) ps seen'
      in (missingFieldConflicts p i @ idc @ cc @ rest, pp # parsed))"

definition DetectTopologyConflicts :: "PeerIdentity list \<Rightarrow> TopologyConflict list" where
  "DetectTopologyConflicts peers =
     (let (conflicts, parsed) = detect_loop 0 peers ([], Map.empty) in
      sort_key (\<lambda>c. (tc_ClusterID c, tc_Reason c)) (conflicts @ cidrOverlapConflicts parsed))"

section \<open>What the validation accepts\<close>

lemma string_of_net_not_Nil [simp]: "string_of_net n \<noteq> []"
  by (auto simp: string_of_net_def split: netnum.splits)

lemma cidrsOverlap_sym: "cidrsOverlap a b \<longleftrightarrow> cidrsOverlap b a"
  by (auto simp: cidrsOverlap_def)

lemma firstOverlap_Nil_iff: "firstOverlap a b = [] \<longleftrightarrow> (\<forall>x\<in>set a. \<forall>y\<in>set b. \<not> cidrsOverlap x y)"
  by (induction a) (auto simp: list_ex_iff)

lemma overlap_pair_Nil_iff:
  "overlap_pair p q = [] \<longleftrightarrow> pp_id p = pp_id q \<or>
     (\<forall>x\<in>set (pp_nets p). \<forall>y\<in>set (pp_nets q). \<not> cidrsOverlap x y)"
  unfolding overlap_pair_def Let_def using cidrsOverlap_sym
  by (auto simp: firstOverlap_Nil_iff)

lemma sorted_wrt_sym_refl:
  assumes "\<And>x y. R x y \<Longrightarrow> R y x" "\<And>x. R x x"
  shows "sorted_wrt R xs \<longleftrightarrow> (\<forall>x\<in>set xs. \<forall>y\<in>set xs. R x y)"
  using assms by (induction xs) auto

lemma cidrOverlapConflicts_Nil_iff:
  "cidrOverlapConflicts ps = [] \<longleftrightarrow> (\<forall>p\<in>set ps. \<forall>q\<in>set ps. overlap_pair p q = [])"
proof -
  have "cidrOverlapConflicts ps = [] \<longleftrightarrow> sorted_wrt (\<lambda>p q. overlap_pair p q = []) ps"
    by (induction ps) auto
  also have "\<dots> \<longleftrightarrow> (\<forall>p\<in>set ps. \<forall>q\<in>set ps. overlap_pair p q = [])"
    using cidrsOverlap_sym by (intro sorted_wrt_sym_refl) (auto simp: overlap_pair_Nil_iff)
  finally show ?thesis .
qed

lemma parse_cidrs_of_conv:
  "fst (parse_cidrs_of cid cs) = ParseCIDRList cs"
  "snd (parse_cidrs_of cid cs) = [] \<longleftrightarrow> (\<forall>c\<in>set cs. parse_net c \<noteq> None)"
  by (induction cs) (auto simp: parse_net_def split: sum.splits prod.splits)

lemma parsePeerCIDRs_conv:
  "pp_id (fst (parsePeerCIDRs p i)) = pi_ClusterID p"
  "pp_nets (fst (parsePeerCIDRs p i)) = ParseCIDRList (pi_CIDRs p)"
  "snd (parsePeerCIDRs p i) = [] \<longleftrightarrow> (\<forall>c\<in>set (pi_CIDRs p). parse_net c \<noteq> None)"
  using parse_cidrs_of_conv [of "pi_ClusterID p" "pi_CIDRs p"]
  by (cases "parse_cidrs_of (pi_ClusterID p) (pi_CIDRs p)"; simp add: parsePeerCIDRs_def)+

definition peer_complete :: "PeerIdentity \<Rightarrow> bool" where
  "peer_complete p \<longleftrightarrow> pi_ClusterID p \<noteq> '''' \<and> pi_PublicKey p \<noteq> '''' \<and> pi_Endpoint p \<noteq> '''' \<and>
     (\<forall>c\<in>set (pi_CIDRs p). parse_net c \<noteq> None)"

lemma identityConflicts_Nil_iff:
  "fst (identityConflicts p (ids, keys)) = [] \<longleftrightarrow>
     (pi_ClusterID p = '''' \<or> pi_ClusterID p \<notin> set ids) \<and>
     (pi_PublicKey p = '''' \<or> pi_PublicKey p \<notin> dom keys)"
  by (auto simp: identityConflicts_def Let_def split: option.splits)

lemma identityConflicts_seen:
  assumes "peer_complete p" "pi_PublicKey p \<notin> dom keys"
  shows "snd (identityConflicts p (ids, keys)) =
    (pi_ClusterID p # ids, keys(pi_PublicKey p \<mapsto> pi_ClusterID p))"
  using assms by (auto simp: identityConflicts_def peer_complete_def Let_def split: option.splits)

lemma detect_loop_Cons:
  "fst (detect_loop i (p # ps) seen) = missingFieldConflicts p i @ fst (identityConflicts p seen)
     @ snd (parsePeerCIDRs p i) @ fst (detect_loop (Suc i) ps (snd (identityConflicts p seen)))"
  "snd (detect_loop i (p # ps) seen) =
     fst (parsePeerCIDRs p i) # snd (detect_loop (Suc i) ps (snd (identityConflicts p seen)))"
  by (simp_all add: Let_def split_beta)

lemma detect_loop_conflicts:
  "fst (detect_loop i ps (ids, keys)) = [] \<longleftrightarrow>
     (\<forall>p\<in>set ps. peer_complete p) \<and>
     distinct (map pi_ClusterID ps) \<and> set (map pi_ClusterID ps) \<inter> set ids = {} \<and>
     distinct (map pi_PublicKey ps) \<and> set (map pi_PublicKey ps) \<inter> dom keys = {}"
proof (induction ps arbitrary: i ids keys)
  case (Cons p ps)
  let ?here = "missingFieldConflicts p i = [] \<and> fst (identityConflicts p (ids, keys)) = []
    \<and> snd (parsePeerCIDRs p i) = []"
  have here: "?here \<longleftrightarrow> peer_complete p \<and> pi_ClusterID p \<notin> set ids \<and> pi_PublicKey p \<notin> dom keys"
    by (auto simp: identityConflicts_Nil_iff parsePeerCIDRs_conv missingFieldConflicts_def peer_complete_def)
  show ?case
  proof (cases ?here)
    case True
    then have "snd (identityConflicts p (ids, keys)) = (pi_ClusterID p # ids, keys(pi_PublicKey p \<mapsto> pi_ClusterID p))"
      using here identityConflicts_seen by blast
    then show ?thesis
      using True here by (auto simp: detect_loop_Cons Cons.IH disjoint_iff domIff image_iff simp del: detect_loop.simps split: if_splits)
  next
    case False
    then have "fst (detect_loop i (p # ps) (ids, keys)) \<noteq> []"
      by (auto simp: detect_loop_Cons simp del: detect_loop.simps)
    then show ?thesis using here False by auto
  qed
qed simp

lemma detect_loop_parsed:
  "map (\<lambda>p. (pp_id p, pp_nets p)) (snd (detect_loop i ps seen)) =
   map (\<lambda>p. (pi_ClusterID p, ParseCIDRList (pi_CIDRs p))) ps"
  by (induction ps arbitrary: i seen)
    (simp_all add: detect_loop_Cons parsePeerCIDRs_conv del: detect_loop.simps(2))

lemma overlap_free_iff:
  "cidrOverlapConflicts (snd (detect_loop i ps seen)) = [] \<longleftrightarrow>
   (\<forall>p\<in>set ps. \<forall>q\<in>set ps. pi_ClusterID p = pi_ClusterID q \<or>
      (\<forall>x\<in>set (ParseCIDRList (pi_CIDRs p)). \<forall>y\<in>set (ParseCIDRList (pi_CIDRs q)). \<not> cidrsOverlap x y))"
proof -
  let ?f = "\<lambda>p. (pp_id p, pp_nets p)" and ?g = "\<lambda>p. (pi_ClusterID p, ParseCIDRList (pi_CIDRs p))"
  let ?R = "\<lambda>(a, ns) (b, ms). a = b \<or> (\<forall>x\<in>set ns. \<forall>y\<in>set ms. \<not> cidrsOverlap x y)"
  have img: "?f ` set (snd (detect_loop i ps seen)) = ?g ` set ps"
    using arg_cong [OF detect_loop_parsed, of set] by simp
  have "cidrOverlapConflicts qs = [] \<longleftrightarrow> (\<forall>a\<in>?f ` set qs. \<forall>b\<in>?f ` set qs. ?R a b)" for qs
    by (simp add: cidrOverlapConflicts_Nil_iff overlap_pair_Nil_iff)
  note this [of "snd (detect_loop i ps seen)", unfolded img]
  then show ?thesis by simp
qed

text \<open>The contract of the validation: what a topology without conflicts is.\<close>

definition topology_sound :: "PeerIdentity list \<Rightarrow> bool" where
  "topology_sound peers \<longleftrightarrow>
     (\<forall>p\<in>set peers. peer_complete p) \<and>
     distinct (map pi_ClusterID peers) \<and> distinct (map pi_PublicKey peers) \<and>
     (\<forall>p\<in>set peers. \<forall>q\<in>set peers. p \<noteq> q \<longrightarrow>
        \<not> (\<exists>n\<in>set (ParseCIDRList (pi_CIDRs p)). \<exists>m\<in>set (ParseCIDRList (pi_CIDRs q)).
             \<exists>x. Contains n x \<and> Contains m x))"

lemma DetectTopologyConflicts_Nil_iff:
  "DetectTopologyConflicts peers = [] \<longleftrightarrow> topology_sound peers"
proof -
  let ?L = "detect_loop 0 peers ([], Map.empty)"
  have "DetectTopologyConflicts peers = [] \<longleftrightarrow> fst ?L @ cidrOverlapConflicts (snd ?L) = []"
    unfolding DetectTopologyConflicts_def by (metis (no_types, lifting) length_0_conv length_sort split_beta)
  then have iff: "DetectTopologyConflicts peers = [] \<longleftrightarrow> fst ?L = [] \<and> cidrOverlapConflicts (snd ?L) = []"
    by simp
  have common: "cidrsOverlap x y \<longleftrightarrow> (\<exists>z. Contains x z \<and> Contains y z)"
    if "x \<in> set (ParseCIDRList a)" "y \<in> set (ParseCIDRList b)" for x y a b
    using that ParseCIDRList_wf unfolding cidrsOverlap_def by (intro overlap_iff_common_address) blast+
  show ?thesis
  proof (cases "distinct (map pi_ClusterID peers)")
    case True
    then have "pi_ClusterID p = pi_ClusterID q \<longleftrightarrow> p = q" if "p \<in> set peers" "q \<in> set peers" for p q
      using that by (auto simp: distinct_map inj_on_def)
    then show ?thesis
      unfolding topology_sound_def iff detect_loop_conflicts overlap_free_iff
      using True common by (simp cong: ball_cong) blast
  next
    case False
    then show ?thesis unfolding topology_sound_def iff detect_loop_conflicts by simp
  qed
qed

text \<open>C28. The validation reports nothing exactly when every peer has an identifier, a
  key, an endpoint and well-formed ranges, identifiers and keys are unique, and
  no address belongs to ranges of two peers.\<close>

theorem DetectTopologyConflicts_complete:
  "DetectTopologyConflicts peers = [] \<longleftrightarrow> topology_sound peers"
  by (rule DetectTopologyConflicts_Nil_iff)
end
