(* ===== verification/Meshfw_Plan.thy ===== *)
theory Meshfw_Plan
  imports Go_Net
begin

text \<open>
  \<^verbatim>\<open>pkg/meshfw/plan.go\<close> and \<^verbatim>\<open>interpret.go\<close>: the compiler from mesh network
  policies to an iptables chain, and the reader that turns a compiled chain
  back into decisions. The compiled chain is given its meaning by a first-match
  packet semantics, and the compiler is proved against the policy semantics of
  the package comment: a destination selected by a policy is default-deny,
  reachable by the union of the allow rules, established flows always pass, and
  destinations no policy selects are left alone.
\<close>

section \<open>Inputs and outputs\<close>

definition TableFilter :: string where "TableFilter = ''filter''"
definition FWChain :: string where "FWChain = ''DWX-MESH-FW''"
definition FWChainGuard :: string where "FWChainGuard = ''DWX-MESH-FW-GUARD''"

record Rule =
  ru_Chain :: string
  ru_Args :: "string list"

record Ruleset =
  rs_Rules :: "Rule list"
  rs_Skipped :: "string list"

record Port =
  po_Protocol :: string
  po_Port :: int

record PeerSelector =
  ps_ClusterIDs :: "string list"
  ps_CIDRs :: "string list"

record IngressRule =
  ir_From :: "PeerSelector list"
  ir_Ports :: "Port list"

record Policy =
  pc_Name :: string
  pc_Destinations :: "string list"
  pc_Ingress :: "IngressRule list"

record acceptKey =
  ak_src :: string
  ak_dst :: string
  ak_proto :: string
  ak_port :: string

record fwBuilder =
  fb_accepts :: "acceptKey list"
  fb_protectedDest :: "string list"
  fb_skipped :: "string list"

section \<open>The compiler\<close>

definition isIPv4CIDR :: "string \<Rightarrow> bool" where
  "isIPv4CIDR c = (case ParseCIDR c of Inl _ \<Rightarrow> False | Inr (x, _) \<Rightarrow> To4 x \<noteq> None)"

definition normalizeProto :: "string \<Rightarrow> string" where
  "normalizeProto p = (let q = to_lower (trim_space p) in if q = '''' then ''tcp'' else q)"

definition portStr :: "int \<Rightarrow> string" where
  "portStr p = itoa_int p"

definition dedupe :: "string list \<Rightarrow> string list" where
  "dedupe xs = remdups_adj xs"

fun resolveSources :: "PeerSelector list \<Rightarrow> (string \<Rightarrow> string list) \<Rightarrow> string list" where
  "resolveSources [] clusterCIDRs = []"
| "resolveSources (sel # from) clusterCIDRs =
     concat (map clusterCIDRs (ps_ClusterIDs sel)) @ ps_CIDRs sel @ resolveSources from clusterCIDRs"

fun keepIPv4 :: "string list \<Rightarrow> string \<Rightarrow> fwBuilder \<Rightarrow> string list \<times> fwBuilder" where
  "keepIPv4 [] kind b = ([], b)"
| "keepIPv4 (c # cs) kind b =
     (if c = '''' then keepIPv4 cs kind b
      else if \<not> isIPv4CIDR c then
        keepIPv4 cs kind (b\<lparr>fb_skipped := fb_skipped b @ [kind @ '':'' @ c]\<rparr>)
      else let (out, b') = keepIPv4 cs kind b in (c # out, b'))"

definition addAccept :: "string \<Rightarrow> string \<Rightarrow> Port list \<Rightarrow> fwBuilder \<Rightarrow> fwBuilder" where
  "addAccept src dst ports b =
     (if ports = [] then
        b\<lparr>fb_accepts := \<lparr>ak_src = src, ak_dst = dst, ak_proto = '''', ak_port = ''''\<rparr> # fb_accepts b\<rparr>
      else
        fold (\<lambda>pt b. b\<lparr>fb_accepts := \<lparr>ak_src = src, ak_dst = dst, ak_proto = normalizeProto (po_Protocol pt),
                                     ak_port = portStr (po_Port pt)\<rparr> # fb_accepts b\<rparr>) ports b)"

definition addIngress ::
  "(string \<Rightarrow> string list) \<Rightarrow> string list \<Rightarrow> IngressRule \<Rightarrow> fwBuilder \<Rightarrow> fwBuilder" where
  "addIngress clusterCIDRs dests ing b =
     (let (srcs, b) = keepIPv4 (resolveSources (ir_From ing) clusterCIDRs) ''from'' b in
      fold (\<lambda>d b. fold (\<lambda>s b. addAccept s d (ir_Ports ing) b) srcs b) dests b)"

definition addPolicy :: "(string \<Rightarrow> string list) \<Rightarrow> Policy \<Rightarrow> fwBuilder \<Rightarrow> fwBuilder" where
  "addPolicy clusterCIDRs p b =
     (let (dests, b) = keepIPv4 (pc_Destinations p) ''dest'' b in
      if pc_Destinations p \<noteq> [] \<and> dests = [] then b
      else
        let dests = (if pc_Destinations p = [] then [''''] else dests);
            b = fold (\<lambda>d b. b\<lparr>fb_protectedDest := d # fb_protectedDest b\<rparr>) dests b
        in fold (addIngress clusterCIDRs dests) (pc_Ingress p) b)"

definition acceptArgs :: "string \<Rightarrow> string \<Rightarrow> string \<Rightarrow> string \<Rightarrow> string list" where
  "acceptArgs src dst proto port =
     (if src \<noteq> '''' then [''-s'', src] else []) @
     (if dst \<noteq> '''' then [''-d'', dst] else []) @
     (if proto \<noteq> '''' then [''-p'', proto] @ (if port \<noteq> '''' then [''-m'', proto, ''--dport'', port] else []) else []) @
     [''-j'', ''ACCEPT'']"

definition dropArgs :: "string \<Rightarrow> string list" where
  "dropArgs dst = (if dst = '''' then [''-j'', ''DROP''] else [''-d'', dst, ''-j'', ''DROP''])"

text \<open>\<^verbatim>\<open>lessAccept\<close> and \<^verbatim>\<open>lessDest\<close> as sort keys.\<close>

definition lessAccept_key :: "acceptKey \<Rightarrow> string \<times> string \<times> string \<times> string" where
  "lessAccept_key k = (ak_dst k, ak_src k, ak_proto k, ak_port k)"

definition lessDest_key :: "string \<Rightarrow> bool \<times> string" where
  "lessDest_key d = (d = '''', d)"

definition conntrackArgs :: "string list" where
  "conntrackArgs = [''-m'', ''conntrack'', ''--ctstate'', ''RELATED,ESTABLISHED'', ''-j'', ''ACCEPT'']"

definition ruleset :: "fwBuilder \<Rightarrow> Ruleset" where
  "ruleset b =
     (let keys = sort_key lessAccept_key (remdups (fb_accepts b));
          dests = sort_key lessDest_key (remdups (fb_protectedDest b))
      in \<lparr>rs_Rules =
            [\<lparr>ru_Chain = FWChain, ru_Args = conntrackArgs\<rparr>]
            @ map (\<lambda>k. \<lparr>ru_Chain = FWChain,
                        ru_Args = acceptArgs (ak_src k) (ak_dst k) (ak_proto k) (ak_port k)\<rparr>) keys
            @ map (\<lambda>d. \<lparr>ru_Chain = FWChain, ru_Args = dropArgs d\<rparr>) dests,
          rs_Skipped = dedupe (sort (fb_skipped b))\<rparr>)"

definition BuildFirewall :: "Policy list \<Rightarrow> (string \<Rightarrow> string list) \<Rightarrow> Ruleset" where
  "BuildFirewall policies clusterCIDRs =
     ruleset (fold (addPolicy clusterCIDRs) policies
       \<lparr>fb_accepts = [], fb_protectedDest = [], fb_skipped = []\<rparr>)"

section \<open>The reader\<close>

record Access =
  ac_Source :: string
  ac_Dest :: string
  ac_Protocol :: string
  ac_Port :: string

record Decisions =
  de_Accepts :: "Access list"
  de_Protected :: "string list"

definition hasArg :: "string list \<Rightarrow> string \<Rightarrow> bool" where
  "hasArg args want \<longleftrightarrow> list_ex (\<lambda>a. a = want) args"

fun argValue :: "string list \<Rightarrow> string \<Rightarrow> string" where
  "argValue (a # b # args) flag = (if a = flag then b else argValue (b # args) flag)"
| "argValue _ flag = ''''"

definition interpret_rule :: "Rule \<Rightarrow> Decisions \<Rightarrow> Decisions" where
  "interpret_rule r d =
     (if ru_Args r = [] \<or> hasArg (ru_Args r) ''conntrack'' then d
      else if last (ru_Args r) = ''ACCEPT'' then
        let a = \<lparr>ac_Source = argValue (ru_Args r) ''-s'', ac_Dest = argValue (ru_Args r) ''-d'',
                 ac_Protocol = argValue (ru_Args r) ''-p'', ac_Port = argValue (ru_Args r) ''--dport''\<rparr>
        in if a \<in> set (de_Accepts d) then d else d\<lparr>de_Accepts := de_Accepts d @ [a]\<rparr>
      else if last (ru_Args r) = ''DROP'' then
        let dst = argValue (ru_Args r) ''-d''
        in if dst \<in> set (de_Protected d) then d else d\<lparr>de_Protected := de_Protected d @ [dst]\<rparr>
      else d)"

definition Interpret :: "Ruleset \<Rightarrow> Decisions" where
  "Interpret rs = fold interpret_rule (rs_Rules rs) \<lparr>de_Accepts = [], de_Protected = []\<rparr>"

section \<open>Packets\<close>

text \<open>First-match semantics of a chain on IPv4 packets, for the matches and targets
  the compiler emits.\<close>

record packet =
  pk_src :: "32 word"
  pk_dst :: "32 word"
  pk_proto :: string
  pk_dport :: nat
  pk_established :: bool

datatype verdict = VAccept | VDrop | VReturn

definition cidr_matches :: "string \<Rightarrow> 32 word \<Rightarrow> bool" where
  "cidr_matches c a = (case parse_net c of None \<Rightarrow> False | Some n \<Rightarrow> Contains n (IP4 a))"

text \<open>\<^verbatim>\<open>None\<close> when a match fails or is not understood, otherwise the target.\<close>

fun rule_target :: "string list \<Rightarrow> packet \<Rightarrow> string option" where
  "rule_target [] p = None"
| "rule_target [a] p = None"
| "rule_target (a # b # args) p =
     (if a = ''-s'' then (if cidr_matches b (pk_src p) then rule_target args p else None)
      else if a = ''-d'' then (if cidr_matches b (pk_dst p) then rule_target args p else None)
      else if a = ''-p'' then (if b = pk_proto p then rule_target args p else None)
      else if a = ''--dport'' then (if b = itoa (pk_dport p) then rule_target args p else None)
      else if a = ''--ctstate'' then
        (if b = ''RELATED,ESTABLISHED'' \<and> pk_established p then rule_target args p else None)
      else if a = ''-m'' then rule_target args p
      else if a = ''-j'' then Some b
      else None)"

fun chain_verdict :: "string list list \<Rightarrow> packet \<Rightarrow> verdict" where
  "chain_verdict [] p = VReturn"
| "chain_verdict (r # rs) p =
     (case rule_target r p of
        Some t \<Rightarrow> if t = ''ACCEPT'' then VAccept else if t = ''DROP'' then VDrop else chain_verdict rs p
      | None \<Rightarrow> chain_verdict rs p)"

text \<open>The policy semantics: what a set of policies says of a packet.\<close>

definition policy_dests :: "Policy \<Rightarrow> string list" where
  "policy_dests pol = (if pc_Destinations pol = [] then ['''']
     else filter (\<lambda>c. c \<noteq> '''' \<and> isIPv4CIDR c) (pc_Destinations pol))"

definition dest_matches :: "string \<Rightarrow> packet \<Rightarrow> bool" where
  "dest_matches d p \<longleftrightarrow> d = '''' \<or> cidr_matches d (pk_dst p)"

definition port_matches :: "Port list \<Rightarrow> packet \<Rightarrow> bool" where
  "port_matches ports p \<longleftrightarrow> ports = [] \<or>
     (\<exists>pt\<in>set ports. normalizeProto (po_Protocol pt) = pk_proto p \<and> po_Port pt = int (pk_dport p))"

definition ingress_allows :: "(string \<Rightarrow> string list) \<Rightarrow> IngressRule \<Rightarrow> packet \<Rightarrow> bool" where
  "ingress_allows cl ing p \<longleftrightarrow>
     (\<exists>s\<in>set (resolveSources (ir_From ing) cl). isIPv4CIDR s \<and> cidr_matches s (pk_src p)) \<and>
     port_matches (ir_Ports ing) p"

definition selects :: "Policy \<Rightarrow> packet \<Rightarrow> bool" where
  "selects pol p \<longleftrightarrow> (\<exists>d\<in>set (policy_dests pol). dest_matches d p)"

definition policy_verdict :: "Policy list \<Rightarrow> (string \<Rightarrow> string list) \<Rightarrow> packet \<Rightarrow> verdict" where
  "policy_verdict pols cl p =
     (if pk_established p then VAccept
      else if \<exists>pol\<in>set pols. selects pol p \<and> (\<exists>ing\<in>set (pc_Ingress pol). ingress_allows cl ing p) then VAccept
      else if \<exists>pol\<in>set pols. selects pol p then VDrop
      else VReturn)"

section \<open>What the builder accumulates\<close>

abbreviation kept :: "string list \<Rightarrow> string list" where
  "kept cs \<equiv> filter (\<lambda>c. c \<noteq> '''' \<and> isIPv4CIDR c) cs"

abbreviation skips :: "string \<Rightarrow> string list \<Rightarrow> string list" where
  "skips kind cs \<equiv> map (\<lambda>c. kind @ '':'' @ c) (filter (\<lambda>c. c \<noteq> '''' \<and> \<not> isIPv4CIDR c) cs)"

lemma keepIPv4_conv:
  "keepIPv4 cs kind b = (kept cs, b\<lparr>fb_skipped := fb_skipped b @ skips kind cs\<rparr>)"
  by (induction cs kind b rule: keepIPv4.induct) simp_all

definition port_keys :: "string \<Rightarrow> string \<Rightarrow> Port list \<Rightarrow> acceptKey set" where
  "port_keys s d ports =
     (if ports = [] then {\<lparr>ak_src = s, ak_dst = d, ak_proto = '''', ak_port = ''''\<rparr>}
      else (\<lambda>pt. \<lparr>ak_src = s, ak_dst = d, ak_proto = normalizeProto (po_Protocol pt),
                  ak_port = portStr (po_Port pt)\<rparr>) ` set ports)"

definition ingress_keys :: "(string \<Rightarrow> string list) \<Rightarrow> string list \<Rightarrow> IngressRule \<Rightarrow> acceptKey set" where
  "ingress_keys cl dests ing =
     (\<Union>d\<in>set dests. \<Union>s\<in>set (kept (resolveSources (ir_From ing) cl)). port_keys s d (ir_Ports ing))"

definition policy_keys :: "(string \<Rightarrow> string list) \<Rightarrow> Policy \<Rightarrow> acceptKey set" where
  "policy_keys cl p = (\<Union>ing\<in>set (pc_Ingress p). ingress_keys cl (policy_dests p) ing)"

definition policy_skips :: "(string \<Rightarrow> string list) \<Rightarrow> Policy \<Rightarrow> string set" where
  "policy_skips cl p = set (skips ''dest'' (pc_Destinations p)) \<union>
     (if policy_dests p = [] then {}
      else \<Union>ing\<in>set (pc_Ingress p). set (skips ''from'' (resolveSources (ir_From ing) cl)))"

text \<open>The three sets a builder holds.\<close>

definition fb_sets :: "fwBuilder \<Rightarrow> acceptKey set \<times> string set \<times> string set" where
  "fb_sets b = (set (fb_accepts b), set (fb_protectedDest b), set (fb_skipped b))"

lemma fold_accepts:
  "fb_sets (fold (\<lambda>x b. b\<lparr>fb_accepts := f x # fb_accepts b\<rparr>) xs b) =
   (set (fb_accepts b) \<union> f ` set xs, set (fb_protectedDest b), set (fb_skipped b))"
  by (induction xs arbitrary: b) (auto simp: fb_sets_def)

lemma fold_protected:
  "fb_sets (fold (\<lambda>d b. b\<lparr>fb_protectedDest := d # fb_protectedDest b\<rparr>) ds b) =
   (set (fb_accepts b), set (fb_protectedDest b) \<union> set ds, set (fb_skipped b))"
  by (induction ds arbitrary: b) (auto simp: fb_sets_def)

lemma addAccept_sets:
  "fb_sets (addAccept s d ports b) = (case fb_sets b of (A, P, S) \<Rightarrow> (A \<union> port_keys s d ports, P, S))"
proof (cases "ports = []")
  case False
  then show ?thesis
    unfolding addAccept_def using fold_accepts by (simp add: port_keys_def fb_sets_def)
qed (simp add: addAccept_def port_keys_def fb_sets_def)

text \<open>A step that adds fixed sets to the builder adds their unions when it is iterated.\<close>

lemma fold_sets:
  assumes "\<And>x b. x \<in> set xs \<Longrightarrow> fb_sets (f x b) = (case fb_sets b of (A, P, S) \<Rightarrow> (A \<union> g x, P \<union> h x, S \<union> k x))"
  shows "fb_sets (fold f xs b) = (case fb_sets b of (A, P, S) \<Rightarrow>
    (A \<union> (\<Union>x\<in>set xs. g x), P \<union> (\<Union>x\<in>set xs. h x), S \<union> (\<Union>x\<in>set xs. k x)))"
  using assms by (induction xs arbitrary: b) (auto split: prod.splits)

lemma addIngress_sets:
  "fb_sets (addIngress cl dests ing b) = (case fb_sets b of (A, P, S) \<Rightarrow>
     (A \<union> ingress_keys cl dests ing, P, S \<union> set (skips ''from'' (resolveSources (ir_From ing) cl))))"
proof -
  have inner: "fb_sets (fold (\<lambda>s b. addAccept s d (ir_Ports ing) b) ss b) = (case fb_sets b of (A, P, S) \<Rightarrow>
      (A \<union> (\<Union>s\<in>set ss. port_keys s d (ir_Ports ing)), P, S))" for d ss b
    by (subst fold_sets [where g = "\<lambda>s. port_keys s d (ir_Ports ing)" and h = "\<lambda>_. {}" and k = "\<lambda>_. {}"])
      (simp_all add: addAccept_sets)
  show ?thesis
    unfolding addIngress_def keepIPv4_conv Let_def prod.case ingress_keys_def
    by (subst fold_sets [where h = "\<lambda>_. {}" and k = "\<lambda>_. {}"
          and g = "\<lambda>d. \<Union>s\<in>set (kept (resolveSources (ir_From ing) cl)). port_keys s d (ir_Ports ing)"])
      (simp_all add: inner, simp add: fb_sets_def)
qed

lemma addPolicy_sets:
  "fb_sets (addPolicy cl p b) = (case fb_sets b of (A, P, S) \<Rightarrow>
     (A \<union> policy_keys cl p, P \<union> set (policy_dests p), S \<union> policy_skips cl p))"
proof (cases "pc_Destinations p \<noteq> [] \<and> kept (pc_Destinations p) = []")
  case True
  then have "policy_dests p = []" by (simp add: policy_dests_def)
  then show ?thesis
    using True by (auto simp: addPolicy_def keepIPv4_conv Let_def fb_sets_def policy_keys_def
        policy_skips_def ingress_keys_def)
next
  case False
  then have ne: "policy_dests p \<noteq> []" and
    eq: "(if pc_Destinations p = [] then [''''] else kept (pc_Destinations p)) = policy_dests p"
    by (auto simp: policy_dests_def)
  define b1 where "b1 = b\<lparr>fb_skipped := fb_skipped b @ skips ''dest'' (pc_Destinations p)\<rparr>"
  define b2 where "b2 = fold (\<lambda>d b. b\<lparr>fb_protectedDest := d # fb_protectedDest b\<rparr>) (policy_dests p) b1"
  have fold: "addPolicy cl p b = fold (addIngress cl (policy_dests p)) (pc_Ingress p) b2"
    unfolding addPolicy_def keepIPv4_conv Let_def prod.case eq b2_def b1_def by (rule if_not_P [OF False])
  have sets: "fb_sets (fold (addIngress cl (policy_dests p)) (pc_Ingress p) b2) = (case fb_sets b2 of (A, P, S) \<Rightarrow>
      (A \<union> policy_keys cl p, P \<union> (\<Union>ing\<in>set (pc_Ingress p). {}),
       S \<union> (\<Union>ing\<in>set (pc_Ingress p). set (skips ''from'' (resolveSources (ir_From ing) cl)))))"
    unfolding policy_keys_def by (rule fold_sets) (simp only: addIngress_sets Un_empty_right)
  show ?thesis
    unfolding fold sets unfolding b2_def fold_protected using ne by (simp add: policy_skips_def fb_sets_def b1_def Un_assoc)
qed

lemma builder_sets:
  "fb_sets (fold (addPolicy cl) pols \<lparr>fb_accepts = [], fb_protectedDest = [], fb_skipped = []\<rparr>) =
   ((\<Union>p\<in>set pols. policy_keys cl p), (\<Union>p\<in>set pols. set (policy_dests p)), (\<Union>p\<in>set pols. policy_skips cl p))"
  by (subst fold_sets [where g = "policy_keys cl" and h = "\<lambda>p. set (policy_dests p)" and k = "policy_skips cl"])
    (simp_all add: addPolicy_sets, simp add: fb_sets_def)

section \<open>The compiled chain\<close>

definition firewall_keys :: "(string \<Rightarrow> string list) \<Rightarrow> Policy list \<Rightarrow> acceptKey list" where
  "firewall_keys cl pols = fb_accepts (fold (addPolicy cl) pols
     \<lparr>fb_accepts = [], fb_protectedDest = [], fb_skipped = []\<rparr>)"

lemma inj_lessAccept_key: "inj lessAccept_key"
  by (rule injI) (simp add: lessAccept_key_def)

lemma inj_lessDest_key: "inj lessDest_key"
  by (rule injI) (simp add: lessDest_key_def)

lemma sort_key_remdups_cong:
  assumes "inj k" "set xs = set ys"
  shows "sort_key k (remdups xs) = sort_key k (remdups ys)"
proof (rule go_slice.srt_perm_invariant)
  show "inj_on k (set (remdups xs))" using assms(1) by (rule inj_on_subset) simp
  show "mset (remdups xs) = mset (remdups ys)" using assms(2) by (simp add: set_eq_iff_mset_remdups_eq)
qed

lemma distinct_remdups_adj_sorted: "sorted xs \<Longrightarrow> distinct (remdups_adj xs)"
  for xs :: "'a::linorder list"
  by (induction xs rule: remdups_adj.induct) auto

lemma remdups_adj_sort_cong:
  fixes xs ys :: "'a::linorder list"
  assumes "set xs = set ys"
  shows "remdups_adj (sort xs) = remdups_adj (sort ys)"
proof -
  have "sorted (remdups_adj (sort zs))" "distinct (remdups_adj (sort zs))" for zs :: "'a list"
    by (simp_all add: sorted_remdups_adj distinct_remdups_adj_sorted)
  then show ?thesis using assms by (intro sorted_distinct_set_unique) simp_all
qed

lemma ruleset_cong:
  assumes "fb_sets b = fb_sets b'"
  shows "ruleset b = ruleset b'"
proof -
  have "set (fb_accepts b) = set (fb_accepts b')" "set (fb_protectedDest b) = set (fb_protectedDest b')"
    "set (fb_skipped b) = set (fb_skipped b')"
    using assms by (simp_all add: fb_sets_def)
  note sort_key_remdups_cong [OF inj_lessAccept_key this(1)] sort_key_remdups_cong [OF inj_lessDest_key this(2)]
    remdups_adj_sort_cong [OF this(3)]
  then show ?thesis by (simp only: ruleset_def dedupe_def)
qed

lemma BuildFirewall_cong: "set ps = set qs \<Longrightarrow> BuildFirewall ps cl = BuildFirewall qs cl"
  unfolding BuildFirewall_def by (rule ruleset_cong) (simp add: builder_sets)

lemma normalizeProto_not_Nil [simp]: "normalizeProto p \<noteq> []"
  by (simp add: normalizeProto_def Let_def)

lemma portStr_not_Nil [simp]: "portStr p \<noteq> []"
  by (simp add: portStr_def itoa_int_def)

lemma portStr_itoa: "portStr i = itoa n \<longleftrightarrow> i = int n"
proof -
  have "CHR ''-'' # xs \<noteq> itoa n" for xs
  proof
    assume "CHR ''-'' # xs = itoa n"
    then have "is_digit (CHR ''-'')" using itoa_digits [of n] by (metis list.pred_inject(2))
    then show False by (simp add: is_digit_def)
  qed
  then show ?thesis by (auto simp: portStr_def itoa_int_def itoa_inj)
qed

lemma rule_target_accept:
  "rule_target (acceptArgs s d pr po) p =
     (if (s = '''' \<or> cidr_matches s (pk_src p)) \<and> (d = '''' \<or> cidr_matches d (pk_dst p)) \<and>
         (pr = '''' \<or> pr = pk_proto p \<and> (po = '''' \<or> po = itoa (pk_dport p)))
      then Some ''ACCEPT'' else None)"
  by (simp add: acceptArgs_def)

lemma rule_target_drop:
  "rule_target (dropArgs d) p = (if dest_matches d p then Some ''DROP'' else None)"
  by (simp add: dropArgs_def dest_matches_def)

lemma rule_target_conntrack:
  "rule_target conntrackArgs p = (if pk_established p then Some ''ACCEPT'' else None)"
  by (simp add: conntrackArgs_def)

lemma chain_accepts:
  assumes "\<And>x. x \<in> set xs \<Longrightarrow> rule_target (f x) p = (if P x then Some ''ACCEPT'' else None)"
  shows "chain_verdict (map f xs @ rest) p = (if \<exists>x\<in>set xs. P x then VAccept else chain_verdict rest p)"
  using assms by (induction xs) auto

lemma chain_drops:
  "chain_verdict (map dropArgs ds) p = (if \<exists>d\<in>set ds. dest_matches d p then VDrop else VReturn)"
  by (induction ds) (auto simp: rule_target_drop)

definition key_allows :: "acceptKey \<Rightarrow> packet \<Rightarrow> bool" where
  "key_allows k p \<longleftrightarrow> (ak_src k = '''' \<or> cidr_matches (ak_src k) (pk_src p)) \<and> dest_matches (ak_dst k) p \<and>
     (ak_proto k = '''' \<or> ak_proto k = pk_proto p \<and> (ak_port k = '''' \<or> ak_port k = itoa (pk_dport p)))"

lemma port_keys_allow:
  assumes "s \<noteq> ''''"
  shows "(\<exists>k\<in>port_keys s d ports. key_allows k p) \<longleftrightarrow>
    cidr_matches s (pk_src p) \<and> dest_matches d p \<and> port_matches ports p"
  using assms by (auto simp: port_keys_def key_allows_def port_matches_def portStr_itoa)

lemma isIPv4CIDR_not_Nil: "isIPv4CIDR s \<Longrightarrow> s \<noteq> ''''"
  by (auto simp: isIPv4CIDR_def ParseCIDR_def cut_def)

lemma policy_keys_allow:
  "(\<exists>k\<in>policy_keys cl pol. key_allows k p) \<longleftrightarrow>
     selects pol p \<and> (\<exists>ing\<in>set (pc_Ingress pol). ingress_allows cl ing p)"
proof -
  have "(\<exists>k\<in>policy_keys cl pol. key_allows k p) \<longleftrightarrow>
    (\<exists>ing\<in>set (pc_Ingress pol). \<exists>d\<in>set (policy_dests pol).
      \<exists>s\<in>set (kept (resolveSources (ir_From ing) cl)). \<exists>k\<in>port_keys s d (ir_Ports ing). key_allows k p)"
    by (auto simp: policy_keys_def ingress_keys_def)
  also have "\<dots> \<longleftrightarrow> (\<exists>ing\<in>set (pc_Ingress pol). \<exists>d\<in>set (policy_dests pol).
      \<exists>s\<in>set (kept (resolveSources (ir_From ing) cl)).
        cidr_matches s (pk_src p) \<and> dest_matches d p \<and> port_matches (ir_Ports ing) p)"
    by (intro bex_cong refl port_keys_allow) simp
  also have "\<dots> \<longleftrightarrow> selects pol p \<and> (\<exists>ing\<in>set (pc_Ingress pol). ingress_allows cl ing p)"
    unfolding selects_def ingress_allows_def using isIPv4CIDR_not_Nil by auto
  finally show ?thesis .
qed

definition fw_chain :: "Ruleset \<Rightarrow> string list list" where
  "fw_chain rs = map ru_Args (rs_Rules rs)"

lemma ruleset_verdict:
  "chain_verdict (fw_chain (ruleset b)) p =
     (if pk_established p then VAccept
      else if \<exists>k\<in>set (fb_accepts b). key_allows k p then VAccept
      else if \<exists>d\<in>set (fb_protectedDest b). dest_matches d p then VDrop
      else VReturn)"
proof -
  let ?f = "\<lambda>k. acceptArgs (ak_src k) (ak_dst k) (ak_proto k) (ak_port k)"
  have f: "rule_target (?f k) p = (if key_allows k p then Some ''ACCEPT'' else None)" for k
    by (simp add: rule_target_accept key_allows_def dest_matches_def)
  have "fw_chain (ruleset b) = [conntrackArgs] @ map ?f (sort_key lessAccept_key (remdups (fb_accepts b)))
      @ map dropArgs (sort_key lessDest_key (remdups (fb_protectedDest b)))"
    by (simp add: fw_chain_def ruleset_def Let_def comp_def)
  then show ?thesis
    by (simp add: rule_target_conntrack chain_accepts [OF f] chain_drops)
qed

lemma BuildFirewall_verdict:
  "chain_verdict (fw_chain (BuildFirewall policies clusterCIDRs)) p = policy_verdict policies clusterCIDRs p"
proof -
  let ?b = "fold (addPolicy clusterCIDRs) policies \<lparr>fb_accepts = [], fb_protectedDest = [], fb_skipped = []\<rparr>"
  have "set (fb_accepts ?b) = (\<Union>p\<in>set policies. policy_keys clusterCIDRs p)"
    "set (fb_protectedDest ?b) = (\<Union>p\<in>set policies. set (policy_dests p))"
    using builder_sets [of clusterCIDRs policies] by (simp_all add: fb_sets_def)
  then show ?thesis
    unfolding BuildFirewall_def ruleset_verdict policy_verdict_def
    by (simp only: bex_UN policy_keys_allow) (simp only: selects_def)
qed


lemma BuildFirewall_chain: "r \<in> set (rs_Rules (BuildFirewall policies clusterCIDRs)) \<Longrightarrow> ru_Chain r = FWChain"
  by (auto simp: BuildFirewall_def ruleset_def Let_def)

text \<open>The compiled ruleset, including the list of skipped inputs, depends only on
  the set of policies, not on the order or multiplicity in which they are listed.\<close>

lemma BuildFirewall_order_independent:
  assumes "set policies = set policies'"
  shows "BuildFirewall policies clusterCIDRs = BuildFirewall policies' clusterCIDRs"
  using assms by (rule BuildFirewall_cong)

lemma BuildFirewall_order_independent_example:
  "let p = \<lparr>pc_Name = ''p'', pc_Destinations = [], pc_Ingress = []\<rparr>;
       q = \<lparr>pc_Name = ''q'', pc_Destinations = [''10.0.0.0/8''], pc_Ingress = []\<rparr>
   in set [p, q] = set [q, p, q] \<and> BuildFirewall [p, q] (\<lambda>_. []) = BuildFirewall [q, p, q] (\<lambda>_. [])"
proof -
  have "set [p, q] = set [q, p, q]" for p q :: Policy by auto
  then show ?thesis unfolding Let_def using BuildFirewall_order_independent by blast
qed

section \<open>Reading a compiled chain back\<close>

definition flag_words :: "string set" where
  "flag_words = {''-s'', ''-d'', ''-p'', ''--dport'', ''conntrack''}"

lemma CIDR_not_flag: "isIPv4CIDR c \<Longrightarrow> c \<notin> flag_words"
proof -
  assume "isIPv4CIDR c"
  then have "cut (CHR ''/'') c \<noteq> None"
    by (cases "cut (CHR ''/'') c") (simp_all add: isIPv4CIDR_def ParseCIDR_def)
  then have "CHR ''/'' \<in> set c" by (simp add: cut_None_iff)
  then show ?thesis by (auto simp: flag_words_def)
qed

lemma itoa_digit_mem: "c \<in> set (itoa n) \<Longrightarrow> is_digit c"
  using itoa_digits [of n] by (auto simp: list_all_iff)

lemma portStr_not_flag: "portStr i \<notin> flag_words"
proof -
  have "CHR ''s'' \<notin> set (portStr i)" "CHR ''d'' \<notin> set (portStr i)" "CHR ''p'' \<notin> set (portStr i)"
    "CHR ''c'' \<notin> set (portStr i)"
    by (auto simp: portStr_def itoa_int_def is_digit_def dest!: itoa_digit_mem)
  then show ?thesis by (auto simp: flag_words_def)
qed

definition access_of :: "acceptKey \<Rightarrow> Access" where
  "access_of k = \<lparr>ac_Source = ak_src k, ac_Dest = ak_dst k, ac_Protocol = ak_proto k, ac_Port = ak_port k\<rparr>"

text \<open>The keys the compiler produces from policies over the three protocols of the API.\<close>

definition key_ok :: "acceptKey \<Rightarrow> bool" where
  "key_ok k \<longleftrightarrow> ak_src k \<notin> flag_words \<and> ak_dst k \<notin> flag_words \<and> ak_port k \<notin> flag_words \<and>
     ak_proto k \<in> {'''', ''tcp'', ''udp'', ''sctp''} \<and> (ak_proto k = '''' \<longleftrightarrow> ak_port k = '''')"

lemma interpret_accept:
  assumes "key_ok k" "ru_Args r = acceptArgs (ak_src k) (ak_dst k) (ak_proto k) (ak_port k)"
  shows "interpret_rule r d = (if access_of k \<in> set (de_Accepts d) then d
     else d\<lparr>de_Accepts := de_Accepts d @ [access_of k]\<rparr>)"
proof -
  have "\<not> hasArg (ru_Args r) ''conntrack''" "ru_Args r \<noteq> []" "last (ru_Args r) = ''ACCEPT''"
    using assms by (auto simp: hasArg_def acceptArgs_def key_ok_def flag_words_def)
  moreover have "argValue (ru_Args r) ''-s'' = ak_src k" "argValue (ru_Args r) ''-d'' = ak_dst k"
    "argValue (ru_Args r) ''-p'' = ak_proto k" "argValue (ru_Args r) ''--dport'' = ak_port k"
    using assms by (auto simp: acceptArgs_def key_ok_def flag_words_def)
  ultimately show ?thesis by (simp add: interpret_rule_def access_of_def Let_def)
qed

lemma interpret_drop:
  assumes "dst \<notin> flag_words" "ru_Args r = dropArgs dst"
  shows "interpret_rule r d = (if dst \<in> set (de_Protected d) then d
     else d\<lparr>de_Protected := de_Protected d @ [dst]\<rparr>)"
  using assms by (auto simp: interpret_rule_def dropArgs_def hasArg_def flag_words_def Let_def)

lemma interpret_conntrack: "ru_Args r = conntrackArgs \<Longrightarrow> interpret_rule r d = d"
  by (simp add: interpret_rule_def conntrackArgs_def hasArg_def)

lemma fold_interpret_accepts:
  assumes "\<forall>k\<in>set ks. key_ok k"
  shows "set (de_Accepts (fold interpret_rule (map (\<lambda>k. \<lparr>ru_Chain = FWChain,
           ru_Args = acceptArgs (ak_src k) (ak_dst k) (ak_proto k) (ak_port k)\<rparr>) ks) d))
         = set (de_Accepts d) \<union> access_of ` set ks \<and>
    de_Protected (fold interpret_rule (map (\<lambda>k. \<lparr>ru_Chain = FWChain,
           ru_Args = acceptArgs (ak_src k) (ak_dst k) (ak_proto k) (ak_port k)\<rparr>) ks) d) = de_Protected d"
  using assms by (induction ks arbitrary: d) (auto simp: interpret_accept split: if_splits)

lemma fold_interpret_drops:
  assumes "\<forall>x\<in>set ds. x \<notin> flag_words"
  shows "set (de_Protected (fold interpret_rule (map (\<lambda>x. \<lparr>ru_Chain = FWChain, ru_Args = dropArgs x\<rparr>) ds) d))
         = set (de_Protected d) \<union> set ds \<and>
    de_Accepts (fold interpret_rule (map (\<lambda>x. \<lparr>ru_Chain = FWChain, ru_Args = dropArgs x\<rparr>) ds) d) = de_Accepts d"
  using assms by (induction ds arbitrary: d) (auto simp: interpret_drop split: if_splits)

lemma Interpret_ruleset:
  assumes "\<forall>k\<in>set (fb_accepts b). key_ok k" "\<forall>x\<in>set (fb_protectedDest b). x \<notin> flag_words"
  shows "set (de_Accepts (Interpret (ruleset b))) = access_of ` set (fb_accepts b)"
    "set (de_Protected (Interpret (ruleset b))) = set (fb_protectedDest b)"
proof -
  let ?ks = "sort_key lessAccept_key (remdups (fb_accepts b))"
  let ?ds = "sort_key lessDest_key (remdups (fb_protectedDest b))"
  have "\<forall>k\<in>set ?ks. key_ok k" "\<forall>x\<in>set ?ds. x \<notin> flag_words" using assms by auto
  note fold_interpret_accepts [OF this(1)] fold_interpret_drops [OF this(2)]
  then show "set (de_Accepts (Interpret (ruleset b))) = access_of ` set (fb_accepts b)"
    "set (de_Protected (Interpret (ruleset b))) = set (fb_protectedDest b)"
    by (simp_all add: Interpret_def ruleset_def Let_def interpret_conntrack)
qed

definition api_protocols :: "Policy list \<Rightarrow> bool" where
  "api_protocols pols \<longleftrightarrow> (\<forall>pol\<in>set pols. \<forall>ing\<in>set (pc_Ingress pol). \<forall>pt\<in>set (ir_Ports ing).
     normalizeProto (po_Protocol pt) \<in> {''tcp'', ''udp'', ''sctp''})"

lemma policy_dests_not_flag: "d \<in> set (policy_dests pol) \<Longrightarrow> d \<notin> flag_words"
  using CIDR_not_flag by (auto simp: policy_dests_def flag_words_def split: if_splits)

lemma policy_keys_ok:
  assumes "api_protocols pols" "pol \<in> set pols" "k \<in> policy_keys cl pol"
  shows "key_ok k"
proof -
  obtain ing d s where k: "ing \<in> set (pc_Ingress pol)" "d \<in> set (policy_dests pol)"
    "isIPv4CIDR s" "k \<in> port_keys s d (ir_Ports ing)"
    using assms(3) by (auto simp: policy_keys_def ingress_keys_def)
  have "normalizeProto (po_Protocol pt) \<in> {''tcp'', ''udp'', ''sctp''}" if "pt \<in> set (ir_Ports ing)" for pt
    using assms(1,2) k(1) that unfolding api_protocols_def by blast
  moreover have "'''' \<notin> flag_words" by (simp add: flag_words_def)
  ultimately show ?thesis
    using k policy_dests_not_flag [OF k(2)] CIDR_not_flag [OF k(3)] portStr_not_flag
    by (fastforce simp: key_ok_def port_keys_def split: if_splits)
qed

text \<open>What a set of decisions says of a packet.\<close>

definition access_allows :: "Access \<Rightarrow> packet \<Rightarrow> bool" where
  "access_allows a p \<longleftrightarrow> (ac_Source a = '''' \<or> cidr_matches (ac_Source a) (pk_src p)) \<and>
     dest_matches (ac_Dest a) p \<and>
     (ac_Protocol a = '''' \<or> ac_Protocol a = pk_proto p \<and> (ac_Port a = '''' \<or> ac_Port a = itoa (pk_dport p)))"

definition decision_verdict :: "Decisions \<Rightarrow> packet \<Rightarrow> verdict" where
  "decision_verdict D p =
     (if pk_established p then VAccept
      else if \<exists>a\<in>set (de_Accepts D). access_allows a p then VAccept
      else if \<exists>d\<in>set (de_Protected D). dest_matches d p then VDrop
      else VReturn)"

lemma access_of_allows [simp]: "access_allows (access_of k) p = key_allows k p"
  by (simp add: access_allows_def access_of_def key_allows_def)

lemma Interpret_sets:
  assumes "api_protocols policies"
  shows "set (de_Accepts (Interpret (BuildFirewall policies clusterCIDRs))) = access_of ` (\<Union>p\<in>set policies. policy_keys clusterCIDRs p)"
    "set (de_Protected (Interpret (BuildFirewall policies clusterCIDRs))) = (\<Union>p\<in>set policies. set (policy_dests p))"
proof -
  let ?b = "fold (addPolicy clusterCIDRs) policies \<lparr>fb_accepts = [], fb_protectedDest = [], fb_skipped = []\<rparr>"
  have sets: "set (fb_accepts ?b) = (\<Union>p\<in>set policies. policy_keys clusterCIDRs p)"
    "set (fb_protectedDest ?b) = (\<Union>p\<in>set policies. set (policy_dests p))"
    using builder_sets [of clusterCIDRs policies] by (simp_all add: fb_sets_def)
  have "\<forall>k\<in>set (fb_accepts ?b). key_ok k" "\<forall>x\<in>set (fb_protectedDest ?b). x \<notin> flag_words"
    unfolding sets using policy_keys_ok [OF assms] policy_dests_not_flag by blast+
  note Interpret_ruleset [OF this, unfolded sets]
  then show "set (de_Accepts (Interpret (BuildFirewall policies clusterCIDRs))) = access_of ` (\<Union>p\<in>set policies. policy_keys clusterCIDRs p)"
    "set (de_Protected (Interpret (BuildFirewall policies clusterCIDRs))) = (\<Union>p\<in>set policies. set (policy_dests p))"
    by (simp_all only: BuildFirewall_def)
qed

lemma Interpret_verdict:
  assumes "api_protocols policies"
  shows "decision_verdict (Interpret (BuildFirewall policies clusterCIDRs)) p =
    chain_verdict (fw_chain (BuildFirewall policies clusterCIDRs)) p"
  unfolding BuildFirewall_verdict policy_verdict_def decision_verdict_def Interpret_sets [OF assms]
  by (simp only: bex_simps access_of_allows bex_UN policy_keys_allow) (simp only: selects_def)

text \<open>C32. Reading a compiled chain back loses nothing: for policies over the
  protocols of the API, the decisions extracted from the compiled argument
  vectors give every packet the verdict of the chain the data plane programs.\<close>

theorem Interpret_faithful:
  assumes "api_protocols policies"
  shows "decision_verdict (Interpret (BuildFirewall policies clusterCIDRs)) p =
    chain_verdict (fw_chain (BuildFirewall policies clusterCIDRs)) p"
  using assms by (rule Interpret_verdict)

theorem Interpret_faithful_witness:
  "let pol = \<lparr>pc_Name = ''db'', pc_Destinations = [''10.0.0.0/8''],
              pc_Ingress = [\<lparr>ir_From = [\<lparr>ps_ClusterIDs = [''b''], ps_CIDRs = []\<rparr>],
                            ir_Ports = [\<lparr>po_Protocol = ''TCP'', po_Port = 5432\<rparr>]\<rparr>]\<rparr>;
       pkt = \<lparr>pk_src = 0x0b000001, pk_dst = 0x0a000001, pk_proto = ''tcp'', pk_dport = 5432, pk_established = False\<rparr>
   in api_protocols [pol] \<and>
      decision_verdict (Interpret (BuildFirewall [pol] (\<lambda>_. [''11.0.0.0/8'']))) pkt =
      chain_verdict (fw_chain (BuildFirewall [pol] (\<lambda>_. [''11.0.0.0/8'']))) pkt"
proof -
  have "api_protocols [\<lparr>pc_Name = ''db'', pc_Destinations = [''10.0.0.0/8''],
              pc_Ingress = [\<lparr>ir_From = [\<lparr>ps_ClusterIDs = [''b''], ps_CIDRs = []\<rparr>],
                            ir_Ports = [\<lparr>po_Protocol = ''TCP'', po_Port = 5432\<rparr>]\<rparr>]\<rparr>]"
    by (simp add: api_protocols_def normalizeProto_def go_eval)
  then show ?thesis unfolding Let_def using Interpret_faithful by blast
qed

text \<open>The IPv4 check accepts ranges in IPv4-mapped IPv6 notation and the compiler
  emits them verbatim as a match of the IPv4 table.\<close>

lemma mapped_CIDR_reaches_IPv4_table:
  "isIPv4CIDR ''::ffff:10.0.0.0/104'' \<and>
   [''-d'', ''::ffff:10.0.0.0/104'', ''-j'', ''DROP''] \<in> set (fw_chain (BuildFirewall
      [\<lparr>pc_Name = ''p'', pc_Destinations = [''::ffff:10.0.0.0/104''], pc_Ingress = []\<rparr>] (\<lambda>_. [])))"
proof -
  have "isIPv4CIDR ''::ffff:10.0.0.0/104''" by (simp add: isIPv4CIDR_def go_eval)
  then show ?thesis
    by (simp add: BuildFirewall_def addPolicy_def ruleset_def fw_chain_def dropArgs_def Let_def)
qed

end
