(* ===== verification/Runs.thy ===== *)
theory Runs
  imports Go_Strings
begin

text \<open>
  Programs that act on the outside world through fallible calls. A run threads an
  abstract state of the world and records the state after every call, so that
  properties can speak of all intermediate states and of the state in which a
  failing call leaves the world. \<^verbatim>\<open>holds\<close> is a Hoare-style judgement over a view
  of that state; \<^verbatim>\<open>command_law\<close> and \<^verbatim>\<open>query_law\<close> are the shapes of the laws that the
  interfaces to the world assume.
\<close>

section \<open>Runs\<close>

type_synonym ('s, 'a) run = "'s \<Rightarrow> 'a result \<times> 's \<times> 's list"

definition ret :: "'a \<Rightarrow> ('s, 'a) run" where
  "ret a s = (Inr a, s, [])"

definition call :: "('s \<Rightarrow> 'a result \<times> 's) \<Rightarrow> ('s, 'a) run" where
  "call f s = (case f s of (r, t) \<Rightarrow> (r, t, [t]))"

definition bind_run :: "('s, 'a) run \<Rightarrow> ('a \<Rightarrow> ('s, 'b) run) \<Rightarrow> ('s, 'b) run" where
  "bind_run m f s = (case m s of
      (Inl e, t, l) \<Rightarrow> (Inl e, t, l)
    | (Inr a, t, l) \<Rightarrow> (case f a t of (r, u, k) \<Rightarrow> (r, u, l @ k)))"

definition seq :: "('s, unit) run \<Rightarrow> ('s, 'b) run \<Rightarrow> ('s, 'b) run" where
  "seq m k = bind_run m (\<lambda>_. k)"

text \<open>\<^verbatim>\<open>fmt.Errorf("...: %w", err)\<close> on the error of a call.\<close>

definition errorf :: "string \<Rightarrow> ('s, 'a) run \<Rightarrow> ('s, 'a) run" where
  "errorf prefix m s = (case m s of (Inl e, t, l) \<Rightarrow> (Inl (prefix @ '': '' @ e), t, l) | x \<Rightarrow> x)"

fun for_each :: "('x \<Rightarrow> ('s, unit) run) \<Rightarrow> 'x list \<Rightarrow> ('s, unit) run" where
  "for_each f [] = ret ()"
| "for_each f (x # xs) = seq (f x) (for_each f xs)"

text \<open>A run from a state with \<^verbatim>\<open>P\<close> visits only states with \<^verbatim>\<open>I\<close>, and ends with
  \<^verbatim>\<open>Q\<close> when it succeeds and with \<^verbatim>\<open>E\<close> when it fails.\<close>

definition triple ::
  "('s \<Rightarrow> bool) \<Rightarrow> ('s, 'a) run \<Rightarrow> ('a \<Rightarrow> 's \<Rightarrow> bool) \<Rightarrow> ('s \<Rightarrow> bool) \<Rightarrow> ('s \<Rightarrow> bool) \<Rightarrow> bool" where
  "triple P m Q E I \<longleftrightarrow> (\<forall>s r t l. P s \<longrightarrow> m s = (r, t, l) \<longrightarrow>
     (\<forall>u\<in>set l. I u) \<and> (\<forall>a. r = Inr a \<longrightarrow> Q a t) \<and> (\<forall>e. r = Inl e \<longrightarrow> E t))"

lemma tripleI:
  assumes "\<And>s r t l. P s \<Longrightarrow> m s = (r, t, l) \<Longrightarrow>
    (\<forall>u\<in>set l. I u) \<and> (\<forall>a. r = Inr a \<longrightarrow> Q a t) \<and> (\<forall>e. r = Inl e \<longrightarrow> E t)"
  shows "triple P m Q E I"
  using assms unfolding triple_def by blast

lemma tripleD:
  assumes "triple P m Q E I" "P s" "m s = (r, t, l)"
  shows "\<forall>u\<in>set l. I u" "r = Inr a \<Longrightarrow> Q a t" "r = Inl e \<Longrightarrow> E t"
  using assms unfolding triple_def by blast+

lemma triple_conseq:
  assumes "triple P m Q E I" "\<And>s. P' s \<Longrightarrow> P s" "\<And>a s. Q a s \<Longrightarrow> Q' a s" "\<And>s. E s \<Longrightarrow> E' s" "\<And>s. I s \<Longrightarrow> I' s"
  shows "triple P' m Q' E' I'"
  using assms unfolding triple_def by blast

lemma triple_ret: "(\<And>s. P s \<Longrightarrow> Q a s) \<Longrightarrow> triple P (ret a) Q E I"
  by (auto simp: triple_def ret_def)

lemma triple_call:
  assumes "\<And>s r t. P s \<Longrightarrow> f s = (r, t) \<Longrightarrow> I t \<and> (\<forall>a. r = Inr a \<longrightarrow> Q a t) \<and> (\<forall>e. r = Inl e \<longrightarrow> E t)"
  shows "triple P (call f) Q E I"
proof (rule tripleI)
  fix s r t l assume P: "P s" and run: "call f s = (r, t, l)"
  then have "f s = (r, t)" "l = [t]" by (auto simp: call_def split: prod.splits)
  then show "(\<forall>u\<in>set l. I u) \<and> (\<forall>a. r = Inr a \<longrightarrow> Q a t) \<and> (\<forall>e. r = Inl e \<longrightarrow> E t)"
    using assms [OF P] by simp
qed

lemma triple_bind:
  assumes "triple P m R E I" "\<And>a. triple (R a) (f a) Q E I"
  shows "triple P (bind_run m f) Q E I"
proof (rule tripleI)
  fix s r t l assume P: "P s" and run: "bind_run m f s = (r, t, l)"
  obtain r1 t1 l1 where m: "m s = (r1, t1, l1)" by (cases "m s") auto
  note first = tripleD [OF assms(1) P m]
  show "(\<forall>u\<in>set l. I u) \<and> (\<forall>a. r = Inr a \<longrightarrow> Q a t) \<and> (\<forall>e. r = Inl e \<longrightarrow> E t)"
  proof (cases r1)
    case (Inl e)
    then show ?thesis using run m first by (auto simp: bind_run_def)
  next
    case (Inr a)
    obtain r2 t2 l2 where f: "f a t1 = (r2, t2, l2)" by (cases "f a t1") auto
    then have eq: "r = r2" "t = t2" "l = l1 @ l2" using run m Inr by (auto simp: bind_run_def)
    have "R a t1" using first(2) Inr by simp
    from tripleD [OF assms(2) this f] show ?thesis using first(1) eq by auto
  qed
qed

lemma triple_seq:
  assumes "triple P m (\<lambda>_. R) E I" "triple R k Q E I"
  shows "triple P (seq m k) Q E I"
  unfolding seq_def using assms(1) by (rule triple_bind) (rule assms(2))

lemma triple_errorf:
  assumes "triple P m Q E I"
  shows "triple P (errorf prefix m) Q E I"
proof (rule tripleI)
  fix s r t l assume P: "P s" and run: "errorf prefix m s = (r, t, l)"
  obtain r1 t1 l1 where m: "m s = (r1, t1, l1)" by (cases "m s") auto
  show "(\<forall>u\<in>set l. I u) \<and> (\<forall>a. r = Inr a \<longrightarrow> Q a t) \<and> (\<forall>e. r = Inl e \<longrightarrow> E t)"
    using tripleD [OF assms P m] run m by (cases r1) (auto simp: errorf_def)
qed

text \<open>A loop over a list, with an assertion indexed by the part already done.\<close>

lemma triple_for_each:
  assumes "\<And>done x rest. xs = done @ x # rest \<Longrightarrow> triple (J done) (f x) (\<lambda>_. J (done @ [x])) E I"
  shows "triple (J []) (for_each f xs) (\<lambda>_. J xs) E I"
proof -
  have "xs = done @ ys \<Longrightarrow> triple (J done) (for_each f ys) (\<lambda>_. J xs) E I" for "done" ys
  proof (induction ys arbitrary: "done")
    case (Cons y ys)
    have "triple (J (done @ [y])) (for_each f ys) (\<lambda>_. J xs) E I" by (rule Cons.IH) (simp add: Cons.prems)
    with assms [OF Cons.prems] show ?case by (simp add: triple_seq)
  qed (simp add: triple_ret)
  from this [of "[]" xs] show ?thesis by simp
qed

text \<open>Assertions that speak of the tables only, with one assertion \<^verbatim>\<open>S\<close> for all
  visited states, those in which a run fails included.\<close>

definition holds ::
  "('s \<Rightarrow> 't) \<Rightarrow> ('t \<Rightarrow> bool) \<Rightarrow> ('s, 'a) run \<Rightarrow> ('a \<Rightarrow> 't \<Rightarrow> bool) \<Rightarrow> ('t \<Rightarrow> bool) \<Rightarrow> bool" where
  "holds v P m Q S \<longleftrightarrow> (\<forall>T. P T \<longrightarrow> S T) \<and>
     triple (\<lambda>s. P (v s)) m (\<lambda>a s. Q a (v s)) (\<lambda>s. S (v s)) (\<lambda>s. S (v s))"

lemma holds_conseq:
  assumes "holds v P m Q S" "\<And>T. P' T \<Longrightarrow> P T" "\<And>a T. Q a T \<Longrightarrow> Q' a T"
  shows "holds v P' m Q' S"
  using assms unfolding holds_def triple_def by blast

lemma holds_ret: "(\<And>T. P T \<Longrightarrow> S T \<and> Q a T) \<Longrightarrow> holds v P (ret a) Q S"
  by (auto simp: holds_def intro: triple_ret)

lemma holds_bind:
  assumes "holds v P m R S" "\<And>a. holds v (R a) (f a) Q S"
  shows "holds v P (bind_run m f) Q S"
  unfolding holds_def
proof
  show "\<forall>T. P T \<longrightarrow> S T" using assms(1) by (simp add: holds_def)
  show "triple (\<lambda>s. P (v s)) (bind_run m f) (\<lambda>a s. Q a (v s)) (\<lambda>s. S (v s)) (\<lambda>s. S (v s))"
    using assms by (intro triple_bind [where R = "\<lambda>a s. R a (v s)"]) (simp_all add: holds_def)
qed

lemma holds_seq:
  assumes "holds v P m (\<lambda>_. R) S" "holds v R k Q S"
  shows "holds v P (seq m k) Q S"
  unfolding seq_def using assms(1) by (rule holds_bind) (rule assms(2))

lemma holds_errorf: "holds v P m Q S \<Longrightarrow> holds v P (errorf prefix m) Q S"
  by (simp add: holds_def triple_errorf)

lemma holds_for_each:
  assumes "\<And>done x rest. xs = done @ x # rest \<Longrightarrow> holds v (J done) (f x) (\<lambda>_. J (done @ [x])) S"
    and "\<And>T. J [] T \<Longrightarrow> S T"
  shows "holds v (J []) (for_each f xs) (\<lambda>_. J xs) S"
  unfolding holds_def
proof (intro conjI allI impI)
  show "triple (\<lambda>s. J [] (v s)) (for_each f xs) (\<lambda>a s. J xs (v s)) (\<lambda>s. S (v s)) (\<lambda>s. S (v s))"
    using triple_for_each [where J = "\<lambda>ys s. J ys (v s)" and xs = xs] assms(1) unfolding holds_def by blast
qed (rule assms(2))

lemma holdsD:
  assumes "holds v P m Q S" "P (v s)" "m s = (r, t, l)"
  shows "\<forall>u\<in>set l. S (v u)" "r = Inr a \<Longrightarrow> Q a (v t)" "r = Inl e \<Longrightarrow> S (v t)"
  using assms unfolding holds_def triple_def by blast+

section \<open>Laws of calls\<close>

text \<open>A command that fails changes nothing and one that succeeds has its effect; a query
  changes nothing and answers truthfully.\<close>

definition command_law :: "('s \<Rightarrow> 't) \<Rightarrow> ('s \<Rightarrow> unit result \<times> 's) \<Rightarrow> ('t \<Rightarrow> 't \<Rightarrow> bool) \<Rightarrow> bool" where
  "command_law v f eff \<longleftrightarrow> (\<forall>s r s'. f s = (r, s') \<longrightarrow>
     (case r of Inl _ \<Rightarrow> v s' = v s | Inr _ \<Rightarrow> eff (v s) (v s')))"

lemma holds_command:
  assumes "command_law v f eff" "\<And>T. P T \<Longrightarrow> S T" "\<And>T T'. P T \<Longrightarrow> eff T T' \<Longrightarrow> S T' \<and> Q T'"
  shows "holds v P (call f) (\<lambda>_. Q) S"
  unfolding holds_def
proof (intro conjI allI impI triple_call)
  fix s r t assume P: "P (v s)" and run: "f s = (r, t)"
  then have "case r of Inl _ \<Rightarrow> v t = v s | Inr _ \<Rightarrow> eff (v s) (v t)"
    using assms(1) unfolding command_law_def by blast
  then show "S (v t)" "r = Inr a \<Longrightarrow> Q (v t)" "r = Inl e \<Longrightarrow> S (v t)" for a e
    using assms(2) [OF P] assms(3) [OF P] by (cases r; auto)+
qed (rule assms(2))

definition query_law :: "('s \<Rightarrow> 't) \<Rightarrow> ('s \<Rightarrow> 'a result \<times> 's) \<Rightarrow> ('a \<Rightarrow> 't \<Rightarrow> bool) \<Rightarrow> bool" where
  "query_law v f ans \<longleftrightarrow> (\<forall>s r s'. f s = (r, s') \<longrightarrow> v s' = v s \<and> (\<forall>a. r = Inr a \<longrightarrow> ans a (v s)))"

lemma holds_query:
  assumes "query_law v f ans" "\<And>T. P T \<Longrightarrow> S T"
  shows "holds v P (call f) (\<lambda>a T. P T \<and> ans a T) S"
  unfolding holds_def
proof (intro conjI allI impI triple_call)
  fix s r t assume P: "P (v s)" and run: "f s = (r, t)"
  then have "v t = v s \<and> (\<forall>a. r = Inr a \<longrightarrow> ans a (v s))"
    using assms(1) unfolding query_law_def by blast
  then show "S (v t)" "r = Inr a \<Longrightarrow> P (v t)" "r = Inr a \<Longrightarrow> ans a (v t)" "r = Inl e \<Longrightarrow> S (v t)" for a e
    using assms(2) [OF P] P by auto
qed (rule assms(2))

text \<open>The idiom of the managers: ask, and act only if needed.\<close>

lemma holds_unless:
  assumes "query_law v q (\<lambda>b T. b = C T)" "command_law v f eff"
    "\<And>T. P T \<Longrightarrow> S T" "\<And>T. P T \<Longrightarrow> C T \<Longrightarrow> Q T" "\<And>T T'. P T \<Longrightarrow> \<not> C T \<Longrightarrow> eff T T' \<Longrightarrow> S T' \<and> Q T'"
  shows "holds v P (bind_run (errorf e1 (call q)) (\<lambda>b. if \<not> b then errorf e2 (call f) else ret ())) (\<lambda>_. Q) S"
proof (rule holds_bind)
  show "holds v P (errorf e1 (call q)) (\<lambda>b T. P T \<and> b = C T) S"
    using assms(1,3) by (intro holds_errorf holds_query)
  show "holds v (\<lambda>T. P T \<and> b = C T) (if \<not> b then errorf e2 (call f) else ret ()) (\<lambda>_. Q) S" for b
    using assms(2-5) by (cases b) (auto intro!: holds_errorf holds_ret holds_command)
qed

lemma holds_when:
  assumes "query_law v q (\<lambda>b T. b = C T)" "command_law v f eff"
    "\<And>T. P T \<Longrightarrow> S T" "\<And>T. P T \<Longrightarrow> \<not> C T \<Longrightarrow> Q T" "\<And>T T'. P T \<Longrightarrow> C T \<Longrightarrow> eff T T' \<Longrightarrow> S T' \<and> Q T'"
  shows "holds v P (bind_run (errorf e1 (call q)) (\<lambda>b. if b then errorf e2 (call f) else ret ())) (\<lambda>_. Q) S"
proof (rule holds_bind)
  show "holds v P (errorf e1 (call q)) (\<lambda>b T. P T \<and> b = C T) S"
    using assms(1,3) by (intro holds_errorf holds_query)
  show "holds v (\<lambda>T. P T \<and> b = C T) (if b then errorf e2 (call f) else ret ()) (\<lambda>_. Q) S" for b
    using assms(2-5) by (cases b) (auto intro!: holds_errorf holds_ret holds_command)
qed

section \<open>Failure handling\<close>

definition failing :: "go_error \<Rightarrow> ('s, 'a) run" where
  "failing e s = (Inl e, s, [])"

definition gets :: "('s \<Rightarrow> 'a) \<Rightarrow> ('s, 'a) run" where
  "gets f s = (Inr (f s), s, [])"

definition modify :: "('s \<Rightarrow> 's) \<Rightarrow> ('s, unit) run" where
  "modify f s = (Inr (), f s, [f s])"

text \<open>A call whose error is only logged.\<close>

definition attempt :: "('s, unit) run \<Rightarrow> ('s, unit) run" where
  "attempt m s = (case m s of (_, t, l) \<Rightarrow> (Inr (), t, l))"

text \<open>A call whose error is handled: the handler runs in the state the failure left.\<close>

definition on_error :: "('s, 'a) run \<Rightarrow> (go_error \<Rightarrow> ('s, 'a) run) \<Rightarrow> ('s, 'a) run" where
  "on_error m h s = (case m s of
      (Inl e, t, l) \<Rightarrow> (case h e t of (r, u, k) \<Rightarrow> (r, u, l @ k))
    | x \<Rightarrow> x)"

text \<open>The result and the final state, without the visited states.\<close>

definition outcome :: "('s, 'a) run \<Rightarrow> 's \<Rightarrow> 'a result \<times> 's" where
  "outcome m s = (case m s of (r, t, _) \<Rightarrow> (r, t))"

lemma outcome_ret [run_simps]: "outcome (ret a) s = (Inr a, s)"
  by (simp add: outcome_def ret_def)

lemma outcome_call [run_simps]: "outcome (call f) s = f s"
  by (simp add: outcome_def call_def split: prod.splits)

lemma outcome_bind [run_simps]:
  "outcome (bind_run m f) s = (case outcome m s of (Inl e, t) \<Rightarrow> (Inl e, t) | (Inr a, t) \<Rightarrow> outcome (f a) t)"
  by (simp add: outcome_def bind_run_def split: prod.splits sum.splits)

lemma outcome_seq [run_simps]:
  "outcome (seq m k) s = (case outcome m s of (Inl e, t) \<Rightarrow> (Inl e, t) | (Inr _, t) \<Rightarrow> outcome k t)"
  by (simp add: seq_def outcome_bind)

lemma outcome_errorf [run_simps]:
  "outcome (errorf p m) s = (case outcome m s of (Inl e, t) \<Rightarrow> (Inl (p @ '': '' @ e), t) | x \<Rightarrow> x)"
  by (simp add: outcome_def errorf_def split: prod.splits sum.splits)

lemma outcome_failing [run_simps]: "outcome (failing e) s = (Inl e, s)"
  by (simp add: outcome_def failing_def)

lemma outcome_gets [run_simps]: "outcome (gets f) s = (Inr (f s), s)"
  by (simp add: outcome_def gets_def)

lemma outcome_modify [run_simps]: "outcome (modify f) s = (Inr (), f s)"
  by (simp add: outcome_def modify_def)

lemma outcome_attempt [run_simps]: "outcome (attempt m) s = (Inr (), snd (outcome m s))"
  by (simp add: outcome_def attempt_def split: prod.splits)

lemma outcome_on_error [run_simps]:
  "outcome (on_error m h) s = (case outcome m s of (Inl e, t) \<Rightarrow> outcome (h e) t | x \<Rightarrow> x)"
  by (simp add: outcome_def on_error_def split: prod.splits sum.splits)

lemma outcome_for_each_Nil [run_simps]: "outcome (for_each f []) s = (Inr (), s)"
  by (simp add: outcome_ret)

lemma outcome_for_each_Cons [run_simps]:
  "outcome (for_each f (x # xs)) s = (case outcome (f x) s of (Inl e, t) \<Rightarrow> (Inl e, t) | (Inr _, t) \<Rightarrow> outcome (for_each f xs) t)"
  by (simp add: outcome_seq)

lemma command_lawD:
  assumes "command_law v f eff" "f s = (r, s')"
  shows "r = Inl e \<Longrightarrow> v s' = v s" "r = Inr u \<Longrightarrow> eff (v s) (v s')"
  using assms unfolding command_law_def by (auto split: sum.splits)

lemma query_lawD:
  assumes "query_law v f ans" "f s = (r, s')"
  shows "v s' = v s" "r = Inr a \<Longrightarrow> ans a (v s)"
  using assms unfolding query_law_def by blast+

section \<open>What a run leaves alone\<close>

definition keeps :: "('s \<Rightarrow> 'b) \<Rightarrow> ('s, 'a) run \<Rightarrow> bool" where
  "keeps g m \<longleftrightarrow> (\<forall>s. g (snd (outcome m s)) = g s)"

lemma keepsD: "keeps g m \<Longrightarrow> outcome m s = (r, t) \<Longrightarrow> g t = g s"
  unfolding keeps_def by (metis snd_conv)

lemma keeps_ret [keeps_intros]: "keeps g (ret a)"
  by (simp add: keeps_def run_simps)

lemma keeps_failing [keeps_intros]: "keeps g (failing e)"
  by (simp add: keeps_def run_simps)

lemma keeps_gets [keeps_intros]: "keeps g (gets f)"
  by (simp add: keeps_def run_simps)

lemma keeps_call: "(\<And>s. g (snd (f s)) = g s) \<Longrightarrow> keeps g (call f)"
  by (simp add: keeps_def run_simps)

lemma keeps_bind [keeps_intros]:
  assumes "keeps g m" "\<And>a. keeps g (f a)"
  shows "keeps g (bind_run m f)"
  unfolding keeps_def
proof
  fix s
  obtain r t where m: "outcome m s = (r, t)" by fastforce
  then have "g t = g s" using keepsD [OF assms(1)] by blast
  then show "g (snd (outcome (bind_run m f) s)) = g s"
    using assms(2) m by (cases r) (simp_all add: outcome_bind keeps_def)
qed

lemma keeps_seq [keeps_intros]: "keeps g m \<Longrightarrow> keeps g k \<Longrightarrow> keeps g (seq m k)"
  unfolding seq_def by (rule keeps_bind)

lemma keeps_errorf [keeps_intros]: "keeps g m \<Longrightarrow> keeps g (errorf p m)"
  unfolding keeps_def by (auto simp: outcome_errorf split: prod.splits sum.splits) (metis snd_conv)+

lemma keeps_attempt [keeps_intros]: "keeps g m \<Longrightarrow> keeps g (attempt m)"
  by (simp add: keeps_def outcome_attempt)

lemma keeps_on_error [keeps_intros]:
  assumes "keeps g m" "\<And>e. keeps g (h e)"
  shows "keeps g (on_error m h)"
  unfolding keeps_def
proof
  fix s
  obtain r t where m: "outcome m s = (r, t)" by fastforce
  then have "g t = g s" using keepsD [OF assms(1)] by blast
  then show "g (snd (outcome (on_error m h) s)) = g s"
    using assms(2) m by (cases r) (simp_all add: outcome_on_error keeps_def)
qed

lemma keeps_for_each [keeps_intros]: "(\<And>x. keeps g (f x)) \<Longrightarrow> keeps g (for_each f xs)"
  by (induction xs) (auto intro: keeps_intros)

end
