(* ===== verification/Iptables.thy ===== *)
theory Iptables
  imports Runs
begin

text \<open>
  The interface to the kernel's packet filter that the NAT and firewall managers
  program through \<^verbatim>\<open>go-iptables\<close>. The handle is a parameter of the managers: a
  record of operations on an abstract kernel state that may fail at any call.
  What the managers rely on is the locale \<^verbatim>\<open>iptables_handle\<close>, the documented
  behaviour of the operations; an in-memory table with a schedule of faults
  satisfies it.\<close>

section \<open>The handle\<close>

type_synonym rulespec = "string list"
type_synonym tables = "string \<Rightarrow> string \<rightharpoonup> rulespec list"

record 's iptables =
  ipt_ChainExists :: "string \<Rightarrow> string \<Rightarrow> 's \<Rightarrow> bool result \<times> 's"
  ipt_NewChain :: "string \<Rightarrow> string \<Rightarrow> 's \<Rightarrow> unit result \<times> 's"
  ipt_Exists :: "string \<Rightarrow> string \<Rightarrow> rulespec \<Rightarrow> 's \<Rightarrow> bool result \<times> 's"
  ipt_Insert1 :: "string \<Rightarrow> string \<Rightarrow> rulespec \<Rightarrow> 's \<Rightarrow> unit result \<times> 's"
  ipt_Append :: "string \<Rightarrow> string \<Rightarrow> rulespec \<Rightarrow> 's \<Rightarrow> unit result \<times> 's"
  ipt_Delete :: "string \<Rightarrow> string \<Rightarrow> rulespec \<Rightarrow> 's \<Rightarrow> unit result \<times> 's"
  ipt_ClearChain :: "string \<Rightarrow> string \<Rightarrow> 's \<Rightarrow> unit result \<times> 's"
  ipt_ListChains :: "string \<Rightarrow> 's \<Rightarrow> string list result \<times> 's"
  ipt_DeleteChain :: "string \<Rightarrow> string \<Rightarrow> 's \<Rightarrow> unit result \<times> 's"

definition set_chain :: "tables \<Rightarrow> string \<Rightarrow> string \<Rightarrow> rulespec list option \<Rightarrow> tables" where
  "set_chain T t c v = T(t := (T t)(c := v))"

lemma set_chain_apply [simp]:
  "set_chain T t c v t' c' = (if t' = t \<and> c' = c then v else T t' c')"
  by (simp add: set_chain_def)

text \<open>The documented behaviour of \<^verbatim>\<open>go-iptables\<close>: queries do not change the tables
  and report what they hold; a command that fails leaves them unchanged; a
  command that succeeds has the effect of its \<^verbatim>\<open>iptables\<close> option (\<^verbatim>\<open>-N\<close>, \<^verbatim>\<open>-I\<close> at
  position 1, \<^verbatim>\<open>-A\<close>, \<^verbatim>\<open>-D\<close>, \<^verbatim>\<open>-F\<close> after creating a missing chain, \<^verbatim>\<open>-X\<close>).\<close>

locale iptables_handle =
  fixes ipt :: "'s iptables" and tables :: "'s \<Rightarrow> tables"
  assumes ChainExists_law: "query_law tables (ipt_ChainExists ipt t c) (\<lambda>b T. b = (T t c \<noteq> None))"
    and Exists_law: "query_law tables (ipt_Exists ipt t c args)
      (\<lambda>b T. b = (\<exists>rules. T t c = Some rules \<and> args \<in> set rules))"
    and ListChains_law: "query_law tables (ipt_ListChains ipt t) (\<lambda>cs T. set cs = dom (T t))"
    and NewChain_law: "command_law tables (ipt_NewChain ipt t c)
      (\<lambda>T T'. T t c = None \<and> T' = set_chain T t c (Some []))"
    and Insert1_law: "command_law tables (ipt_Insert1 ipt t c args)
      (\<lambda>T T'. \<exists>rules. T t c = Some rules \<and> T' = set_chain T t c (Some (args # rules)))"
    and Append_law: "command_law tables (ipt_Append ipt t c args)
      (\<lambda>T T'. \<exists>rules. T t c = Some rules \<and> T' = set_chain T t c (Some (rules @ [args])))"
    and Delete_law: "command_law tables (ipt_Delete ipt t c args)
      (\<lambda>T T'. \<exists>rules. T t c = Some rules \<and> args \<in> set rules \<and> T' = set_chain T t c (Some (remove1 args rules)))"
    and ClearChain_law: "command_law tables (ipt_ClearChain ipt t c)
      (\<lambda>T T'. T' = set_chain T t c (Some []))"
    and DeleteChain_law: "command_law tables (ipt_DeleteChain ipt t c)
      (\<lambda>T T'. T' = set_chain T t c None)"
begin

lemmas unless_chain = holds_unless [OF ChainExists_law NewChain_law]
lemmas unless_inserted = holds_unless [OF Exists_law Insert1_law]
lemmas unless_appended = holds_unless [OF Exists_law Append_law]
lemmas when_deleted = holds_when [OF Exists_law Delete_law]
lemmas cleared = holds_errorf [OF holds_command [OF ClearChain_law]]
lemmas appended = holds_errorf [OF holds_command [OF Append_law]]
lemmas created = holds_errorf [OF holds_command [OF NewChain_law]]
lemmas removed = holds_errorf [OF holds_command [OF DeleteChain_law]]
lemmas listed = holds_errorf [OF holds_query [OF ListChains_law]]

end

section \<open>An in-memory table with faults\<close>

text \<open>The kernel state is the tables, the names of their chains, and a schedule
  that says of each coming call whether it fails.\<close>

record kernel =
  k_chains :: "(string \<times> string) list"
  k_rules :: "string \<times> string \<Rightarrow> rulespec list"
  k_faults :: "bool list"

definition k_tables :: "kernel \<Rightarrow> tables" where
  "k_tables k t c = (if (t, c) \<in> set (k_chains k) then Some (k_rules k (t, c)) else None)"

definition k_step :: "bool \<Rightarrow> (kernel \<Rightarrow> kernel) \<Rightarrow> (kernel \<Rightarrow> 'a) \<Rightarrow> kernel \<Rightarrow> 'a result \<times> kernel" where
  "k_step ok upd val k =
     (let k' = k\<lparr>k_faults := tl (k_faults k)\<rparr> in
      if k_faults k \<noteq> [] \<and> hd (k_faults k) then (Inl ''exit status 4'', k')
      else if \<not> ok then (Inl ''exit status 1'', k')
      else (Inr (val k), upd k'))"

definition k_put :: "string \<Rightarrow> string \<Rightarrow> rulespec list \<Rightarrow> kernel \<Rightarrow> kernel" where
  "k_put t c rules k = k\<lparr>k_chains := (if (t, c) \<in> set (k_chains k) then k_chains k else (t, c) # k_chains k),
                         k_rules := (k_rules k)((t, c) := rules)\<rparr>"

definition k_has :: "string \<Rightarrow> string \<Rightarrow> kernel \<Rightarrow> bool" where
  "k_has t c k \<longleftrightarrow> (t, c) \<in> set (k_chains k)"

definition kernel_iptables :: "kernel iptables" where
  "kernel_iptables = \<lparr>
     ipt_ChainExists = (\<lambda>t c k. k_step True id (k_has t c) k),
     ipt_NewChain = (\<lambda>t c k. k_step (\<not> k_has t c k) (k_put t c []) (\<lambda>_. ()) k),
     ipt_Exists = (\<lambda>t c args k. k_step True id (\<lambda>k. k_has t c k \<and> args \<in> set (k_rules k (t, c))) k),
     ipt_Insert1 = (\<lambda>t c args k. k_step (k_has t c k) (k_put t c (args # k_rules k (t, c))) (\<lambda>_. ()) k),
     ipt_Append = (\<lambda>t c args k. k_step (k_has t c k) (k_put t c (k_rules k (t, c) @ [args])) (\<lambda>_. ()) k),
     ipt_Delete = (\<lambda>t c args k. k_step (k_has t c k \<and> args \<in> set (k_rules k (t, c)))
                     (k_put t c (remove1 args (k_rules k (t, c)))) (\<lambda>_. ()) k),
     ipt_ClearChain = (\<lambda>t c k. k_step True (k_put t c []) (\<lambda>_. ()) k),
     ipt_ListChains = (\<lambda>t k. k_step True id (\<lambda>k. map snd (filter (\<lambda>(t', _). t' = t) (k_chains k))) k),
     ipt_DeleteChain = (\<lambda>t c k. k_step (k_has t c k)
                          (\<lambda>k. k\<lparr>k_chains := filter (\<lambda>x. x \<noteq> (t, c)) (k_chains k)\<rparr>) (\<lambda>_. ()) k)\<rparr>"

lemma k_tables_faults [simp]: "k_tables (k\<lparr>k_faults := fs\<rparr>) = k_tables k"
  by (simp add: k_tables_def fun_eq_iff)

lemma k_tables_put [simp]: "k_tables (k_put t c rules k) = set_chain (k_tables k) t c (Some rules)"
  by (auto simp: k_tables_def k_put_def set_chain_def fun_eq_iff)

lemma k_tables_drop [simp]:
  "k_tables (k\<lparr>k_chains := filter (\<lambda>x. x \<noteq> (t, c)) (k_chains k)\<rparr>) = set_chain (k_tables k) t c None"
  by (auto simp: k_tables_def set_chain_def fun_eq_iff)

lemma k_step_cases:
  assumes "k_step ok upd val k = (r, k')"
  shows "(\<exists>e. r = Inl e \<and> k_tables k' = k_tables k) \<or>
    (ok \<and> r = Inr (val k) \<and> k' = upd (k\<lparr>k_faults := tl (k_faults k)\<rparr>))"
  using assms by (auto simp: k_step_def Let_def split: if_splits)

lemma k_step_command:
  assumes "\<And>k. ok k \<Longrightarrow> eff (k_tables k) (k_tables (upd k (k\<lparr>k_faults := tl (k_faults k)\<rparr>)))"
  shows "command_law k_tables (\<lambda>k. k_step (ok k) (upd k) (\<lambda>_. ()) k) eff"
  unfolding command_law_def
proof (intro allI impI)
  fix k r k' assume "k_step (ok k) (upd k) (\<lambda>_. ()) k = (r, k')"
  from k_step_cases [OF this] show "case r of Inl _ \<Rightarrow> k_tables k' = k_tables k | Inr _ \<Rightarrow> eff (k_tables k) (k_tables k')"
    using assms [of k] by auto
qed

lemma k_has_lookup:
  "k_has t c k \<Longrightarrow> k_tables k t c = Some (k_rules k (t, c))"
  "\<not> k_has t c k \<Longrightarrow> k_tables k t c = None"
  by (simp_all add: k_has_def k_tables_def)

lemma k_tables_drop_faults [simp]:
  "k_tables (k\<lparr>k_faults := fs, k_chains := filter (\<lambda>x. x \<noteq> (t, c)) (k_chains k)\<rparr>) = set_chain (k_tables k) t c None"
  by (auto simp: k_tables_def set_chain_def fun_eq_iff)

lemma k_step_query:
  assumes "\<And>k. ans (val k) (k_tables k)"
  shows "query_law k_tables (k_step True id val) ans"
  unfolding query_law_def
proof (intro allI impI)
  fix k r k' assume "k_step True id val k = (r, k')"
  from k_step_cases [OF this] show "k_tables k' = k_tables k \<and> (\<forall>a. r = Inr a \<longrightarrow> ans a (k_tables k))"
    using assms [of k] by auto
qed

interpretation kern: iptables_handle kernel_iptables k_tables
  by unfold_locales
    (simp_all add: kernel_iptables_def,
     (rule k_step_query, force simp: k_has_def k_tables_def dom_def)+,
     (rule k_step_command, simp add: k_has_lookup)+)

end
