(* ===== verification/Meshfw_Manager.thy ===== *)
theory Meshfw_Manager
  imports Meshfw_Plan Iptables
begin

text \<open>
  \<^verbatim>\<open>pkg/meshfw/manager.go\<close>: the applier that rebuilds the firewall chain through
  an iptables handle, with mesh ingress diverted to a blanket-DROP guard chain
  during the rebuild. Any call may fail; the properties cover every intermediate
  kernel state and the state a failure leaves behind.
\<close>

section \<open>The manager\<close>

definition fw_hookChains :: "string list" where
  "fw_hookChains = [''FORWARD'', ''INPUT'']"

definition fw_ensureChain :: "'s iptables \<Rightarrow> string \<Rightarrow> ('s, unit) run" where
  "fw_ensureChain ipt chain =
     bind_run (errorf (''meshfw: checking chain '' @ chain) (call (ipt_ChainExists ipt TableFilter chain)))
       (\<lambda>exists. if \<not> exists
          then errorf (''meshfw: creating chain '' @ chain) (call (ipt_NewChain ipt TableFilter chain))
          else ret ())"

definition fw_ensureGuardChain :: "'s iptables \<Rightarrow> ('s, unit) run" where
  "fw_ensureGuardChain ipt =
     seq (fw_ensureChain ipt FWChainGuard)
       (bind_run (errorf ''meshfw: checking guard DROP'' (call (ipt_Exists ipt TableFilter FWChainGuard [''-j'', ''DROP''])))
          (\<lambda>exists. if \<not> exists
             then errorf ''meshfw: installing guard DROP'' (call (ipt_Append ipt TableFilter FWChainGuard [''-j'', ''DROP'']))
             else ret ()))"

definition fw_jump :: "string \<Rightarrow> rulespec" where
  "fw_jump wgIface = [''-i'', wgIface, ''-j'', FWChain]"

definition fw_guard :: "string \<Rightarrow> rulespec" where
  "fw_guard wgIface = [''-i'', wgIface, ''-j'', FWChainGuard]"

definition fw_ensureHook :: "'s iptables \<Rightarrow> string \<Rightarrow> string \<Rightarrow> ('s, unit) run" where
  "fw_ensureHook ipt wgIface builtin =
     bind_run (errorf (''meshfw: checking '' @ builtin @ '' hook'')
                (call (ipt_Exists ipt TableFilter builtin (fw_jump wgIface))))
       (\<lambda>exists. if \<not> exists
          then errorf (''meshfw: installing '' @ builtin @ '' hook'')
                 (call (ipt_Insert1 ipt TableFilter builtin (fw_jump wgIface)))
          else ret ())"

definition fw_ensureInfra :: "'s iptables \<Rightarrow> string \<Rightarrow> ('s, unit) run" where
  "fw_ensureInfra ipt wgIface =
     seq (fw_ensureChain ipt FWChain)
       (seq (fw_ensureGuardChain ipt) (for_each (fw_ensureHook ipt wgIface) fw_hookChains))"

definition fw_NewManager :: "('s iptables) result \<Rightarrow> string \<Rightarrow> ('s, unit) run" where
  "fw_NewManager opened wgIface s = (case opened of
      Inl e \<Rightarrow> (Inl (''meshfw: opening iptables: '' @ e), s, [])
    | Inr ipt \<Rightarrow> fw_ensureInfra ipt wgIface s)"

definition engageGuard :: "'s iptables \<Rightarrow> string \<Rightarrow> ('s, unit) run" where
  "engageGuard ipt wgIface = for_each (\<lambda>hook.
     bind_run (errorf (''meshfw: checking '' @ hook @ '' guard hook'')
                (call (ipt_Exists ipt TableFilter hook (fw_guard wgIface))))
       (\<lambda>exists. if \<not> exists
          then errorf (''meshfw: engaging '' @ hook @ '' guard'')
                 (call (ipt_Insert1 ipt TableFilter hook (fw_guard wgIface)))
          else ret ())) fw_hookChains"

definition disengageGuard :: "'s iptables \<Rightarrow> string \<Rightarrow> ('s, unit) run" where
  "disengageGuard ipt wgIface = for_each (\<lambda>hook.
     bind_run (errorf (''meshfw: checking '' @ hook @ '' guard hook'')
                (call (ipt_Exists ipt TableFilter hook (fw_guard wgIface))))
       (\<lambda>exists. if exists
          then errorf (''meshfw: disengaging '' @ hook @ '' guard'')
                 (call (ipt_Delete ipt TableFilter hook (fw_guard wgIface)))
          else ret ())) fw_hookChains"

definition SyncFirewall :: "'s iptables \<Rightarrow> string \<Rightarrow> Ruleset \<Rightarrow> ('s, unit) run" where
  "SyncFirewall ipt wgIface rs =
     seq (fw_ensureInfra ipt wgIface)
       (seq (engageGuard ipt wgIface)
         (seq (errorf (''meshfw: flushing '' @ FWChain) (call (ipt_ClearChain ipt TableFilter FWChain)))
           (seq (for_each (\<lambda>r. errorf (''meshfw: appending to '' @ ru_Chain r @ '' '' @ fmt_strings (ru_Args r))
                            (call (ipt_Append ipt TableFilter (ru_Chain r) (ru_Args r)))) (rs_Rules rs))
             (errorf ''meshfw: lifting rebuild guard'' (disengageGuard ipt wgIface)))))"

section \<open>Assertions\<close>

text \<open>The shape of a hook chain between calls: the guard jump is absent, or it is the
  first rule, only once, above the firewall jump. The guard chain holds nothing
  but the blanket DROP.\<close>

definition guard_top :: "string \<Rightarrow> tables \<Rightarrow> string \<Rightarrow> bool" where
  "guard_top i T h \<longleftrightarrow> (\<exists>rest. T TableFilter h = Some (fw_guard i # rest) \<and>
     fw_guard i \<notin> set rest \<and> fw_jump i \<in> set rest)"

definition guard_off :: "string \<Rightarrow> tables \<Rightarrow> string \<Rightarrow> bool" where
  "guard_off i T h \<longleftrightarrow> (\<exists>rules. T TableFilter h = Some rules \<and> fw_guard i \<notin> set rules)"

definition hooked :: "string \<Rightarrow> tables \<Rightarrow> string \<Rightarrow> bool" where
  "hooked i T h \<longleftrightarrow> (\<exists>rules. T TableFilter h = Some rules \<and> fw_jump i \<in> set rules)"

definition guard_chain_ok :: "tables \<Rightarrow> bool" where
  "guard_chain_ok T \<longleftrightarrow> (\<forall>ds. T TableFilter FWChainGuard = Some ds \<longrightarrow> set ds \<subseteq> {[''-j'', ''DROP'']})"

definition guard_chain_set :: "tables \<Rightarrow> bool" where
  "guard_chain_set T \<longleftrightarrow> (\<exists>ds. T TableFilter FWChainGuard = Some ds \<and> set ds = {[''-j'', ''DROP'']})"

definition fw_inv :: "string \<Rightarrow> tables \<Rightarrow> bool" where
  "fw_inv i T \<longleftrightarrow> guard_chain_ok T \<and> (\<forall>h\<in>set fw_hookChains. guard_top i T h \<or> guard_off i T h)"

text \<open>All mesh ingress is diverted to the guard.\<close>

definition fail_closed :: "string \<Rightarrow> tables \<Rightarrow> bool" where
  "fail_closed i T \<longleftrightarrow> guard_chain_set T \<and> (\<forall>h\<in>set fw_hookChains. guard_top i T h)"

definition same_chain :: "rulespec list option \<Rightarrow> tables \<Rightarrow> bool" where
  "same_chain old T \<longleftrightarrow> T TableFilter FWChain = old \<or> (old = None \<and> T TableFilter FWChain = Some [])"

text \<open>The safe states of a rebuild from \<^verbatim>\<open>old\<close> to \<^verbatim>\<open>new\<close>: the chain is still the old
  one, or the guard is in force, or the chain is complete.\<close>

definition rebuild_safe :: "string \<Rightarrow> rulespec list option \<Rightarrow> rulespec list \<Rightarrow> tables \<Rightarrow> bool" where
  "rebuild_safe i old new T \<longleftrightarrow> fw_inv i T \<and>
     (same_chain old T \<or> fail_closed i T \<or> T TableFilter FWChain = Some new)"

lemma chain_names_distinct [simp]:
  "FWChain \<noteq> FWChainGuard" "FWChainGuard \<noteq> FWChain"
  "h \<in> set fw_hookChains \<Longrightarrow> h \<noteq> FWChain" "h \<in> set fw_hookChains \<Longrightarrow> h \<noteq> FWChainGuard"
  by (auto simp: FWChain_def FWChainGuard_def fw_hookChains_def)

lemma jump_neq_guard [simp]: "fw_jump i \<noteq> fw_guard i" "fw_guard i \<noteq> fw_jump i"
  by (simp_all add: fw_jump_def fw_guard_def)

lemma hook_chain_cong:
  assumes "T' TableFilter h = T TableFilter h"
  shows "guard_top i T' h = guard_top i T h" "guard_off i T' h = guard_off i T h" "hooked i T' h = hooked i T h"
  using assms by (simp_all add: guard_top_def guard_off_def hooked_def)

lemma guard_top_hooked: "guard_top i T h \<Longrightarrow> hooked i T h"
  by (auto simp: guard_top_def hooked_def)

lemmas fw_asserts = fw_inv_def fail_closed_def rebuild_safe_def same_chain_def guard_chain_ok_def guard_chain_set_def

text \<open>Effect of updating one chain on the assertions.\<close>

lemma FWChain_not_hook [simp]: "FWChain \<notin> set fw_hookChains" "FWChainGuard \<notin> set fw_hookChains"
  by (auto simp: FWChain_def FWChainGuard_def fw_hookChains_def)

lemma fw_inv_other:
  "fw_inv i T \<Longrightarrow> c \<notin> set fw_hookChains \<Longrightarrow> c \<noteq> FWChainGuard \<Longrightarrow> fw_inv i (set_chain T TableFilter c v)"
  by (auto simp: fw_inv_def guard_chain_ok_def guard_top_def guard_off_def)

lemma fail_closed_other:
  "fail_closed i T \<Longrightarrow> c \<notin> set fw_hookChains \<Longrightarrow> c \<noteq> FWChainGuard \<Longrightarrow> fail_closed i (set_chain T TableFilter c v)"
  by (auto simp: fail_closed_def guard_chain_set_def guard_top_def)

lemma fw_inv_guard_chain:
  "fw_inv i T \<Longrightarrow> set ds \<subseteq> {[''-j'', ''DROP'']} \<Longrightarrow> fw_inv i (set_chain T TableFilter FWChainGuard (Some ds))"
  by (auto simp: fw_inv_def guard_chain_ok_def guard_top_def guard_off_def)

lemma same_chain_other [simp]:
  "c \<noteq> FWChain \<Longrightarrow> same_chain old (set_chain T TableFilter c v) = same_chain old T"
  by (simp add: same_chain_def)

lemma guard_chain_set_other [simp]:
  "c \<noteq> FWChainGuard \<Longrightarrow> guard_chain_set (set_chain T TableFilter c v) = guard_chain_set T"
  by (simp add: guard_chain_set_def)

lemma guard_chain_okD: "fw_inv i T \<Longrightarrow> T TableFilter FWChainGuard = Some ds \<Longrightarrow> set ds \<subseteq> {[''-j'', ''DROP'']}"
  by (simp add: fw_inv_def guard_chain_ok_def)

lemma fw_inv_guard_drop:
  "fw_inv i T \<Longrightarrow> T TableFilter FWChainGuard = Some ds \<Longrightarrow>
     fw_inv i (set_chain T TableFilter FWChainGuard (Some (ds @ [[''-j'', ''DROP'']])))"
  by (rule fw_inv_guard_chain) (auto dest: guard_chain_okD)

lemma fw_inv_hook:
  assumes "fw_inv i T" "guard_top i T' h \<or> guard_off i T' h" "T' = set_chain T TableFilter h v" "h \<in> set fw_hookChains"
  shows "fw_inv i T'"
  using assms by (auto simp: fw_inv_def guard_chain_ok_def guard_top_def guard_off_def)

lemma hook_state: "fw_inv i T \<Longrightarrow> h \<in> set fw_hookChains \<Longrightarrow> guard_top i T h \<or> guard_off i T h"
  by (simp add: fw_inv_def)

lemma insert_jump:
  assumes "fw_inv i T" "h \<in> set fw_hookChains" "T TableFilter h = Some rules" "fw_jump i \<notin> set rules"
  shows "fw_inv i (set_chain T TableFilter h (Some (fw_jump i # rules)))"
  using assms hook_state [OF assms(1,2)]
  by (intro fw_inv_hook [OF assms(1) _ refl]) (auto simp: guard_top_def guard_off_def)

lemma insert_guard:
  assumes "T TableFilter h = Some rules" "fw_guard i \<notin> set rules" "hooked i T h"
  shows "guard_top i (set_chain T TableFilter h (Some (fw_guard i # rules))) h"
  using assms by (auto simp: guard_top_def hooked_def)

lemma remove_guard:
  assumes "fw_inv i T" "h \<in> set fw_hookChains" "T TableFilter h = Some rules" "fw_guard i \<in> set rules"
  shows "guard_off i (set_chain T TableFilter h (Some (remove1 (fw_guard i) rules))) h"
    "hooked i (set_chain T TableFilter h (Some (remove1 (fw_guard i) rules))) h"
  using assms hook_state [OF assms(1,2)] by (auto simp: guard_top_def guard_off_def hooked_def)

lemma guard_there:
  "fw_inv i T \<Longrightarrow> h \<in> set fw_hookChains \<Longrightarrow> T TableFilter h = Some rules \<Longrightarrow> fw_guard i \<in> set rules \<Longrightarrow> guard_top i T h"
  by (drule (1) hook_state) (auto simp: guard_off_def)

lemma hook_exists: "fw_inv i T \<Longrightarrow> h \<in> set fw_hookChains \<Longrightarrow> \<exists>rules. T TableFilter h = Some rules"
  by (drule (1) hook_state) (auto simp: guard_top_def guard_off_def)

lemma hook_other [simp]:
  assumes "h' \<noteq> h"
  shows "guard_top i (set_chain T TableFilter h v) h' = guard_top i T h'"
    "guard_off i (set_chain T TableFilter h v) h' = guard_off i T h'"
    "hooked i (set_chain T TableFilter h v) h' = hooked i T h'"
  using assms by (simp_all add: guard_top_def guard_off_def hooked_def)

lemma fail_closed_inv: "fail_closed i T \<Longrightarrow> fw_inv i T"
  by (auto simp: fail_closed_def fw_inv_def guard_chain_set_def guard_chain_ok_def)

text \<open>The assertions of the phases of a rebuild.\<close>

definition fw_ready :: "string \<Rightarrow> rulespec list option \<Rightarrow> string list \<Rightarrow> tables \<Rightarrow> bool" where
  "fw_ready i old hs T \<longleftrightarrow> fw_inv i T \<and> same_chain old T \<and> T TableFilter FWChain \<noteq> None \<and> guard_chain_set T \<and>
     (\<forall>h\<in>set hs. hooked i T h)"

definition fw_engaging :: "string \<Rightarrow> rulespec list option \<Rightarrow> string list \<Rightarrow> tables \<Rightarrow> bool" where
  "fw_engaging i old hs T \<longleftrightarrow> fw_ready i old fw_hookChains T \<and> (\<forall>h\<in>set hs. guard_top i T h)"

definition fw_filling :: "string \<Rightarrow> rulespec list \<Rightarrow> tables \<Rightarrow> bool" where
  "fw_filling i rules T \<longleftrightarrow> fail_closed i T \<and> T TableFilter FWChain = Some rules"

definition fw_lifting :: "string \<Rightarrow> rulespec list \<Rightarrow> string list \<Rightarrow> tables \<Rightarrow> bool" where
  "fw_lifting i new hs T \<longleftrightarrow> fw_inv i T \<and> guard_chain_set T \<and> T TableFilter FWChain = Some new \<and>
     (\<forall>h\<in>set fw_hookChains. hooked i T h) \<and> (\<forall>h\<in>set hs. guard_off i T h)"

lemma phases_safe:
  "fw_ready i old hs T \<Longrightarrow> rebuild_safe i old new T"
  "fw_engaging i old hs T \<Longrightarrow> rebuild_safe i old new T"
  "fw_filling i rules T \<Longrightarrow> rebuild_safe i old new T"
  "fw_lifting i new hs T \<Longrightarrow> rebuild_safe i old new T"
  by (auto simp: fw_ready_def fw_engaging_def fw_filling_def fw_lifting_def rebuild_safe_def fail_closed_inv)

context iptables_handle
begin

lemma ensureChain_FW:
  "holds tables (\<lambda>T. fw_inv i T \<and> same_chain old T) (fw_ensureChain ipt FWChain)
     (\<lambda>_ T. fw_inv i T \<and> same_chain old T \<and> T TableFilter FWChain \<noteq> None) (rebuild_safe i old new)"
  unfolding fw_ensureChain_def
  by (rule unless_chain) (auto simp: rebuild_safe_def same_chain_def fw_inv_other)

lemma ensureGuardChain_ready:
  "holds tables (\<lambda>T. fw_inv i T \<and> same_chain old T \<and> T TableFilter FWChain \<noteq> None) (fw_ensureGuardChain ipt)
     (\<lambda>_. fw_ready i old []) (rebuild_safe i old new)"
  unfolding fw_ensureGuardChain_def
proof (rule holds_seq)
  let ?P = "\<lambda>T. fw_inv i T \<and> same_chain old T \<and> T TableFilter FWChain \<noteq> None"
  let ?Q = "\<lambda>T. ?P T \<and> T TableFilter FWChainGuard \<noteq> None"
  show "holds tables ?P (fw_ensureChain ipt FWChainGuard) (\<lambda>_. ?Q) (rebuild_safe i old new)"
    unfolding fw_ensureChain_def
    by (rule unless_chain) (auto simp: rebuild_safe_def fw_inv_guard_chain)
  show "holds tables ?Q (bind_run (errorf ''meshfw: checking guard DROP''
        (call (ipt_Exists ipt TableFilter FWChainGuard [''-j'', ''DROP''])))
      (\<lambda>exists. if \<not> exists
         then errorf ''meshfw: installing guard DROP'' (call (ipt_Append ipt TableFilter FWChainGuard [''-j'', ''DROP'']))
         else ret ())) (\<lambda>_. fw_ready i old []) (rebuild_safe i old new)"
    by (rule unless_appended)
      (auto simp: rebuild_safe_def fw_ready_def guard_chain_set_def fw_inv_guard_drop dest: guard_chain_okD)
qed

lemma ensureInfra_ready:
  "holds tables (\<lambda>T. fw_inv i T \<and> same_chain old T) (fw_ensureInfra ipt i)
     (\<lambda>_. fw_ready i old fw_hookChains) (rebuild_safe i old new)"
proof -
  have "holds tables (fw_ready i old []) (for_each (fw_ensureHook ipt i) fw_hookChains)
      (\<lambda>_. fw_ready i old fw_hookChains) (rebuild_safe i old new)"
  proof (rule holds_for_each)
    fix hs h rest assume "fw_hookChains = hs @ h # rest"
    then have h: "h \<in> set fw_hookChains" by (metis in_set_conv_decomp)
    show "holds tables (fw_ready i old hs) (fw_ensureHook ipt i h) (\<lambda>_. fw_ready i old (hs @ [h])) (rebuild_safe i old new)"
      unfolding fw_ensureHook_def
    proof (rule unless_inserted)
      show "fw_ready i old hs T \<Longrightarrow> \<exists>rules. T TableFilter h = Some rules \<and> fw_jump i \<in> set rules \<Longrightarrow>
          fw_ready i old (hs @ [h]) T" for T
        by (simp add: fw_ready_def hooked_def)
      fix T T' assume P: "fw_ready i old hs T"
        and no: "\<nexists>rules. T TableFilter h = Some rules \<and> fw_jump i \<in> set rules"
        and eff: "\<exists>rules. T TableFilter h = Some rules \<and> T' = set_chain T TableFilter h (Some (fw_jump i # rules))"
      then obtain rules where rules: "T TableFilter h = Some rules" "fw_jump i \<notin> set rules"
        "T' = set_chain T TableFilter h (Some (fw_jump i # rules))" by blast
      have "hooked i T' h' \<or> h' = h" if "hooked i T h'" for h' using that rules by (cases "h' = h") auto
      moreover have "hooked i T' h" using rules by (simp add: hooked_def)
      moreover have "fw_inv i T'" using P h rules by (simp add: fw_ready_def insert_jump)
      ultimately have "fw_ready i old (hs @ [h]) T'"
        using P rules(3) h by (auto simp: fw_ready_def)
      then show "rebuild_safe i old new T' \<and> fw_ready i old (hs @ [h]) T'" by (simp add: phases_safe)
    qed (rule phases_safe)
  qed (rule phases_safe)
  then show ?thesis
    unfolding fw_ensureInfra_def by (intro holds_seq [OF ensureChain_FW] holds_seq [OF ensureGuardChain_ready])
qed

lemma engageGuard_closes:
  "holds tables (fw_ready i old fw_hookChains) (engageGuard ipt i)
     (\<lambda>_. fw_engaging i old fw_hookChains) (rebuild_safe i old new)"
proof -
  have "holds tables (fw_engaging i old []) (engageGuard ipt i)
      (\<lambda>_. fw_engaging i old fw_hookChains) (rebuild_safe i old new)"
    unfolding engageGuard_def
  proof (rule holds_for_each)
    fix hs h rest assume "fw_hookChains = hs @ h # rest"
    then have h: "h \<in> set fw_hookChains" by (metis in_set_conv_decomp)
    show "holds tables (fw_engaging i old hs)
        (bind_run (errorf (''meshfw: checking '' @ h @ '' guard hook'') (call (ipt_Exists ipt TableFilter h (fw_guard i))))
          (\<lambda>exists. if \<not> exists
             then errorf (''meshfw: engaging '' @ h @ '' guard'') (call (ipt_Insert1 ipt TableFilter h (fw_guard i)))
             else ret ())) (\<lambda>_. fw_engaging i old (hs @ [h])) (rebuild_safe i old new)"
    proof (rule unless_inserted)
      show "fw_engaging i old hs T \<Longrightarrow> \<exists>rules. T TableFilter h = Some rules \<and> fw_guard i \<in> set rules \<Longrightarrow>
          fw_engaging i old (hs @ [h]) T" for T
        using guard_there [OF _ h] by (auto simp: fw_engaging_def fw_ready_def)
      fix T T' assume P: "fw_engaging i old hs T"
        and no: "\<nexists>rules. T TableFilter h = Some rules \<and> fw_guard i \<in> set rules"
        and eff: "\<exists>rules. T TableFilter h = Some rules \<and> T' = set_chain T TableFilter h (Some (fw_guard i # rules))"
      then obtain rules where rules: "T TableFilter h = Some rules" "fw_guard i \<notin> set rules"
        "T' = set_chain T TableFilter h (Some (fw_guard i # rules))" by blast
      have top: "guard_top i T' h" using P h rules by (simp add: insert_guard fw_engaging_def fw_ready_def)
      have keep: "hooked i T h' \<Longrightarrow> hooked i T' h'" "guard_top i T h' \<Longrightarrow> guard_top i T' h'" for h'
        using top guard_top_hooked [OF top] rules(3) by (cases "h' = h"; simp)+
      have "fw_inv i T'" using P h top rules(3) by (auto intro: fw_inv_hook simp: fw_engaging_def fw_ready_def)
      then have "fw_engaging i old (hs @ [h]) T'"
        using P top keep h rules(3) by (auto simp: fw_engaging_def fw_ready_def)
      then show "rebuild_safe i old new T' \<and> fw_engaging i old (hs @ [h]) T'" by (simp add: phases_safe)
    qed (rule phases_safe)
  qed (rule phases_safe)
  then show ?thesis by (rule holds_conseq) (simp_all add: fw_engaging_def)
qed

lemma engaged_closed: "fw_engaging i old fw_hookChains T \<Longrightarrow> fail_closed i T"
  by (simp add: fw_engaging_def fw_ready_def fail_closed_def)

lemma fill_complete:
  fixes rules :: "Rule list"
  assumes "\<And>r. r \<in> set rules \<Longrightarrow> ru_Chain r = FWChain"
  shows "holds tables (fw_filling i []) (for_each (\<lambda>r. errorf (''meshfw: appending to '' @ ru_Chain r @ '' '' @ fmt_strings (ru_Args r))
        (call (ipt_Append ipt TableFilter (ru_Chain r) (ru_Args r)))) rules)
     (\<lambda>_. fw_filling i (map ru_Args rules)) (rebuild_safe i old new)"
proof -
  have "holds tables (fw_filling i (map ru_Args ([] :: Rule list))) (for_each (\<lambda>r. errorf (''meshfw: appending to '' @ ru_Chain r @ '' '' @ fmt_strings (ru_Args r))
        (call (ipt_Append ipt TableFilter (ru_Chain r) (ru_Args r)))) rules)
     (\<lambda>_. fw_filling i (map ru_Args rules)) (rebuild_safe i old new)"
  proof (rule holds_for_each [where J = "\<lambda>rs :: Rule list. fw_filling i (map ru_Args rs)"])
    fix rs r rest assume "rules = rs @ r # rest"
    then have c: "ru_Chain r = FWChain" using assms by simp
    show "holds tables (fw_filling i (map ru_Args rs)) (errorf (''meshfw: appending to '' @ ru_Chain r @ '' '' @ fmt_strings (ru_Args r))
        (call (ipt_Append ipt TableFilter (ru_Chain r) (ru_Args r)))) (\<lambda>_. fw_filling i (map ru_Args (rs @ [r]))) (rebuild_safe i old new)"
      unfolding c by (rule appended) (auto simp: phases_safe fw_filling_def fail_closed_other rebuild_safe_def fw_inv_other fail_closed_inv)
  qed (simp add: phases_safe)
  then show ?thesis by simp
qed

lemma disengageGuard_opens:
  "holds tables (fw_filling i new) (disengageGuard ipt i) (\<lambda>_. fw_lifting i new fw_hookChains) (rebuild_safe i old new)"
proof -
  have "holds tables (fw_lifting i new []) (disengageGuard ipt i) (\<lambda>_. fw_lifting i new fw_hookChains) (rebuild_safe i old new)"
    unfolding disengageGuard_def
  proof (rule holds_for_each)
    fix hs h rest assume "fw_hookChains = hs @ h # rest"
    then have h: "h \<in> set fw_hookChains" by (metis in_set_conv_decomp)
    show "holds tables (fw_lifting i new hs)
        (bind_run (errorf (''meshfw: checking '' @ h @ '' guard hook'') (call (ipt_Exists ipt TableFilter h (fw_guard i))))
          (\<lambda>exists. if exists
             then errorf (''meshfw: disengaging '' @ h @ '' guard'') (call (ipt_Delete ipt TableFilter h (fw_guard i)))
             else ret ())) (\<lambda>_. fw_lifting i new (hs @ [h])) (rebuild_safe i old new)"
    proof (rule when_deleted)
      show "fw_lifting i new hs T \<Longrightarrow> \<nexists>rules. T TableFilter h = Some rules \<and> fw_guard i \<in> set rules \<Longrightarrow>
          fw_lifting i new (hs @ [h]) T" for T
        using hook_exists [OF _ h, of i T] by (auto simp: fw_lifting_def guard_off_def)
      fix T T' assume P: "fw_lifting i new hs T"
        and eff: "\<exists>rules. T TableFilter h = Some rules \<and> fw_guard i \<in> set rules \<and>
          T' = set_chain T TableFilter h (Some (remove1 (fw_guard i) rules))"
      then obtain rules where rules: "T TableFilter h = Some rules" "fw_guard i \<in> set rules"
        "T' = set_chain T TableFilter h (Some (remove1 (fw_guard i) rules))" by blast
      have inv: "fw_inv i T" using P by (simp add: fw_lifting_def)
      note off = remove_guard [OF inv h, of rules, OF rules(1,2), folded rules(3)]
      have keep: "hooked i T h' \<Longrightarrow> hooked i T' h'" "guard_off i T h' \<Longrightarrow> guard_off i T' h'" for h'
        using off rules(3) by (cases "h' = h"; simp)+
      have "fw_inv i T'" using inv h off rules(3) by (auto intro: fw_inv_hook)
      then have "fw_lifting i new (hs @ [h]) T'"
        using P off keep h rules(3) by (auto simp: fw_lifting_def)
      then show "rebuild_safe i old new T' \<and> fw_lifting i new (hs @ [h]) T'" by (simp add: phases_safe)
    qed (rule phases_safe)
  qed (rule phases_safe)
  then show ?thesis
    by (rule holds_conseq) (auto simp: fw_lifting_def fw_filling_def fail_closed_inv fail_closed_def guard_top_hooked)
qed

lemma SyncFirewall_phases:
  assumes "\<And>r. r \<in> set (rs_Rules rs) \<Longrightarrow> ru_Chain r = FWChain"
  shows "holds tables (\<lambda>T. fw_inv i T \<and> same_chain old T) (SyncFirewall ipt i rs)
    (\<lambda>_. fw_lifting i (map ru_Args (rs_Rules rs)) fw_hookChains) (rebuild_safe i old (map ru_Args (rs_Rules rs)))"
  unfolding SyncFirewall_def
proof (intro holds_seq [OF ensureInfra_ready] holds_seq [OF engageGuard_closes])
  let ?new = "map ru_Args (rs_Rules rs)"
  have "holds tables (fw_engaging i old fw_hookChains) (errorf (''meshfw: flushing '' @ FWChain) (call (ipt_ClearChain ipt TableFilter FWChain)))
      (\<lambda>_. fw_filling i []) (rebuild_safe i old ?new)"
    by (rule cleared) (auto simp: phases_safe fw_filling_def fail_closed_other dest: engaged_closed)
  then show "holds tables (fw_engaging i old fw_hookChains)
     (seq (errorf (''meshfw: flushing '' @ FWChain) (call (ipt_ClearChain ipt TableFilter FWChain)))
       (seq (for_each (\<lambda>r. errorf (''meshfw: appending to '' @ ru_Chain r @ '' '' @ fmt_strings (ru_Args r))
            (call (ipt_Append ipt TableFilter (ru_Chain r) (ru_Args r)))) (rs_Rules rs))
         (errorf ''meshfw: lifting rebuild guard'' (disengageGuard ipt i))))
     (\<lambda>_. fw_lifting i ?new fw_hookChains) (rebuild_safe i old ?new)"
    by (rule holds_seq) (intro holds_seq [OF fill_complete] holds_errorf disengageGuard_opens assms)
qed

end

section \<open>What a mesh packet meets\<close>

text \<open>Evaluation of a hook chain on a packet that arrived on the mesh interface: the
  two jumps of the manager enter its chains, the other rules of the chain are
  foreign and have an arbitrary verdict.\<close>

definition enter :: "tables \<Rightarrow> string \<Rightarrow> packet \<Rightarrow> verdict" where
  "enter T c p = (case T TableFilter c of None \<Rightarrow> VReturn | Some rules \<Rightarrow> chain_verdict rules p)"

fun hook_verdict :: "(rulespec \<Rightarrow> packet \<Rightarrow> verdict) \<Rightarrow> string \<Rightarrow> tables \<Rightarrow> rulespec list \<Rightarrow> packet \<Rightarrow> verdict" where
  "hook_verdict foreign i T [] p = VReturn"
| "hook_verdict foreign i T (r # rs) p =
     (let v = (if r = fw_guard i then enter T FWChainGuard p
               else if r = fw_jump i then enter T FWChain p else foreign r p)
      in if v = VReturn then hook_verdict foreign i T rs p else v)"

definition drops_mesh :: "string \<Rightarrow> tables \<Rightarrow> bool" where
  "drops_mesh i T \<longleftrightarrow> (\<forall>h\<in>set fw_hookChains. \<exists>rules. T TableFilter h = Some rules \<and>
     (\<forall>foreign p. hook_verdict foreign i T rules p = VDrop))"

lemma guard_drops: "guard_chain_set T \<Longrightarrow> enter T FWChainGuard p = VDrop"
proof -
  assume "guard_chain_set T"
  then obtain ds where ds: "T TableFilter FWChainGuard = Some ds" "set ds = {[''-j'', ''DROP'']}"
    by (auto simp: guard_chain_set_def)
  then obtain ds' where "ds = [''-j'', ''DROP''] # ds'" by (cases ds) auto
  then show ?thesis using ds(1) by (simp add: enter_def)
qed

lemma fail_closed_drops: "fail_closed i T \<Longrightarrow> drops_mesh i T"
  by (auto simp: fail_closed_def drops_mesh_def guard_top_def guard_drops Let_def)

lemma SyncFirewall_safety:
  assumes "iptables_handle ipt tables" and "fw_inv wgIface (tables s)"
    and "SyncFirewall ipt wgIface (BuildFirewall policies clusterCIDRs) s = (r, s', visited)"
  shows "(\<forall>u\<in>set (s' # visited). fw_inv wgIface (tables u) \<and>
      (same_chain (tables s TableFilter FWChain) (tables u) \<or> drops_mesh wgIface (tables u) \<or>
       (\<forall>p. enter (tables u) FWChain p = policy_verdict policies clusterCIDRs p))) \<and>
    (r = Inr () \<longrightarrow> tables s' TableFilter FWChain = Some (fw_chain (BuildFirewall policies clusterCIDRs)) \<and>
      (\<forall>h\<in>set fw_hookChains. hooked wgIface (tables s') h \<and> guard_off wgIface (tables s') h))"
proof -
  let ?old = "tables s TableFilter FWChain" and ?rs = "BuildFirewall policies clusterCIDRs"
  have pre: "fw_inv wgIface (tables s) \<and> same_chain ?old (tables s)" using assms(2) by (simp add: same_chain_def)
  have "holds tables (\<lambda>T. fw_inv wgIface T \<and> same_chain ?old T) (SyncFirewall ipt wgIface ?rs)
      (\<lambda>_. fw_lifting wgIface (fw_chain ?rs) fw_hookChains) (rebuild_safe wgIface ?old (fw_chain ?rs))"
    unfolding fw_chain_def using assms(1) BuildFirewall_chain by (rule iptables_handle.SyncFirewall_phases)
  note phases = holdsD [OF this, OF pre assms(3)]
  have safe: "fw_inv wgIface T \<and> (same_chain ?old T \<or> drops_mesh wgIface T \<or>
      (\<forall>p. enter T FWChain p = policy_verdict policies clusterCIDRs p))"
    if "rebuild_safe wgIface ?old (fw_chain ?rs) T" for T
    using that by (auto simp: rebuild_safe_def enter_def BuildFirewall_verdict dest: fail_closed_drops)
  have "rebuild_safe wgIface ?old (fw_chain ?rs) (tables s')"
    using phases(2,3) phases_safe(4) by (cases r) blast+
  then show ?thesis using phases(1,2) safe by (auto simp: fw_lifting_def)
qed

text \<open>C1. Rebuilding the firewall is fail-closed. Whatever calls fail, in every
  kernel state of a rebuild, the last one included, the mesh chain still holds
  its old rules, or every packet that arrives on the mesh interface is dropped
  whatever foreign rules the hook chains hold, or the mesh chain is complete
  and gives every packet the verdict of the policies; and the state admits
  another rebuild. A rebuild that reports success leaves the complete chain,
  reached from both hooks, with the guard lifted.\<close>

theorem SyncFirewall_fail_closed:
  assumes "iptables_handle ipt tables" and "fw_inv wgIface (tables s)"
    and "SyncFirewall ipt wgIface (BuildFirewall policies clusterCIDRs) s = (r, s', visited)"
  shows "(\<forall>u\<in>set (s' # visited). fw_inv wgIface (tables u) \<and>
      (same_chain (tables s TableFilter FWChain) (tables u) \<or> drops_mesh wgIface (tables u) \<or>
       (\<forall>p. enter (tables u) FWChain p = policy_verdict policies clusterCIDRs p))) \<and>
    (r = Inr () \<longrightarrow> tables s' TableFilter FWChain = Some (fw_chain (BuildFirewall policies clusterCIDRs)) \<and>
      (\<forall>h\<in>set fw_hookChains. hooked wgIface (tables s') h \<and> guard_off wgIface (tables s') h))"
  using assms by (rule SyncFirewall_safety)

text \<open>A host whose append of the first rule fails.\<close>

definition fw_host :: kernel where
  "fw_host = \<lparr>k_chains = [(''filter'', ''FORWARD''), (''filter'', ''INPUT''), (''filter'', ''DWX-MESH-FW'')],
     k_rules = (\<lambda>_. [[''-j'', ''KUBE-FORWARD'']]), k_faults = replicate 14 False @ [True]\<rparr>"

lemma fw_host_inv: "fw_inv ''wg0'' (k_tables fw_host)"
  by (simp add: fw_inv_def guard_chain_ok_def guard_off_def fw_hookChains_def fw_host_def k_tables_def
      TableFilter_def FWChainGuard_def fw_guard_def)

lemma fw_host_run:
  "\<exists>e s' l. SyncFirewall kernel_iptables ''wg0'' (BuildFirewall [] (\<lambda>_. [])) fw_host = (Inl e, s', l) \<and>
     k_tables s' TableFilter FWChain = Some []"
  by (simp add: SyncFirewall_def fw_ensureInfra_def fw_ensureChain_def fw_ensureGuardChain_def fw_ensureHook_def
      engageGuard_def fw_hookChains_def seq_def bind_run_def errorf_def call_def ret_def kernel_iptables_def
      k_step_def k_put_def k_has_def fw_host_def BuildFirewall_def ruleset_def TableFilter_def FWChain_def FWChainGuard_def
      fw_jump_def fw_guard_def k_tables_def Let_def go_eval)

lemma emptied_chain_drops:
  assumes "T TableFilter FWChain = Some []" "same_chain (Some [r]) T \<or> drops_mesh i T \<or>
    (\<forall>p. enter T FWChain p = policy_verdict [] cl p)"
  shows "drops_mesh i T"
proof -
  let ?p = "\<lparr>pk_src = 0, pk_dst = 0, pk_proto = ''tcp'', pk_dport = 0, pk_established = True\<rparr>"
  have "enter T FWChain ?p \<noteq> policy_verdict [] cl ?p" using assms(1) by (simp add: enter_def policy_verdict_def)
  moreover have "\<not> same_chain (Some [r]) T" using assms(1) by (simp add: same_chain_def)
  ultimately show ?thesis using assms(2) by blast
qed

theorem SyncFirewall_fail_closed_witness:
  "iptables_handle kernel_iptables k_tables \<and> fw_inv ''wg0'' (k_tables fw_host) \<and>
   (\<exists>e s' l. SyncFirewall kernel_iptables ''wg0'' (BuildFirewall [] (\<lambda>_. [])) fw_host = (Inl e, s', l) \<and>
      k_tables s' TableFilter FWChain = Some [] \<and> drops_mesh ''wg0'' (k_tables s'))"
proof -
  obtain e s' l where run: "SyncFirewall kernel_iptables ''wg0'' (BuildFirewall [] (\<lambda>_. [])) fw_host = (Inl e, s', l)"
    and flushed: "k_tables s' TableFilter FWChain = Some []" using fw_host_run by blast
  have old: "k_tables fw_host TableFilter FWChain = Some [[''-j'', ''KUBE-FORWARD'']]"
    by (simp add: fw_host_def k_tables_def TableFilter_def FWChain_def)
  have "drops_mesh ''wg0'' (k_tables s')"
    using flushed SyncFirewall_fail_closed [OF kern.iptables_handle_axioms fw_host_inv run] unfolding old
    by (intro emptied_chain_drops) auto
  with run flushed show ?thesis using kern.iptables_handle_axioms fw_host_inv by auto
qed

end
