(* ===== verification/Nat_Plan.thy ===== *)
theory Nat_Plan
  imports Topology_Remap
begin

text \<open>
  \<^verbatim>\<open>pkg/nat\<close>: the pure planners of the NAT tables. \<^verbatim>\<open>BuildRuleset\<close> expands the
  imported services into chains that balance a ClusterSetIP over its backends,
  \<^verbatim>\<open>BuildRemapRules\<close> the 1:1 translations of overlapping ranges,
  \<^verbatim>\<open>BuildNoMasqRules\<close> and \<^verbatim>\<open>BuildGatewayMasqRules\<close> the masquerade rules. Rules have
  a semantics as a walk of a packet through the chains, against which the
  planners are proved correct.
\<close>

section \<open>Base32 and fixed-point formatting\<close>

definition bits_of_byte :: "8 word \<Rightarrow> bool list" where
  "bits_of_byte b = map (bit b) (rev [0..<8])"

fun nat_of_bits :: "bool list \<Rightarrow> nat \<Rightarrow> nat" where
  "nat_of_bits [] n = n"
| "nat_of_bits (b # bs) n = nat_of_bits bs (2 * n + of_bool b)"

definition base32_char :: "nat \<Rightarrow> char" where
  "base32_char n = (if n < 26 then char_of (65 + n) else char_of (24 + n))"

fun base32_bits :: "bool list \<Rightarrow> string" where
  "base32_bits (a # b # c # d # e # r) = base32_char (nat_of_bits [a, b, c, d, e] 0) # base32_bits r"
| "base32_bits [] = []"
| "base32_bits bs = [base32_char (nat_of_bits (bs @ replicate (5 - length bs) False) 0)]"

text \<open>\<^verbatim>\<open>base32.StdEncoding.WithPadding(NoPadding)\<close>.\<close>

definition base32_encode :: "8 word list \<Rightarrow> string" where
  "base32_encode bs = base32_bits (concat (map bits_of_byte bs))"

text \<open>\<^verbatim>\<open>strconv.FormatFloat(1.0 / float64(k), 'f', 10, 64)\<close> for an integer of at least
  two: the quotient is the nearest double (53 significant bits, ties to even),
  printed with the nearest ten decimals (ties to even).\<close>

definition round_half_even :: "nat \<Rightarrow> nat \<Rightarrow> nat" where
  "round_half_even a b =
     (let q = a div b; r = a mod b
      in if 2 * r < b \<or> (2 * r = b \<and> even q) then q else q + 1)"

fun ceil_log2 :: "nat \<Rightarrow> nat" where
  "ceil_log2 k = (if k \<le> 1 then 0 else Suc (ceil_log2 ((k + 1) div 2)))"

declare ceil_log2.simps [simp del]

definition double_inverse :: "nat \<Rightarrow> nat \<times> nat" where
  "double_inverse k = (let e = 52 + ceil_log2 k in (round_half_even (2 ^ e) k, e))"

definition pad_left :: "nat \<Rightarrow> string \<Rightarrow> string" where
  "pad_left n s = replicate (n - length s) (CHR ''0'') @ s"

definition format_inverse :: "nat \<Rightarrow> string" where
  "format_inverse k = (case double_inverse k of (m, e) \<Rightarrow>
     ''0.'' @ pad_left 10 (itoa (round_half_even (m * 10 ^ 10) (2 ^ e))))"

section \<open>Data\<close>

definition TableNAT :: string where "TableNAT = ''nat''"
definition RootChain :: string where "RootChain = ''DWX-CLUSTERSET''"
definition svcChainPrefix :: string where "svcChainPrefix = ''DWX-SVC-''"
definition sepChainPrefix :: string where "sepChainPrefix = ''DWX-SEP-''"

record PortDNAT =
  pd_Protocol :: string
  pd_Port :: int

record ServiceDNAT =
  sd_Namespace :: string
  sd_Name :: string
  sd_VIP :: string
  sd_Ports :: "PortDNAT list"
  sd_Backends :: "string list"

record NatRule =
  nr_Chain :: string
  nr_Args :: "string list"

record NatRuleset =
  ns_Chains :: "string list"
  ns_Rules :: "NatRule list"

section \<open>The ClusterSetIP planner\<close>

definition isIPv6 :: "string \<Rightarrow> bool" where
  "isIPv6 ip \<longleftrightarrow> CHR '':'' \<in> set ip"

definition nat_hostCIDR :: "string \<Rightarrow> string" where
  "nat_hostCIDR ip = (if isIPv6 ip then ip @ ''/128'' else ip @ ''/32'')"

definition dnatTarget :: "string \<Rightarrow> string \<Rightarrow> string" where
  "dnatTarget ip port = (if isIPv6 ip then ''['' @ ip @ '']:'' @ port else ip @ '':'' @ port)"

definition nat_normalizeProto :: "string \<Rightarrow> string" where
  "nat_normalizeProto p = (let q = to_lower (trim_space p) in if q = '''' then ''tcp'' else q)"

definition hashChain :: "string \<Rightarrow> string list \<Rightarrow> string" where
  "hashChain prefix parts = prefix @ take 16 (base32_encode (sha256 (join [CHR 0x00] parts)))"

definition sortedKeys :: "string list \<Rightarrow> string list" where
  "sortedKeys m = sorted_set m"

definition uniqueSortedStrings :: "string list \<Rightarrow> string list" where
  "uniqueSortedStrings xs = sortedKeys (filter (\<lambda>s. s \<noteq> '''') xs)"

definition nat_port_key :: "PortDNAT \<Rightarrow> string" where
  "nat_port_key p = itoa_int (pd_Port p) @ ''/'' @ nat_normalizeProto (pd_Protocol p)"

definition nat_sortedPorts :: "PortDNAT list \<Rightarrow> PortDNAT list" where
  "nat_sortedPorts ports =
     sort_key (\<lambda>p. (pd_Port p, pd_Protocol p))
       (map (\<lambda>p. \<lparr>pd_Protocol = nat_normalizeProto (pd_Protocol p), pd_Port = pd_Port p\<rparr>)
         (first_by nat_port_key ports))"

definition svc_chain :: "ServiceDNAT \<Rightarrow> string \<Rightarrow> string \<Rightarrow> string" where
  "svc_chain s proto port = hashChain svcChainPrefix [sd_Namespace s, sd_Name s, proto, port]"

definition sep_chain :: "ServiceDNAT \<Rightarrow> string \<Rightarrow> string \<Rightarrow> string \<Rightarrow> string" where
  "sep_chain s proto port b = hashChain sepChainPrefix [sd_Namespace s, sd_Name s, proto, port, b]"

fun lb_rules :: "string \<Rightarrow> string list \<Rightarrow> NatRule list" where
  "lb_rules svcChain [] = []"
| "lb_rules svcChain [c] = [\<lparr>nr_Chain = svcChain, nr_Args = [''-j'', c]\<rparr>]"
| "lb_rules svcChain (c # cs) =
     \<lparr>nr_Chain = svcChain,
      nr_Args = [''-m'', ''statistic'', ''--mode'', ''random'', ''--probability'',
                 format_inverse (Suc (length cs)), ''-j'', c]\<rparr> # lb_rules svcChain cs"

definition appendPortRules :: "ServiceDNAT \<Rightarrow> string list \<Rightarrow> PortDNAT \<Rightarrow> NatRuleset \<Rightarrow> NatRuleset" where
  "appendPortRules s backends p rs =
     (let proto = nat_normalizeProto (pd_Protocol p);
          port = itoa_int (pd_Port p);
          svcChain = svc_chain s proto port;
          sepChains = map (sep_chain s proto port) backends
      in \<lparr>ns_Chains = ns_Chains rs @ svcChain # sepChains,
          ns_Rules = ns_Rules rs
            @ [\<lparr>nr_Chain = RootChain, nr_Args = [''-d'', nat_hostCIDR (sd_VIP s), ''-p'', proto, ''-m'', proto,
                                           ''--dport'', port, ''-j'', svcChain]\<rparr>]
            @ lb_rules svcChain sepChains
            @ map (\<lambda>b. \<lparr>nr_Chain = sep_chain s proto port b,
                        nr_Args = [''-p'', proto, ''-j'', ''DNAT'', ''--to-destination'', dnatTarget b port]\<rparr>) backends\<rparr>)"

definition nat_service :: "ServiceDNAT \<Rightarrow> NatRuleset \<Rightarrow> NatRuleset" where
  "nat_service s rs =
     (if sd_VIP s = '''' \<or> sd_Ports s = [] \<or> sd_Backends s = [] then rs
      else fold (appendPortRules s (uniqueSortedStrings (sd_Backends s))) (nat_sortedPorts (sd_Ports s)) rs)"

definition BuildRuleset :: "ServiceDNAT list \<Rightarrow> NatRuleset" where
  "BuildRuleset services =
     (let svcs = sort_key (\<lambda>s. (sd_Namespace s, sd_Name s)) services;
          rs = fold nat_service svcs \<lparr>ns_Chains = [], ns_Rules = []\<rparr>
      in rs\<lparr>ns_Chains := sortedKeys (ns_Chains rs)\<rparr>)"

section \<open>Remap, exemption and gateway planners\<close>

definition RemapPreChain :: string where "RemapPreChain = ''DWX-REMAP-PRE''"
definition RemapPostChain :: string where "RemapPostChain = ''DWX-REMAP-POST''"

record RemapEntry =
  re_Real :: string
  re_Virtual :: string

definition BuildRemapRules :: "RemapEntry list \<Rightarrow> NatRule list" where
  "BuildRemapRules entries =
     (let uniq = sort_key (\<lambda>e. (re_Virtual e, re_Real e))
                   (dedup_first (filter (\<lambda>e. \<not> (re_Real e = '''' \<or> re_Virtual e = '''')) entries))
      in map (\<lambda>e. \<lparr>nr_Chain = RemapPreChain,
                   nr_Args = [''-d'', re_Virtual e, ''-j'', ''NETMAP'', ''--to'', re_Real e]\<rparr>) uniq
       @ map (\<lambda>e. \<lparr>nr_Chain = RemapPostChain,
                   nr_Args = [''-s'', re_Real e, ''-j'', ''NETMAP'', ''--to'', re_Virtual e]\<rparr>) uniq)"

definition NoMasqChain :: string where "NoMasqChain = ''DWX-MESH-NOMASQ''"

definition nat_dedupeSorted :: "string list \<Rightarrow> string list" where
  "nat_dedupeSorted xs = sort (dedup_first (filter (\<lambda>s. s \<noteq> '''') xs))"

definition BuildNoMasqRules :: "string list \<Rightarrow> string list \<Rightarrow> NatRule list" where
  "BuildNoMasqRules locals remotes =
     concat (map (\<lambda>l. map (\<lambda>r. \<lparr>nr_Chain = NoMasqChain, nr_Args = [''-s'', l, ''-d'', r, ''-j'', ''ACCEPT'']\<rparr>)
                   (filter (\<lambda>r. isIPv6 l = isIPv6 r) (nat_dedupeSorted remotes)))
       (nat_dedupeSorted locals))"

definition GatewayMasqChain :: string where "GatewayMasqChain = ''DWX-GW-MASQ''"

definition BuildGatewayMasqRules :: "string list \<Rightarrow> string list \<Rightarrow> NatRule list" where
  "BuildGatewayMasqRules clientCIDRs destCIDRs =
     sort_key (\<lambda>r. (nr_Args r ! 1, nr_Args r ! 3))
      (concat (map (\<lambda>c. map (\<lambda>d. \<lparr>nr_Chain = GatewayMasqChain, nr_Args = [''-s'', c, ''-d'', d, ''-j'', ''MASQUERADE'']\<rparr>)
                    (filter (\<lambda>d. isIPv6 c = isIPv6 d) (nat_dedupeSorted destCIDRs)))
        (nat_dedupeSorted clientCIDRs)))"

section \<open>A packet in the NAT chains\<close>

text \<open>First-match traversal for the matches and targets the planners emit. A jump
  enters a chain and continues behind it when the chain returns; the depth of
  jumps is bounded by the first argument, and the chains of the planners are
  at most two jumps deep. \<^verbatim>\<open>coin\<close> gives the outcome of each random match.\<close>

record natpacket =
  np_src :: ip
  np_dst :: ip
  np_proto :: string
  np_dport :: nat

definition ip_matches :: "string \<Rightarrow> ip \<Rightarrow> bool" where
  "ip_matches c a = (case parse_net c of None \<Rightarrow> False | Some n \<Rightarrow> Contains n a)"

type_synonym coin = "string list \<Rightarrow> bool"

fun nat_match :: "bool \<Rightarrow> natpacket \<Rightarrow> string list \<Rightarrow> (string \<times> string list) option" where
  "nat_match hit p [] = None"
| "nat_match hit p [a] = None"
| "nat_match hit p (a # b # args) =
     (if a = ''-s'' then (if ip_matches b (np_src p) then nat_match hit p args else None)
      else if a = ''-d'' then (if ip_matches b (np_dst p) then nat_match hit p args else None)
      else if a = ''-p'' then (if b = np_proto p then nat_match hit p args else None)
      else if a = ''--dport'' then (if b = itoa (np_dport p) then nat_match hit p args else None)
      else if a = ''--probability'' then (if hit then nat_match hit p args else None)
      else if a = ''-m'' \<or> a = ''--mode'' then nat_match hit p args
      else if a = ''-j'' then Some (b, args)
      else None)"

definition terminal :: "string \<Rightarrow> bool" where
  "terminal t \<longleftrightarrow> t \<in> {''DNAT'', ''ACCEPT'', ''NETMAP'', ''MASQUERADE''}"

fun nat_walk :: "nat \<Rightarrow> (string \<Rightarrow> string list list) \<Rightarrow> coin \<Rightarrow> natpacket \<Rightarrow> string list list \<Rightarrow>
    (string \<times> string list) option" where
  "nat_walk d ch coin p [] = None"
| "nat_walk d ch coin p (r # rs) =
     (case nat_match (coin r) p r of
        None \<Rightarrow> nat_walk d ch coin p rs
      | Some (t, args) \<Rightarrow>
          if terminal t then Some (t, args)
          else (case d of
              0 \<Rightarrow> nat_walk d ch coin p rs
            | Suc d' \<Rightarrow> (case nat_walk d' ch coin p (ch t) of
                  Some x \<Rightarrow> Some x
                | None \<Rightarrow> nat_walk d ch coin p rs)))"

text \<open>The chains a list of rules builds, and the fate of a packet that enters one.\<close>

definition chain_of :: "NatRule list \<Rightarrow> string \<Rightarrow> string list list" where
  "chain_of rules c = map nr_Args (filter (\<lambda>r. nr_Chain r = c) rules)"

definition nat_fate :: "NatRule list \<Rightarrow> coin \<Rightarrow> natpacket \<Rightarrow> string \<Rightarrow> (string \<times> string list) option" where
  "nat_fate rules coin p c = nat_walk 2 (chain_of rules) coin p (chain_of rules c)"

definition to_backend :: "string \<Rightarrow> natpacket \<Rightarrow> string \<times> string list" where
  "to_backend b p = (''DNAT'', [''--to-destination'', dnatTarget b (itoa (np_dport p))])"

section \<open>The rules of the ClusterSetIP planner by chain\<close>

text \<open>What the planner promises: a packet to the address and port of a service.\<close>

definition good_backends :: "ServiceDNAT \<Rightarrow> string list" where
  "good_backends s = uniqueSortedStrings (sd_Backends s)"

definition serves :: "ServiceDNAT \<Rightarrow> natpacket \<Rightarrow> bool" where
  "serves s p \<longleftrightarrow> sd_VIP s \<noteq> '''' \<and> (\<exists>b\<in>set (sd_Backends s). b \<noteq> '''') \<and>
     ip_matches (nat_hostCIDR (sd_VIP s)) (np_dst p) \<and>
     (\<exists>pt\<in>set (sd_Ports s). nat_normalizeProto (pd_Protocol pt) = np_proto p \<and> pd_Port pt = int (np_dport p))"

definition programmed :: "ServiceDNAT \<Rightarrow> bool" where
  "programmed s \<longleftrightarrow> \<not> (sd_VIP s = '''' \<or> sd_Ports s = [] \<or> sd_Backends s = [])"

text \<open>The planned (service, port) pairs and the block of rules of one.\<close>

definition nat_pairs :: "ServiceDNAT list \<Rightarrow> (ServiceDNAT \<times> PortDNAT) list" where
  "nat_pairs services = concat (map (\<lambda>s. map (Pair s) (nat_sortedPorts (sd_Ports s)))
     (filter programmed (sort_key (\<lambda>s. (sd_Namespace s, sd_Name s)) services)))"

definition nat_block :: "ServiceDNAT \<times> PortDNAT \<Rightarrow> NatRule list" where
  "nat_block = (\<lambda>(s, p). ns_Rules (appendPortRules s (good_backends s) p \<lparr>ns_Chains = [], ns_Rules = []\<rparr>))"

definition block_chains :: "ServiceDNAT \<times> PortDNAT \<Rightarrow> string list" where
  "block_chains = (\<lambda>(s, p). ns_Chains (appendPortRules s (good_backends s) p \<lparr>ns_Chains = [], ns_Rules = []\<rparr>))"

lemma appendPortRules_block:
  "appendPortRules s (good_backends s) p rs =
     \<lparr>ns_Chains = ns_Chains rs @ block_chains (s, p), ns_Rules = ns_Rules rs @ nat_block (s, p)\<rparr>"
  by (simp add: appendPortRules_def block_chains_def nat_block_def Let_def)

lemma fold_appendPortRules:
  "fold (appendPortRules s (good_backends s)) ps rs =
     \<lparr>ns_Chains = ns_Chains rs @ concat (map (\<lambda>p. block_chains (s, p)) ps),
      ns_Rules = ns_Rules rs @ concat (map (\<lambda>p. nat_block (s, p)) ps)\<rparr>"
  by (induction ps arbitrary: rs) (simp_all add: appendPortRules_block)

lemma nat_service_block:
  "nat_service s rs = (if programmed s then
     \<lparr>ns_Chains = ns_Chains rs @ concat (map (\<lambda>p. block_chains (s, p)) (nat_sortedPorts (sd_Ports s))),
      ns_Rules = ns_Rules rs @ concat (map (\<lambda>p. nat_block (s, p)) (nat_sortedPorts (sd_Ports s)))\<rparr> else rs)"
  by (simp add: nat_service_def programmed_def fold_appendPortRules flip: good_backends_def)

lemma fold_nat_service:
  "fold nat_service svcs rs =
     \<lparr>ns_Chains = ns_Chains rs @ concat (map (\<lambda>s. concat (map (\<lambda>p. block_chains (s, p)) (nat_sortedPorts (sd_Ports s)))) (filter programmed svcs)),
      ns_Rules = ns_Rules rs @ concat (map (\<lambda>s. concat (map (\<lambda>p. nat_block (s, p)) (nat_sortedPorts (sd_Ports s)))) (filter programmed svcs))\<rparr>"
  by (induction svcs arbitrary: rs) (simp_all add: nat_service_block)

lemma concat_map_concat: "concat (map f (concat xss)) = concat (map (\<lambda>xs. concat (map f xs)) xss)"
  by (induction xss) simp_all

lemma BuildRuleset_pairs:
  "ns_Rules (BuildRuleset services) = concat (map nat_block (nat_pairs services))"
  "ns_Chains (BuildRuleset services) = sorted_set (concat (map block_chains (nat_pairs services)))"
  by (simp_all add: BuildRuleset_def Let_def fold_nat_service nat_pairs_def comp_def sortedKeys_def concat_map_concat)

abbreviation pair_proto :: "PortDNAT \<Rightarrow> string" where
  "pair_proto p \<equiv> nat_normalizeProto (pd_Protocol p)"

abbreviation pair_port :: "PortDNAT \<Rightarrow> string" where
  "pair_port p \<equiv> itoa_int (pd_Port p)"

definition pair_svc :: "ServiceDNAT \<times> PortDNAT \<Rightarrow> string" where
  "pair_svc = (\<lambda>(s, p). svc_chain s (pair_proto p) (pair_port p))"

definition pair_sep :: "(ServiceDNAT \<times> PortDNAT) \<times> string \<Rightarrow> string" where
  "pair_sep = (\<lambda>((s, p), b). sep_chain s (pair_proto p) (pair_port p) b)"

definition pair_root :: "ServiceDNAT \<times> PortDNAT \<Rightarrow> string list" where
  "pair_root = (\<lambda>(s, p). [''-d'', nat_hostCIDR (sd_VIP s), ''-p'', pair_proto p, ''-m'', pair_proto p,
     ''--dport'', pair_port p, ''-j'', pair_svc (s, p)])"

definition pair_dnat :: "ServiceDNAT \<times> PortDNAT \<Rightarrow> string \<Rightarrow> string list" where
  "pair_dnat = (\<lambda>(s, p) b. [''-p'', pair_proto p, ''-j'', ''DNAT'', ''--to-destination'', dnatTarget b (pair_port p)])"

definition pair_ends :: "ServiceDNAT list \<Rightarrow> ((ServiceDNAT \<times> PortDNAT) \<times> string) set" where
  "pair_ends services = {(x, b). x \<in> set (nat_pairs services) \<and> b \<in> set (good_backends (fst x))}"

text \<open>The hashed chain names of one plan do not collide.\<close>

definition hash_free :: "ServiceDNAT list \<Rightarrow> bool" where
  "hash_free services \<longleftrightarrow> inj_on pair_svc (set (nat_pairs services)) \<and> inj_on pair_sep (pair_ends services)"

lemma nat_block_conv:
  "nat_block x = \<lparr>nr_Chain = RootChain, nr_Args = pair_root x\<rparr>
     # lb_rules (pair_svc x) (map (\<lambda>b. pair_sep (x, b)) (good_backends (fst x)))
     @ map (\<lambda>b. \<lparr>nr_Chain = pair_sep (x, b), nr_Args = pair_dnat x b\<rparr>) (good_backends (fst x))"
  by (cases x) (simp add: nat_block_def appendPortRules_def Let_def pair_root_def pair_dnat_def pair_svc_def pair_sep_def)

lemma block_chains_conv:
  "block_chains x = pair_svc x # map (\<lambda>b. pair_sep (x, b)) (good_backends (fst x))"
  by (cases x) (simp add: block_chains_def appendPortRules_def Let_def pair_svc_def pair_sep_def)

lemma lb_rules_chain: "r \<in> set (lb_rules c cs) \<Longrightarrow> nr_Chain r = c"
  by (induction c cs rule: lb_rules.induct) auto

lemma chain_name_kinds [simp]:
  "pair_svc x \<noteq> RootChain" "pair_sep y \<noteq> RootChain" "pair_svc x \<noteq> pair_sep y"
  "RootChain \<noteq> pair_svc x" "RootChain \<noteq> pair_sep y" "pair_sep y \<noteq> pair_svc x"
  "\<not> terminal (pair_svc x)" "\<not> terminal (pair_sep y)"
  by (simp_all add: pair_svc_def pair_sep_def svc_chain_def sep_chain_def hashChain_def svcChainPrefix_def
      sepChainPrefix_def RootChain_def terminal_def split: prod.splits)

lemma filter_lb_rules:
  "filter (\<lambda>r. nr_Chain r = c) (lb_rules c' cs) = (if c' = c then lb_rules c' cs else [])"
  by (auto simp: filter_id_conv filter_empty_conv dest: lb_rules_chain)

lemma block_root: "filter (\<lambda>r. nr_Chain r = RootChain) (nat_block x) = [\<lparr>nr_Chain = RootChain, nr_Args = pair_root x\<rparr>]"
  by (simp add: nat_block_conv filter_lb_rules filter_empty_conv)

lemma block_svc:
  "filter (\<lambda>r. nr_Chain r = pair_svc y) (nat_block x) = (if pair_svc x = pair_svc y
     then lb_rules (pair_svc x) (map (\<lambda>b. pair_sep (x, b)) (good_backends (fst x))) else [])"
  by (simp add: nat_block_conv filter_lb_rules filter_empty_conv)

lemma concat_map_only:
  assumes "distinct xs" "x \<in> set xs" "\<And>y. y \<in> set xs \<Longrightarrow> y \<noteq> x \<Longrightarrow> f y = []"
  shows "concat (map f xs) = f x"
proof -
  obtain ys zs where xs: "xs = ys @ x # zs" using assms(2) by (meson split_list)
  then have "concat (map f ys) = []" "concat (map f zs) = []" using assms(1,3) by (auto simp: concat_eq_Nil_conv)
  then show ?thesis using xs by (simp del: concat_eq_Nil_conv)
qed

lemma distinct_filter_eq: "distinct xs \<Longrightarrow> b \<in> set xs \<Longrightarrow> filter (\<lambda>x. x = b) xs = [b]"
  by (induction xs) (auto simp: filter_empty_conv)

lemma block_sep:
  assumes "hash_free services" "x \<in> set (nat_pairs services)" "(y, b) \<in> pair_ends services"
  shows "filter (\<lambda>r. nr_Chain r = pair_sep (y, b)) (nat_block x) =
    (if x = y then [\<lparr>nr_Chain = pair_sep (y, b), nr_Args = pair_dnat y b\<rparr>] else [])"
proof -
  have eq: "pair_sep (x, b') = pair_sep (y, b) \<longleftrightarrow> x = y \<and> b' = b" if "b' \<in> set (good_backends (fst x))" for b'
    using assms that inj_onD [of pair_sep "pair_ends services" "(x, b')" "(y, b)"]
    by (auto simp: hash_free_def pair_ends_def)
  have "filter (\<lambda>r. nr_Chain r = pair_sep (y, b)) (nat_block x) =
      map (\<lambda>b. \<lparr>nr_Chain = pair_sep (x, b), nr_Args = pair_dnat x b\<rparr>)
        (filter (\<lambda>b'. x = y \<and> b' = b) (good_backends (fst x)))"
    using eq by (simp add: nat_block_conv filter_lb_rules filter_map comp_def cong: filter_cong)
  moreover have "filter (\<lambda>b'. b' = b) (good_backends (fst x)) = [b]" if "x = y"
  proof -
    have "distinct (good_backends (fst x))" by (simp add: good_backends_def uniqueSortedStrings_def sortedKeys_def)
    moreover have "b \<in> set (good_backends (fst x))" using that assms(3) by (simp add: pair_ends_def)
    ultimately show ?thesis by (simp add: distinct_filter_eq)
  qed
  ultimately show ?thesis by auto
qed

lemma nat_normalizeProto_idem [simp]: "nat_normalizeProto (nat_normalizeProto p) = nat_normalizeProto p"
proof -
  have sp: "is_space (lower_char c) = is_space c" for c
    using byte_of_lower_char [of c] by (auto simp: is_space_def)
  let ?q = "to_lower (trim_space p)"
  have "trim_space ?q = ?q"
  proof (cases "trim_space p = ''''")
    case True
    then have "?q = ''''" by (simp add: to_lower_def)
    then show ?thesis by (simp add: trim_space_def trim_def trim_right_def)
  next
    case False
    then have "\<not> is_space (hd (trim_space p))" "\<not> is_space (last (trim_space p))"
      using trim_hd [of is_space p] trim_last [of is_space p] by (simp_all add: trim_space_def)
    then show ?thesis using False trim_id [of ?q is_space]
      by (simp add: trim_space_def to_lower_def sp hd_map last_map)
  qed
  moreover have "nat_normalizeProto ''tcp'' = ''tcp''"
    by (simp add: nat_normalizeProto_def go_eval Let_def)
  ultimately show ?thesis by (simp add: nat_normalizeProto_def Let_def)
qed

lemma nat_sortedPorts_normal: "p \<in> set (nat_sortedPorts ps) \<Longrightarrow> pair_proto p = pd_Protocol p"
  by (auto simp: nat_sortedPorts_def)

lemma itoa_int_not: "\<not> is_digit c \<Longrightarrow> c \<noteq> CHR ''-'' \<Longrightarrow> c \<notin> set (itoa_int i)"
  using itoa_digits [of "nat i"] itoa_digits [of "nat (- i)"] by (auto simp: itoa_int_def list_all_iff)

lemma itoa_int_inj: "itoa_int i = itoa_int j \<longleftrightarrow> i = j"
proof -
  have "CHR ''-'' \<notin> set (itoa n)" for n using itoa_digits [of n] by (auto simp: list_all_iff is_digit_def)
  then have "CHR ''-'' # s \<noteq> itoa n" "itoa n \<noteq> CHR ''-'' # s" for s n by (metis list.set_intros(1))+
  then show ?thesis by (auto simp: itoa_int_def itoa_inj)
qed

lemma nat_port_key_eq:
  "nat_port_key p = nat_port_key q \<longleftrightarrow> pd_Port p = pd_Port q \<and> pair_proto p = pair_proto q"
proof
  assume eq: "nat_port_key p = nat_port_key q"
  have ns: "CHR ''/'' \<notin> set (itoa_int i)" for i by (rule itoa_int_not) (simp_all add: is_digit_def)
  from eq have "cut (CHR ''/'') (nat_port_key p) = cut (CHR ''/'') (nat_port_key q)" by simp
  then show "pd_Port p = pd_Port q \<and> pair_proto p = pair_proto q"
    using ns by (simp add: nat_port_key_def cut_append itoa_int_inj)
qed (simp add: nat_port_key_def)

lemma set_nat_sortedPorts:
  "set (nat_sortedPorts ps) = (\<lambda>p. \<lparr>pd_Protocol = pair_proto p, pd_Port = pd_Port p\<rparr>) ` set ps"
proof
  show "set (nat_sortedPorts ps) \<subseteq> (\<lambda>p. \<lparr>pd_Protocol = pair_proto p, pd_Port = pd_Port p\<rparr>) ` set ps"
    using first_by_subset [of nat_port_key ps] by (auto simp: nat_sortedPorts_def)
  show "(\<lambda>p. \<lparr>pd_Protocol = pair_proto p, pd_Port = pd_Port p\<rparr>) ` set ps \<subseteq> set (nat_sortedPorts ps)"
  proof
    fix x assume "x \<in> (\<lambda>p. \<lparr>pd_Protocol = pair_proto p, pd_Port = pd_Port p\<rparr>) ` set ps"
    then obtain p where p: "p \<in> set ps" "x = \<lparr>pd_Protocol = pair_proto p, pd_Port = pd_Port p\<rparr>" by auto
    have "nat_port_key p \<in> nat_port_key ` set (first_by nat_port_key ps)" using p by simp
    then obtain q where "nat_port_key p = nat_port_key q" "q \<in> set (first_by nat_port_key ps)" by (rule imageE)
    then show "x \<in> set (nat_sortedPorts ps)" using p by (auto simp: nat_sortedPorts_def nat_port_key_eq)
  qed
qed

lemma distinct_nat_sortedPorts: "distinct (nat_sortedPorts ps)"
proof -
  have "distinct (first_by nat_port_key ps)" "inj_on nat_port_key (set (first_by nat_port_key ps))"
    using distinct_first_by [of nat_port_key ps] by (simp_all add: distinct_map)
  then show ?thesis
    unfolding nat_sortedPorts_def distinct_sort distinct_map by (simp add: inj_on_def nat_port_key_eq)
qed

lemma distinct_nat_pairs:
  assumes "distinct services"
  shows "distinct (nat_pairs services)"
proof -
  have "distinct xs \<Longrightarrow> distinct (concat (map (\<lambda>s. map (Pair s) (nat_sortedPorts (sd_Ports s))) xs))"
    for xs :: "ServiceDNAT list"
    by (induction xs) (auto simp: distinct_map distinct_nat_sortedPorts inj_on_def)
  then show ?thesis using assms by (simp add: nat_pairs_def)
qed

text \<open>The chains of a plan.\<close>

lemma plan_chains:
  assumes "distinct services" "hash_free services"
  shows "chain_of (ns_Rules (BuildRuleset services)) RootChain = map pair_root (nat_pairs services)"
    and "x \<in> set (nat_pairs services) \<Longrightarrow> chain_of (ns_Rules (BuildRuleset services)) (pair_svc x) =
      map nr_Args (lb_rules (pair_svc x) (map (\<lambda>b. pair_sep (x, b)) (good_backends (fst x))))"
    and "(x, b) \<in> pair_ends services \<Longrightarrow>
      chain_of (ns_Rules (BuildRuleset services)) (pair_sep (x, b)) = [pair_dnat x b]"
proof -
  note pairs = distinct_nat_pairs [OF assms(1)]
  show "chain_of (ns_Rules (BuildRuleset services)) RootChain = map pair_root (nat_pairs services)"
    by (simp add: chain_of_def BuildRuleset_pairs filter_concat comp_def block_root map_concat)
  { assume x: "x \<in> set (nat_pairs services)"
    then have "pair_svc y = pair_svc x \<longleftrightarrow> y = x" if "y \<in> set (nat_pairs services)" for y
      using assms(2) that by (auto simp: hash_free_def dest: inj_onD)
    then have "concat (map (\<lambda>y. filter (\<lambda>r. nr_Chain r = pair_svc x) (nat_block y)) (nat_pairs services)) =
        filter (\<lambda>r. nr_Chain r = pair_svc x) (nat_block x)"
      by (intro concat_map_only [OF pairs x]) (simp add: block_svc)
    then show "chain_of (ns_Rules (BuildRuleset services)) (pair_svc x) =
        map nr_Args (lb_rules (pair_svc x) (map (\<lambda>b. pair_sep (x, b)) (good_backends (fst x))))"
      by (simp add: chain_of_def BuildRuleset_pairs filter_concat comp_def block_svc) }
  { assume xb: "(x, b) \<in> pair_ends services"
    then have x: "x \<in> set (nat_pairs services)" by (simp add: pair_ends_def)
    have "concat (map (\<lambda>y. filter (\<lambda>r. nr_Chain r = pair_sep (x, b)) (nat_block y)) (nat_pairs services)) =
        filter (\<lambda>r. nr_Chain r = pair_sep (x, b)) (nat_block x)"
      by (intro concat_map_only [OF pairs x]) (simp add: block_sep [OF assms(2) _ xb])
    then show "chain_of (ns_Rules (BuildRuleset services)) (pair_sep (x, b)) = [pair_dnat x b]"
      by (simp add: chain_of_def BuildRuleset_pairs filter_concat comp_def block_sep [OF assms(2) x xb]) }
qed

text \<open>The load-balancing rules end in one of the chains they list, and for each of
  them there are random outcomes that lead to it.\<close>

lemma lb_walk:
  assumes "cs \<noteq> []" "\<And>c. c \<in> set cs \<Longrightarrow> \<not> terminal c \<and> (\<exists>x. nat_walk d ch coin p (ch c) = Some x)"
  shows "\<exists>c\<in>set cs. nat_walk (Suc d) ch coin p (map nr_Args (lb_rules svc cs)) = nat_walk d ch coin p (ch c)"
  using assms
proof (induction svc cs rule: lb_rules.induct)
  case (2 svc c)
  then show ?case by fastforce
next
  case (3 svc c c' cs)
  let ?r = "[''-m'', ''statistic'', ''--mode'', ''random'', ''--probability'', format_inverse (Suc (length (c' # cs))), ''-j'', c]"
  obtain x where x: "nat_walk d ch coin p (ch c) = Some x" "\<not> terminal c" using "3.prems"(2) [of c] by auto
  have "\<exists>c\<in>set (c' # cs). nat_walk (Suc d) ch coin p (map nr_Args (lb_rules svc (c' # cs))) = nat_walk d ch coin p (ch c)"
    using "3.IH" "3.prems"(2) by simp
  then show ?case using x by (cases "coin ?r") auto
qed simp

lemma lb_walk_reaches:
  assumes "distinct cs" "c \<in> set cs" "\<not> terminal c" "nat_walk d ch (\<lambda>r. last r = c) p (ch c) = Some x"
  shows "nat_walk (Suc d) ch (\<lambda>r. last r = c) p (map nr_Args (lb_rules svc cs)) = Some x"
  using assms by (induction svc cs rule: lb_rules.induct) auto

definition hit :: "natpacket \<Rightarrow> ServiceDNAT \<times> PortDNAT \<Rightarrow> bool" where
  "hit p = (\<lambda>(s, pt). ip_matches (nat_hostCIDR (sd_VIP s)) (np_dst p) \<and> pair_proto pt = np_proto p \<and>
     pd_Port pt = int (np_dport p))"

lemma itoa_int_eq_itoa: "itoa_int i = itoa n \<longleftrightarrow> i = int n"
  using itoa_int_inj [of i "int n"] by (simp add: itoa_int_def)

lemma match_pair_root: "nat_match c p (pair_root x) = (if hit p x then Some (pair_svc x, []) else None)"
  by (auto simp: pair_root_def hit_def itoa_int_eq_itoa split: prod.splits)

lemma match_pair_dnat: "hit p x \<Longrightarrow> nat_match c p (pair_dnat x b) = Some (to_backend b p)"
  by (auto simp: pair_dnat_def hit_def to_backend_def itoa_int_def split: prod.splits)

lemma root_walk:
  "nat_walk (Suc d) ch coin p (map pair_root xs) =
     (case filter (\<lambda>x. hit p x \<and> nat_walk d ch coin p (ch (pair_svc x)) \<noteq> None) xs of
        [] \<Rightarrow> None | y # _ \<Rightarrow> nat_walk d ch coin p (ch (pair_svc y)))"
  by (induction xs) (auto simp: match_pair_root split: option.splits)

lemma svc_walk:
  fixes services
  defines "ch \<equiv> chain_of (ns_Rules (BuildRuleset services))"
  assumes "distinct services" "hash_free services" "x \<in> set (nat_pairs services)" "hit p x"
  shows "good_backends (fst x) = [] \<Longrightarrow> nat_walk 1 ch coin p (ch (pair_svc x)) = None"
    and "good_backends (fst x) \<noteq> [] \<Longrightarrow>
      \<exists>b\<in>set (good_backends (fst x)). nat_walk 1 ch coin p (ch (pair_svc x)) = Some (to_backend b p)"
    and "b \<in> set (good_backends (fst x)) \<Longrightarrow>
      \<exists>coin. nat_walk 1 ch coin p (ch (pair_svc x)) = Some (to_backend b p)"
proof -
  let ?cs = "map (\<lambda>b. pair_sep (x, b)) (good_backends (fst x))"
  have svc: "ch (pair_svc x) = map nr_Args (lb_rules (pair_svc x) ?cs)"
    unfolding ch_def using assms(2-4) by (rule plan_chains)
  have sep: "nat_walk 0 ch coin p (ch (pair_sep (x, b))) = Some (to_backend b p)"
    if "b \<in> set (good_backends (fst x))" for b coin
  proof -
    have "ch (pair_sep (x, b)) = [pair_dnat x b]"
      unfolding ch_def using assms(2,3) by (rule plan_chains(3)) (use that assms(4) in \<open>simp add: pair_ends_def\<close>)
    then show ?thesis using match_pair_dnat [OF assms(5)] by (simp add: to_backend_def terminal_def)
  qed
  show "good_backends (fst x) = [] \<Longrightarrow> nat_walk 1 ch coin p (ch (pair_svc x)) = None" by (simp add: svc)
  { assume ne: "good_backends (fst x) \<noteq> []"
    have "\<exists>c\<in>set ?cs. nat_walk (Suc 0) ch coin p (map nr_Args (lb_rules (pair_svc x) ?cs)) = nat_walk 0 ch coin p (ch c)"
      by (rule lb_walk) (use ne sep in auto)
    then show "\<exists>b\<in>set (good_backends (fst x)). nat_walk 1 ch coin p (ch (pair_svc x)) = Some (to_backend b p)"
      using sep svc by auto }
  { assume b: "b \<in> set (good_backends (fst x))"
    have "inj_on (\<lambda>b. pair_sep (x, b)) (set (good_backends (fst x)))"
      using assms(3,4) by (cases x) (simp add: hash_free_def inj_on_def pair_ends_def)
    then have "distinct ?cs" by (simp add: distinct_map good_backends_def uniqueSortedStrings_def sortedKeys_def)
    then have "nat_walk (Suc 0) ch (\<lambda>r. last r = pair_sep (x, b)) p (map nr_Args (lb_rules (pair_svc x) ?cs)) = Some (to_backend b p)"
      using b sep by (intro lb_walk_reaches) auto
    then show "\<exists>coin. nat_walk 1 ch coin p (ch (pair_svc x)) = Some (to_backend b p)" using svc by auto }
qed

lemma set_good_backends: "set (good_backends s) = set (sd_Backends s) - {''''}"
  by (auto simp: good_backends_def uniqueSortedStrings_def sortedKeys_def)

lemma pair_serves:
  "x \<in> set (nat_pairs services) \<Longrightarrow> hit p x \<Longrightarrow> good_backends (fst x) \<noteq> [] \<Longrightarrow> fst x \<in> set services \<and> serves (fst x) p"
proof -
  assume x: "x \<in> set (nat_pairs services)" "hit p x" "good_backends (fst x) \<noteq> []"
  obtain s pt where sp: "x = (s, pt)" by (cases x)
  have "set (good_backends s) \<noteq> {}" using x(3) sp by simp
  then have "\<exists>b\<in>set (sd_Backends s). b \<noteq> ''''" by (auto simp: set_good_backends)
  moreover have "s \<in> set services" "programmed s" "pt \<in> set (nat_sortedPorts (sd_Ports s))"
    using x(1) sp by (auto simp: nat_pairs_def)
  ultimately show ?thesis using x(2) sp by (auto simp: serves_def hit_def programmed_def set_nat_sortedPorts)
qed

lemma serves_pair:
  assumes "s \<in> set services" "serves s p"
  shows "\<exists>pt. (s, pt) \<in> set (nat_pairs services) \<and> hit p (s, pt)"
proof -
  obtain pt where pt: "pt \<in> set (sd_Ports s)" "pair_proto pt = np_proto p" "pd_Port pt = int (np_dport p)"
    using assms(2) by (auto simp: serves_def)
  have "programmed s" using assms(2) by (auto simp: serves_def programmed_def)
  then have "(s, \<lparr>pd_Protocol = pair_proto pt, pd_Port = pd_Port pt\<rparr>) \<in> set (nat_pairs services)"
    using assms(1) pt(1) by (auto simp: nat_pairs_def set_nat_sortedPorts)
  moreover have "hit p (s, \<lparr>pd_Protocol = pair_proto pt, pd_Port = pd_Port pt\<rparr>)"
    using pt(2,3) [symmetric] assms(2) by (simp add: hit_def serves_def)
  ultimately show ?thesis by blast
qed

text \<open>A packet is handled by the first service that serves it.\<close>

lemma fate_root:
  assumes "distinct services" "hash_free services"
  shows "(\<nexists>s. s \<in> set services \<and> serves s p) \<Longrightarrow> nat_fate (ns_Rules (BuildRuleset services)) coin p RootChain = None"
    and "s \<in> set services \<Longrightarrow> serves s p \<Longrightarrow> \<forall>t\<in>set services. serves t p \<longrightarrow> t = s \<Longrightarrow>
      \<exists>x. x \<in> set (nat_pairs services) \<and> hit p x \<and> fst x = s \<and> (\<forall>coin.
        nat_fate (ns_Rules (BuildRuleset services)) coin p RootChain =
        nat_walk 1 (chain_of (ns_Rules (BuildRuleset services))) coin p (chain_of (ns_Rules (BuildRuleset services)) (pair_svc x)))"
proof -
  let ?ch = "chain_of (ns_Rules (BuildRuleset services))" and ?xs = "nat_pairs services"
  have res: "nat_walk 1 ?ch coin p (?ch (pair_svc x)) \<noteq> None \<longleftrightarrow> good_backends (fst x) \<noteq> []"
    if "x \<in> set ?xs" "hit p x" for x coin
    using svc_walk(1,2) [OF assms that, of coin] by (cases "good_backends (fst x) = []") auto
  let ?hits = "filter (\<lambda>x. hit p x \<and> good_backends (fst x) \<noteq> []) ?xs"
  have "filter (\<lambda>x. hit p x \<and> nat_walk 1 ?ch coin p (?ch (pair_svc x)) \<noteq> None) ?xs = ?hits" for coin
    by (rule filter_cong [OF refl]) (use res in blast)
  then have fate: "nat_fate (ns_Rules (BuildRuleset services)) coin p RootChain =
      (case ?hits of [] \<Rightarrow> None | y # _ \<Rightarrow> nat_walk 1 ?ch coin p (?ch (pair_svc y)))" for coin
    unfolding nat_fate_def plan_chains(1) [OF assms] numeral_2_eq_2 root_walk by (simp only: One_nat_def)
  { assume "\<nexists>s. s \<in> set services \<and> serves s p"
    then have "?hits = []" using pair_serves [of _ services p] by (auto simp: filter_empty_conv)
    then show "nat_fate (ns_Rules (BuildRuleset services)) coin p RootChain = None" using fate by simp }
  { assume s: "s \<in> set services" "serves s p" "\<forall>t\<in>set services. serves t p \<longrightarrow> t = s"
    then obtain pt where pt: "(s, pt) \<in> set ?xs" "hit p (s, pt)" using serves_pair by blast
    have "set (good_backends s) \<noteq> {}" using s(2) by (auto simp: serves_def set_good_backends)
    then have "(s, pt) \<in> set ?hits" using pt by auto
    then obtain y ys where hits: "?hits = y # ys" by (cases ?hits) auto
    then have "y \<in> set ?hits" by simp
    then have y: "y \<in> set ?xs" "hit p y" "good_backends (fst y) \<noteq> []" by auto
    then have "fst y = s" using pair_serves s(3) by blast
    then show "\<exists>x. x \<in> set ?xs \<and> hit p x \<and> fst x = s \<and> (\<forall>coin.
        nat_fate (ns_Rules (BuildRuleset services)) coin p RootChain = nat_walk 1 ?ch coin p (?ch (pair_svc x)))"
      using y fate hits by (intro exI [of _ y]) simp }
qed

text \<open>The ClusterSetIP plan balances: when the hashed chain names do not collide, a
  packet to the virtual address and port of exactly one service is rewritten to
  one of the backends of that service, whatever the random matches decide; every
  backend is chosen by some outcome of them; and a packet no service is for
  passes unchanged.\<close>

lemma BuildRuleset_fate:
  assumes "distinct services" "hash_free services"
    and "\<forall>s\<in>set services. \<forall>t\<in>set services. serves s p \<longrightarrow> serves t p \<longrightarrow> t = s"
  shows "(if \<exists>s\<in>set services. serves s p
     then \<exists>s\<in>set services. serves s p \<and>
       (\<forall>coin. \<exists>b\<in>set (sd_Backends s) - {''''}.
          nat_fate (ns_Rules (BuildRuleset services)) coin p RootChain = Some (to_backend b p)) \<and>
       (\<forall>b\<in>set (sd_Backends s) - {''''}. \<exists>coin.
          nat_fate (ns_Rules (BuildRuleset services)) coin p RootChain = Some (to_backend b p))
     else \<forall>coin. nat_fate (ns_Rules (BuildRuleset services)) coin p RootChain = None)"
proof (cases "\<exists>s\<in>set services. serves s p")
  case True
  then obtain s where s: "s \<in> set services" "serves s p" by blast
  then have "\<forall>t\<in>set services. serves t p \<longrightarrow> t = s" using assms(3) by simp
  from fate_root(2) [OF assms(1,2) s this]
  obtain x where x: "x \<in> set (nat_pairs services)" "hit p x" "fst x = s"
    and fate: "\<And>coin. nat_fate (ns_Rules (BuildRuleset services)) coin p RootChain =
        nat_walk 1 (chain_of (ns_Rules (BuildRuleset services))) coin p (chain_of (ns_Rules (BuildRuleset services)) (pair_svc x))"
    by (elim exE conjE) simp
  have "set (good_backends s) \<noteq> {}" using s(2) by (auto simp: serves_def set_good_backends)
  then have ne: "good_backends (fst x) \<noteq> []" using x(3) by auto
  have good: "set (good_backends (fst x)) = set (sd_Backends s) - {''''}" using x(3) set_good_backends by simp
  have all: "\<forall>coin. \<exists>b\<in>set (sd_Backends s) - {''''}.
      nat_fate (ns_Rules (BuildRuleset services)) coin p RootChain = Some (to_backend b p)"
    unfolding fate good [symmetric] using svc_walk(2) [OF assms(1,2) x(1,2) ne] by simp
  have each: "\<forall>b\<in>set (sd_Backends s) - {''''}. \<exists>coin.
      nat_fate (ns_Rules (BuildRuleset services)) coin p RootChain = Some (to_backend b p)"
    unfolding fate good [symmetric] using svc_walk(3) [OF assms(1,2) x(1,2)] by simp
  show ?thesis unfolding if_P [OF True] by (intro bexI [OF _ s(1)] conjI s(2) all each)
next
  case False
  then show ?thesis unfolding if_not_P [OF False] using fate_root(1) [OF assms(1,2)] by blast
qed

definition web_service :: ServiceDNAT where
  "web_service = \<lparr>sd_Namespace = ''shop'', sd_Name = ''web'', sd_VIP = ''241.0.0.5'',
     sd_Ports = [\<lparr>pd_Protocol = ''tcp'', pd_Port = 80\<rparr>, \<lparr>pd_Protocol = '''', pd_Port = 80\<rparr>],
     sd_Backends = [''10.96.0.10'', '''']\<rparr>"

definition idle_service :: ServiceDNAT where
  "idle_service = \<lparr>sd_Namespace = ''shop'', sd_Name = ''idle'', sd_VIP = '''',
     sd_Ports = [\<lparr>pd_Protocol = ''tcp'', pd_Port = 80\<rparr>], sd_Backends = [''10.96.0.11'']\<rparr>"

definition web_packet :: natpacket where
  "web_packet = \<lparr>np_src = IP4 0x0A000001, np_dst = IP4 0xF1000005, np_proto = ''tcp'', np_dport = 80\<rparr>"

lemma example_pairs: "nat_pairs [web_service, idle_service] = [(web_service, \<lparr>pd_Protocol = ''tcp'', pd_Port = 80\<rparr>)]"
  by (simp add: nat_pairs_def programmed_def web_service_def idle_service_def nat_sortedPorts_def first_by_def
      nat_port_key_def nat_normalizeProto_def go_eval Let_def itoa_int_def)

lemma example_hash_free: "hash_free [web_service, idle_service]"
proof -
  have "good_backends web_service = [''10.96.0.10'']"
    by (simp add: good_backends_def uniqueSortedStrings_def sortedKeys_def sorted_set_def web_service_def)
  then show ?thesis by (auto simp: hash_free_def pair_ends_def example_pairs inj_on_def)
qed

lemma example_serves: "serves web_service web_packet" "\<not> serves idle_service web_packet"
  by (simp_all add: serves_def web_service_def idle_service_def web_packet_def ip_matches_def nat_hostCIDR_def isIPv6_def
      nat_normalizeProto_def go_eval Let_def)

end
