(* ===== verification/Nat_Manager.thy ===== *)
theory Nat_Manager
  imports Nat_Plan Iptables
begin

text \<open>
  \<^verbatim>\<open>pkg/nat/manager.go\<close>: the applier of the NAT plans. Each sync is a full rebuild of
  the chains it owns through an iptables handle per address family. The kernel
  state is a pair, one component per family, since the IPv4 and the IPv6 handle
  program separate tables.
\<close>

section \<open>The manager\<close>

definition nat_hookChains :: "string list" where
  "nat_hookChains = [''PREROUTING'', ''OUTPUT'']"

definition nat_ensureChain :: "'s iptables \<Rightarrow> string \<Rightarrow> ('s, unit) run" where
  "nat_ensureChain ipt chain =
     bind_run (errorf (''nat: checking chain '' @ chain) (call (ipt_ChainExists ipt TableNAT chain)))
       (\<lambda>exists. if \<not> exists
          then errorf (''nat: creating chain '' @ chain) (call (ipt_NewChain ipt TableNAT chain))
          else ret ())"

definition nat_ensureHook :: "'s iptables \<Rightarrow> string \<Rightarrow> string \<Rightarrow> ('s, unit) run" where
  "nat_ensureHook ipt builtin target =
     bind_run (errorf (''nat: checking '' @ builtin @ '' hook'') (call (ipt_Exists ipt TableNAT builtin [''-j'', target])))
       (\<lambda>exists. if \<not> exists
          then errorf (''nat: installing '' @ builtin @ '' hook'') (call (ipt_Insert1 ipt TableNAT builtin [''-j'', target]))
          else ret ())"

definition nat_ensureInfra :: "'s iptables \<Rightarrow> ('s, unit) run" where
  "nat_ensureInfra ipt =
     seq (nat_ensureChain ipt RootChain) (for_each (\<lambda>hook. nat_ensureHook ipt hook RootChain) nat_hookChains)"

definition nat_flush :: "'s iptables \<Rightarrow> string \<Rightarrow> ('s, unit) run" where
  "nat_flush ipt chain = errorf (''nat: flushing '' @ chain) (call (ipt_ClearChain ipt TableNAT chain))"

definition nat_append :: "'s iptables \<Rightarrow> NatRule list \<Rightarrow> ('s, unit) run" where
  "nat_append ipt rules = for_each (\<lambda>r.
     errorf (''nat: appending to '' @ nr_Chain r @ '' '' @ fmt_strings (nr_Args r))
       (call (ipt_Append ipt TableNAT (nr_Chain r) (nr_Args r)))) rules"

definition managed_chain :: "string \<Rightarrow> bool" where
  "managed_chain c \<longleftrightarrow> has_prefix c svcChainPrefix \<or> has_prefix c sepChainPrefix"

definition deleteManagedChains :: "'s iptables \<Rightarrow> ('s, unit) run" where
  "deleteManagedChains ipt =
     bind_run (errorf ''nat: listing chains'' (call (ipt_ListChains ipt TableNAT))) (\<lambda>existing.
       let managed = filter managed_chain existing in
       seq (for_each (\<lambda>c. errorf (''nat: flushing chain '' @ c) (call (ipt_ClearChain ipt TableNAT c))) managed)
           (for_each (\<lambda>c. errorf (''nat: deleting chain '' @ c) (call (ipt_DeleteChain ipt TableNAT c))) managed))"

definition applyRuleset :: "'s iptables \<Rightarrow> NatRuleset \<Rightarrow> ('s, unit) run" where
  "applyRuleset ipt rs =
     seq (for_each (\<lambda>c. errorf (''nat: creating chain '' @ c) (call (ipt_NewChain ipt TableNAT c))) (ns_Chains rs))
         (nat_append ipt (ns_Rules rs))"

definition syncClusterSet :: "'s iptables \<Rightarrow> ServiceDNAT list \<Rightarrow> ('s, unit) run" where
  "syncClusterSet ipt services =
     (let rs = BuildRuleset services in
      seq (nat_ensureInfra ipt) (seq (nat_flush ipt RootChain) (seq (deleteManagedChains ipt) (applyRuleset ipt rs))))"

definition syncRemap :: "'s iptables \<Rightarrow> RemapEntry list \<Rightarrow> ('s, unit) run" where
  "syncRemap ipt entries =
     (let rules = BuildRemapRules entries in
      seq (nat_ensureChain ipt RemapPreChain)
     (seq (nat_ensureHook ipt ''PREROUTING'' RemapPreChain)
     (seq (nat_ensureChain ipt RemapPostChain)
     (seq (nat_ensureHook ipt ''POSTROUTING'' RemapPostChain)
     (seq (nat_flush ipt RemapPreChain)
     (seq (nat_flush ipt RemapPostChain)
          (nat_append ipt rules)))))))"

definition syncNoMasq :: "'s iptables \<Rightarrow> string list \<Rightarrow> string list \<Rightarrow> ('s, unit) run" where
  "syncNoMasq ipt locals remotes =
     (let rules = BuildNoMasqRules locals remotes in
      seq (nat_ensureChain ipt NoMasqChain)
     (seq (nat_ensureHook ipt ''POSTROUTING'' NoMasqChain)
     (seq (nat_flush ipt NoMasqChain)
          (nat_append ipt rules))))"

definition syncGatewayMasq :: "'s iptables \<Rightarrow> string list \<Rightarrow> string list \<Rightarrow> ('s, unit) run" where
  "syncGatewayMasq ipt clientCIDRs destCIDRs =
     (let rules = BuildGatewayMasqRules clientCIDRs destCIDRs in
      seq (nat_ensureChain ipt GatewayMasqChain)
     (seq (nat_ensureHook ipt ''POSTROUTING'' GatewayMasqChain)
     (seq (nat_flush ipt GatewayMasqChain)
          (nat_append ipt rules))))"

text \<open>Dispatch by family: the second handle is absent when \<^verbatim>\<open>ip6tables\<close> is, and its
  share of the input is then dropped.\<close>

definition on_v4 :: "('s, 'a) run \<Rightarrow> ('s \<times> 't, 'a) run" where
  "on_v4 m = (\<lambda>(s, t). case m s of (r, s', l) \<Rightarrow> (r, (s', t), map (\<lambda>u. (u, t)) l))"

definition on_v6 :: "('t, 'a) run \<Rightarrow> ('s \<times> 't, 'a) run" where
  "on_v6 m = (\<lambda>(s, t). case m t of (r, t', l) \<Rightarrow> (r, (s, t'), map (Pair s) l))"

definition if_v6 :: "'t iptables option \<Rightarrow> ('t iptables \<Rightarrow> ('t, unit) run) \<Rightarrow> ('s \<times> 't, unit) run" where
  "if_v6 ipt6 f = (case ipt6 of None \<Rightarrow> ret () | Some h \<Rightarrow> on_v6 (f h))"

definition SyncClusterSetNAT :: "'s iptables \<Rightarrow> 't iptables option \<Rightarrow> ServiceDNAT list \<Rightarrow> ('s \<times> 't, unit) run" where
  "SyncClusterSetNAT ipt ipt6 services =
     (let v6 = filter (\<lambda>s. isIPv6 (sd_VIP s)) services;
          v4 = filter (\<lambda>s. \<not> isIPv6 (sd_VIP s)) services
      in seq (on_v4 (syncClusterSet ipt v4)) (if_v6 ipt6 (\<lambda>h. syncClusterSet h v6)))"

definition nat_SyncRemap :: "'s iptables \<Rightarrow> 't iptables option \<Rightarrow> RemapEntry list \<Rightarrow> ('s \<times> 't, unit) run" where
  "nat_SyncRemap ipt ipt6 entries =
     (let v6 = filter (\<lambda>e. isIPv6 (re_Virtual e)) entries;
          v4 = filter (\<lambda>e. \<not> isIPv6 (re_Virtual e)) entries
      in seq (on_v4 (syncRemap ipt v4)) (if_v6 ipt6 (\<lambda>h. syncRemap h v6)))"

definition SyncMeshNoMasq :: "'s iptables \<Rightarrow> 't iptables option \<Rightarrow> string list \<Rightarrow> string list \<Rightarrow> ('s \<times> 't, unit) run" where
  "SyncMeshNoMasq ipt ipt6 locals remotes =
     seq (on_v4 (syncNoMasq ipt (filter (\<lambda>c. \<not> isIPv6 c) locals) (filter (\<lambda>c. \<not> isIPv6 c) remotes)))
         (if_v6 ipt6 (\<lambda>h. syncNoMasq h (filter isIPv6 locals) (filter isIPv6 remotes)))"

definition SyncGatewayMasq :: "'s iptables \<Rightarrow> 't iptables option \<Rightarrow> string list \<Rightarrow> string list \<Rightarrow> ('s \<times> 't, unit) run" where
  "SyncGatewayMasq ipt ipt6 clientCIDRs destCIDRs =
     seq (on_v4 (syncGatewayMasq ipt (filter (\<lambda>c. \<not> isIPv6 c) clientCIDRs) (filter (\<lambda>c. \<not> isIPv6 c) destCIDRs)))
         (if_v6 ipt6 (\<lambda>h. syncGatewayMasq h (filter isIPv6 clientCIDRs) (filter isIPv6 destCIDRs)))"

definition nat_NewManager ::
  "'s iptables result \<Rightarrow> 't iptables result \<Rightarrow> ('s \<times> 't, 's iptables \<times> 't iptables option) run" where
  "nat_NewManager opened opened6 = (case opened of
      Inl e \<Rightarrow> (\<lambda>w. (Inl (''nat: opening iptables (is the iptables binary present?): '' @ e), w, []))
    | Inr ipt \<Rightarrow>
        (let ipt6 = (case opened6 of Inl _ \<Rightarrow> None | Inr h \<Rightarrow> Some h)
         in seq (on_v4 (nat_ensureInfra ipt)) (seq (if_v6 ipt6 nat_ensureInfra) (ret (ipt, ipt6)))))"

section \<open>Assertions\<close>

text \<open>A sync owns the chains \<^verbatim>\<open>ours\<close> of the nat table and inserts one jump into each
  built-in chain of \<^verbatim>\<open>hooks\<close>; all other chains keep their rules.\<close>

definition hook_kept :: "string \<Rightarrow> rulespec list option \<Rightarrow> rulespec list option \<Rightarrow> bool" where
  "hook_kept target old new \<longleftrightarrow> new = old \<or>
     (\<exists>rules. old = Some rules \<and> [''-j'', target] \<notin> set rules \<and> new = Some ([''-j'', target] # rules))"

definition nat_frame :: "(string \<Rightarrow> bool) \<Rightarrow> (string \<times> string) list \<Rightarrow> tables \<Rightarrow> tables \<Rightarrow> bool" where
  "nat_frame ours hooks T0 T \<longleftrightarrow>
     (\<forall>t c. t \<noteq> TableNAT \<or> (\<not> ours c \<and> c \<notin> fst ` set hooks) \<longrightarrow> T t c = T0 t c) \<and>
     (\<forall>(b, target)\<in>set hooks. hook_kept target (T0 TableNAT b) (T TableNAT b))"

definition jumps :: "tables \<Rightarrow> string \<times> string \<Rightarrow> bool" where
  "jumps T = (\<lambda>(b, target). \<exists>rules. T TableNAT b = Some rules \<and> [''-j'', target] \<in> set rules)"

definition nat_layout :: "(string \<Rightarrow> bool) \<Rightarrow> (string \<times> string) list \<Rightarrow> bool" where
  "nat_layout ours hooks \<longleftrightarrow> distinct (map fst hooks) \<and> (\<forall>b\<in>fst ` set hooks. \<not> ours b)"

definition nat_ready ::
  "(string \<Rightarrow> bool) \<Rightarrow> (string \<times> string) list \<Rightarrow> tables \<Rightarrow> string list \<Rightarrow> (string \<times> string) list \<Rightarrow> tables \<Rightarrow> bool" where
  "nat_ready ours hooks T0 cs hs T \<longleftrightarrow> nat_frame ours hooks T0 T \<and>
     (\<forall>c\<in>set cs. T TableNAT c \<noteq> None) \<and> (\<forall>h\<in>set hs. jumps T h)"

text \<open>All jumps installed and the owned chains as given.\<close>

definition nat_holds ::
  "(string \<Rightarrow> bool) \<Rightarrow> (string \<times> string) list \<Rightarrow> tables \<Rightarrow> (string \<rightharpoonup> rulespec list) \<Rightarrow> tables \<Rightarrow> bool" where
  "nat_holds ours hooks T0 content T \<longleftrightarrow> nat_frame ours hooks T0 T \<and> (\<forall>h\<in>set hooks. jumps T h) \<and>
     (\<forall>c. ours c \<longrightarrow> T TableNAT c = content c)"

lemma nat_frame_refl: "nat_frame ours hooks T T"
  by (auto simp: nat_frame_def hook_kept_def)

lemma nat_frame_ours:
  "nat_layout ours hooks \<Longrightarrow> nat_frame ours hooks T0 T \<Longrightarrow> ours c \<Longrightarrow> nat_frame ours hooks T0 (set_chain T TableNAT c v)"
  unfolding nat_layout_def nat_frame_def by (auto split: prod.splits)

lemma jumps_ours:
  "nat_layout ours hooks \<Longrightarrow> h \<in> set hooks \<Longrightarrow> ours c \<Longrightarrow> jumps (set_chain T TableNAT c v) h = jumps T h"
  by (auto simp: nat_layout_def jumps_def split: prod.splits)

lemma nat_frame_hook:
  assumes "nat_layout ours hooks" "nat_frame ours hooks T0 T" "(b, target) \<in> set hooks"
    and "T TableNAT b = Some rules" "[''-j'', target] \<notin> set rules"
  shows "nat_frame ours hooks T0 (set_chain T TableNAT b (Some ([''-j'', target] # rules)))"
proof -
  let ?T = "set_chain T TableNAT b (Some ([''-j'', target] # rules))"
  have "T TableNAT b = T0 TableNAT b"
    using assms(2-5) unfolding nat_frame_def hook_kept_def by fastforce
  then have new: "hook_kept target (T0 TableNAT b) (?T TableNAT b)" using assms(4,5) by (simp add: hook_kept_def)
  have only: "target' = target" if "(b, target') \<in> set hooks" for target'
    using assms(1,3) that unfolding nat_layout_def by (blast dest: eq_key_imp_eq_value)
  have old: "hook_kept target' (T0 TableNAT b') (T TableNAT b')" if "(b', target') \<in> set hooks" for b' target'
    using assms(2) that unfolding nat_frame_def by blast
  have hooks: "hook_kept target' (T0 TableNAT b') (?T TableNAT b')" if h: "(b', target') \<in> set hooks" for b' target'
  proof (cases "b' = b")
    case True
    then show ?thesis using new only [of target'] h by blast
  next
    case False
    then show ?thesis using old [OF h] by simp
  qed
  have "b \<in> fst ` set hooks" using assms(3) by force
  then have "?T t c = T0 t c" if "t \<noteq> TableNAT \<or> (\<not> ours c \<and> c \<notin> fst ` set hooks)" for t c
    using that assms(2) unfolding nat_frame_def by (cases "c = b") auto
  then show ?thesis using hooks unfolding nat_frame_def by blast
qed

lemma nat_ready_ours:
  assumes "nat_layout ours hooks" "ours c" "set hs \<subseteq> set hooks" "nat_ready ours hooks T0 cs hs T"
  shows "nat_ready ours hooks T0 cs hs (set_chain T TableNAT c (Some rules))"
proof -
  have "jumps (set_chain T TableNAT c (Some rules)) h" if "h \<in> set hs" for h
  proof -
    have "h \<in> set hooks" using that assms(3) by blast
    then show ?thesis using that assms(4) by (simp add: jumps_ours [OF assms(1) _ assms(2)] nat_ready_def)
  qed
  then show ?thesis using assms(4) nat_frame_ours [OF assms(1) _ assms(2)] by (simp add: nat_ready_def)
qed

definition remap_owned :: "string \<Rightarrow> bool" where
  "remap_owned c \<longleftrightarrow> c \<in> {RemapPreChain, RemapPostChain}"

definition remap_hooks :: "(string \<times> string) list" where
  "remap_hooks = [(''POSTROUTING'', RemapPostChain), (''PREROUTING'', RemapPreChain)]"

context iptables_handle
begin

lemma ensureChain_ready:
  assumes "nat_layout ours hooks" "ours c" "set hs \<subseteq> set hooks"
  shows "holds tables (nat_ready ours hooks T0 cs hs) (nat_ensureChain ipt c) (\<lambda>_. nat_ready ours hooks T0 (c # cs) hs) (nat_frame ours hooks T0)"
  unfolding nat_ensureChain_def
proof (rule unless_chain)
  fix T T' assume T: "nat_ready ours hooks T0 cs hs T"
    and "T TableNAT c = None \<and> T' = set_chain T TableNAT c (Some [])"
  then show "nat_frame ours hooks T0 T' \<and> nat_ready ours hooks T0 (c # cs) hs T'"
    using nat_ready_ours [OF assms T, of "[]"] by (simp add: nat_ready_def)
qed (auto simp: nat_ready_def)

lemma ensureHook_ready:
  assumes layout: "nat_layout ours hooks" and h: "(b, target) \<in> set hooks" and cs: "\<And>c. c \<in> set cs \<Longrightarrow> ours c"
  shows "holds tables (nat_ready ours hooks T0 cs hs) (nat_ensureHook ipt b target)
    (\<lambda>_. nat_ready ours hooks T0 cs ((b, target) # hs)) (nat_frame ours hooks T0)"
  unfolding nat_ensureHook_def
proof (rule unless_inserted)
  fix T T' assume T: "nat_ready ours hooks T0 cs hs T"
    and no: "\<nexists>rules. T TableNAT b = Some rules \<and> [''-j'', target] \<in> set rules"
    and "\<exists>rules. T TableNAT b = Some rules \<and> T' = set_chain T TableNAT b (Some ([''-j'', target] # rules))"
  then obtain rules where r: "T TableNAT b = Some rules" "[''-j'', target] \<notin> set rules"
    "T' = set_chain T TableNAT b (Some ([''-j'', target] # rules))" by auto
  have "nat_frame ours hooks T0 T'"
    using T r h layout unfolding nat_ready_def by (simp add: nat_frame_hook)
  moreover have "jumps T' h'" if "jumps T h'" for h' using that r by (auto simp: jumps_def split: prod.splits)
  moreover have "T' TableNAT c \<noteq> None" if "c \<in> set cs" for c using that T r by (simp add: nat_ready_def)
  moreover have "jumps T' (b, target)" using r by (simp add: jumps_def)
  ultimately show "nat_frame ours hooks T0 T' \<and> nat_ready ours hooks T0 cs ((b, target) # hs) T'"
    using T by (simp add: nat_ready_def)
qed (auto simp: nat_ready_def jumps_def)

lemma flush_ready:
  assumes "nat_layout ours hooks" "ours c" "set hs \<subseteq> set hooks" "\<And>T. nat_ready ours hooks T0 [] hs T \<Longrightarrow> P T \<Longrightarrow> Q (set_chain T TableNAT c (Some []))"
  shows "holds tables (\<lambda>T. nat_ready ours hooks T0 cs hs T \<and> P T) (nat_flush ipt c)
    (\<lambda>_ T. nat_ready ours hooks T0 cs hs T \<and> T TableNAT c = Some [] \<and> Q T) (nat_frame ours hooks T0)"
  unfolding nat_flush_def
proof (rule cleared)
  fix T T' assume T: "nat_ready ours hooks T0 cs hs T \<and> P T" and T': "T' = set_chain T TableNAT c (Some [])"
  have "nat_ready ours hooks T0 cs hs T'" using nat_ready_ours [OF assms(1-3)] T T' by simp
  moreover have "Q T'" using T T' assms(4) by (simp add: nat_ready_def)
  ultimately show "nat_frame ours hooks T0 T' \<and> nat_ready ours hooks T0 cs hs T' \<and> T' TableNAT c = Some [] \<and> Q T'"
    using T' by (simp add: nat_ready_def)
qed (auto simp: nat_ready_def)

lemma append_fills:
  assumes "nat_layout ours hooks" "\<And>r. r \<in> set rules \<Longrightarrow> ours (nr_Chain r) \<and> nr_Chain r \<in> C"
  shows "holds tables (nat_holds ours hooks T0 (\<lambda>c. if c \<in> C then Some [] else None)) (nat_append ipt rules)
    (\<lambda>_. nat_holds ours hooks T0 (\<lambda>c. if c \<in> C then Some (chain_of rules c) else None)) (nat_frame ours hooks T0)"
proof -
  let ?J = "\<lambda>rs :: NatRule list. nat_holds ours hooks T0 (\<lambda>c. if c \<in> C then Some (chain_of rs c) else None)"
  have "holds tables (?J []) (nat_append ipt rules) (\<lambda>_. ?J rules) (nat_frame ours hooks T0)"
    unfolding nat_append_def
  proof (rule holds_for_each [where J = ?J])
    fix rs r rest assume "rules = rs @ r # rest"
    then have r: "ours (nr_Chain r)" "nr_Chain r \<in> C" using assms(2) by auto
    show "holds tables (?J rs) (errorf (''nat: appending to '' @ nr_Chain r @ '' '' @ fmt_strings (nr_Args r))
        (call (ipt_Append ipt TableNAT (nr_Chain r) (nr_Args r)))) (\<lambda>_. ?J (rs @ [r])) (nat_frame ours hooks T0)"
    proof (rule appended)
      fix T T' assume J: "?J rs T"
        and "\<exists>old. T TableNAT (nr_Chain r) = Some old \<and> T' = set_chain T TableNAT (nr_Chain r) (Some (old @ [nr_Args r]))"
      then have T': "T' = set_chain T TableNAT (nr_Chain r) (Some (chain_of rs (nr_Chain r) @ [nr_Args r]))"
        using r by (auto simp: nat_holds_def)
      then show "nat_frame ours hooks T0 T' \<and> ?J (rs @ [r]) T'"
        using J r by (simp add: nat_holds_def chain_of_def nat_frame_ours [OF assms(1) _ r(1)] jumps_ours [OF assms(1) _ r(1)])
    qed (simp add: nat_holds_def)
  qed (simp add: nat_holds_def)
  moreover have "?J [] = nat_holds ours hooks T0 (\<lambda>c. if c \<in> C then Some [] else None)"
    by (simp add: chain_of_def cong: if_cong)
  ultimately show ?thesis by (simp only:)
qed

lemma single_chain_sync:
  assumes "b \<noteq> c" "\<And>r. r \<in> set rules \<Longrightarrow> nr_Chain r = c"
  shows "holds tables (\<lambda>T. T = T0)
    (seq (nat_ensureChain ipt c) (seq (nat_ensureHook ipt b c) (seq (nat_flush ipt c) (nat_append ipt rules))))
    (\<lambda>_. nat_holds (\<lambda>x. x = c) [(b, c)] T0 (\<lambda>x. if x \<in> {c} then Some (chain_of rules x) else None))
    (nat_frame (\<lambda>x. x = c) [(b, c)] T0)"
proof -
  let ?o = "\<lambda>x. x = c" and ?h = "[(b, c)]"
  have layout: "nat_layout ?o ?h" using assms(1) by (simp add: nat_layout_def)
  have s1: "holds tables (\<lambda>T. T = T0) (nat_ensureChain ipt c) (\<lambda>_. nat_ready ?o ?h T0 [c] []) (nat_frame ?o ?h T0)"
    by (rule holds_conseq [OF ensureChain_ready [OF layout refl, of "[]" T0 "[]"]]) (simp_all add: nat_ready_def nat_frame_refl)
  have s2: "holds tables (nat_ready ?o ?h T0 [c] []) (nat_ensureHook ipt b c) (\<lambda>_. nat_ready ?o ?h T0 [c] ?h) (nat_frame ?o ?h T0)"
    by (rule ensureHook_ready [OF layout]) simp_all
  have s3: "holds tables (nat_ready ?o ?h T0 [c] ?h) (nat_flush ipt c)
      (\<lambda>_. nat_holds ?o ?h T0 (\<lambda>x. if x \<in> {c} then Some [] else None)) (nat_frame ?o ?h T0)"
    by (rule holds_conseq [OF flush_ready [OF layout refl subset_refl, where P = "\<lambda>_. True" and Q = "\<lambda>_. True" and cs = "[c]"]])
      (simp_all add: nat_ready_def nat_holds_def)
  have s4: "holds tables (nat_holds ?o ?h T0 (\<lambda>x. if x \<in> {c} then Some [] else None)) (nat_append ipt rules)
      (\<lambda>_. nat_holds ?o ?h T0 (\<lambda>x. if x \<in> {c} then Some (chain_of rules x) else None)) (nat_frame ?o ?h T0)"
    using assms(2) by (intro append_fills [OF layout]) simp
  show ?thesis by (rule holds_seq [OF s1 holds_seq [OF s2 holds_seq [OF s3 s4]]])
qed

lemma remap_sync:
  assumes "\<And>r. r \<in> set rules \<Longrightarrow> nr_Chain r \<in> {RemapPreChain, RemapPostChain}"
  shows "holds tables (\<lambda>T. T = T0)
    (seq (nat_ensureChain ipt RemapPreChain) (seq (nat_ensureHook ipt ''PREROUTING'' RemapPreChain)
      (seq (nat_ensureChain ipt RemapPostChain) (seq (nat_ensureHook ipt ''POSTROUTING'' RemapPostChain)
        (seq (nat_flush ipt RemapPreChain) (seq (nat_flush ipt RemapPostChain) (nat_append ipt rules)))))))
    (\<lambda>_. nat_holds remap_owned remap_hooks T0 (\<lambda>x. if x \<in> {RemapPreChain, RemapPostChain} then Some (chain_of rules x) else None))
    (nat_frame remap_owned remap_hooks T0)"
proof -
  let ?pre = RemapPreChain and ?post = RemapPostChain
  have layout: "nat_layout remap_owned remap_hooks" by (simp add: nat_layout_def remap_owned_def remap_hooks_def RemapPreChain_def RemapPostChain_def)
  have own: "remap_owned ?pre" "remap_owned ?post" by (simp_all add: remap_owned_def)
  have cases: "x = ?pre \<or> x = ?post" if "remap_owned x" for x using that by (simp add: remap_owned_def)
  have hs: "(''PREROUTING'', ?pre) \<in> set remap_hooks" "(''POSTROUTING'', ?post) \<in> set remap_hooks" by (simp_all add: remap_hooks_def)
  have s1: "holds tables (\<lambda>T. T = T0) (nat_ensureChain ipt ?pre) (\<lambda>_. nat_ready remap_owned remap_hooks T0 [?pre] []) (nat_frame remap_owned remap_hooks T0)"
    by (rule holds_conseq [OF ensureChain_ready [OF layout own(1), of "[]" T0 "[]"]]) (simp_all add: nat_ready_def nat_frame_refl)
  have s2: "holds tables (nat_ready remap_owned remap_hooks T0 [?pre] []) (nat_ensureHook ipt ''PREROUTING'' ?pre)
      (\<lambda>_. nat_ready remap_owned remap_hooks T0 [?pre] [(''PREROUTING'', ?pre)]) (nat_frame remap_owned remap_hooks T0)"
    using own by (intro ensureHook_ready [OF layout hs(1)]) simp
  have s3: "holds tables (nat_ready remap_owned remap_hooks T0 [?pre] [(''PREROUTING'', ?pre)]) (nat_ensureChain ipt ?post)
      (\<lambda>_. nat_ready remap_owned remap_hooks T0 [?post, ?pre] [(''PREROUTING'', ?pre)]) (nat_frame remap_owned remap_hooks T0)"
    using hs by (intro ensureChain_ready [OF layout own(2)]) simp
  have s4: "holds tables (nat_ready remap_owned remap_hooks T0 [?post, ?pre] [(''PREROUTING'', ?pre)]) (nat_ensureHook ipt ''POSTROUTING'' ?post)
      (\<lambda>_. nat_ready remap_owned remap_hooks T0 [?post, ?pre] remap_hooks) (nat_frame remap_owned remap_hooks T0)"
    unfolding remap_hooks_def using own by (intro ensureHook_ready [OF layout [unfolded remap_hooks_def] hs(2) [unfolded remap_hooks_def]]) auto
  have s5: "holds tables (nat_ready remap_owned remap_hooks T0 [?post, ?pre] remap_hooks) (nat_flush ipt ?pre)
      (\<lambda>_ T. nat_ready remap_owned remap_hooks T0 [?post, ?pre] remap_hooks T \<and> T TableNAT ?pre = Some []) (nat_frame remap_owned remap_hooks T0)"
    by (rule holds_conseq [OF flush_ready [OF layout own(1) subset_refl, where P = "\<lambda>_. True" and Q = "\<lambda>_. True" and cs = "[?post, ?pre]"]]) simp_all
  have s6: "holds tables (\<lambda>T. nat_ready remap_owned remap_hooks T0 [?post, ?pre] remap_hooks T \<and> T TableNAT ?pre = Some []) (nat_flush ipt ?post)
      (\<lambda>_. nat_holds remap_owned remap_hooks T0 (\<lambda>x. if x \<in> {?pre, ?post} then Some [] else None)) (nat_frame remap_owned remap_hooks T0)"
    by (rule holds_conseq [OF flush_ready [OF layout own(2) subset_refl,
        where P = "\<lambda>T. T TableNAT ?pre = Some []" and Q = "\<lambda>T. T TableNAT ?pre = Some []" and cs = "[?post, ?pre]"]])
      (auto simp: nat_ready_def nat_holds_def dest!: cases)
  have s7: "holds tables (nat_holds remap_owned remap_hooks T0 (\<lambda>x. if x \<in> {?pre, ?post} then Some [] else None)) (nat_append ipt rules)
      (\<lambda>_. nat_holds remap_owned remap_hooks T0 (\<lambda>x. if x \<in> {?pre, ?post} then Some (chain_of rules x) else None)) (nat_frame remap_owned remap_hooks T0)"
    using assms(1) by (intro append_fills [OF layout]) (simp add: remap_owned_def)
  show ?thesis by (rule holds_seq [OF s1 holds_seq [OF s2 holds_seq [OF s3 holds_seq [OF s4 holds_seq [OF s5 holds_seq [OF s6 s7]]]]]])
qed

end

definition cs_owned :: "string \<Rightarrow> bool" where
  "cs_owned c \<longleftrightarrow> c = RootChain \<or> managed_chain c"

definition cs_hooks :: "(string \<times> string) list" where
  "cs_hooks = map (\<lambda>h. (h, RootChain)) nat_hookChains"

lemma cs_layout: "nat_layout cs_owned cs_hooks"
  by (auto simp: nat_layout_def cs_hooks_def nat_hookChains_def cs_owned_def RootChain_def managed_chain_def
      has_prefix_def svcChainPrefix_def sepChainPrefix_def)

lemma managed_names:
  "managed_chain (pair_svc x)" "managed_chain (pair_sep y)" "\<not> managed_chain RootChain"
  by (auto simp: managed_chain_def pair_svc_def pair_sep_def svc_chain_def sep_chain_def hashChain_def
      has_prefix_iff RootChain_def svcChainPrefix_def sepChainPrefix_def split: prod.splits)

lemma block_chain_names:
  "r \<in> set (nat_block x) \<Longrightarrow> nr_Chain r = RootChain \<or> nr_Chain r \<in> set (block_chains x)"
  by (auto simp: nat_block_conv block_chains_conv dest: lb_rules_chain)

lemma ruleset_chain_names:
  "c \<in> set (ns_Chains (BuildRuleset services)) \<Longrightarrow> managed_chain c"
  "r \<in> set (ns_Rules (BuildRuleset services)) \<Longrightarrow> nr_Chain r = RootChain \<or> nr_Chain r \<in> set (ns_Chains (BuildRuleset services))"
  by (auto simp: BuildRuleset_pairs block_chains_conv managed_names) (use block_chain_names block_chains_conv in fastforce)

text \<open>The owned chains are empty except for the root, and of the managed chains only
  those of \<^verbatim>\<open>ms\<close> may exist.\<close>

definition cs_clean :: "tables \<Rightarrow> string set \<Rightarrow> tables \<Rightarrow> bool" where
  "cs_clean T0 ms T \<longleftrightarrow> nat_frame cs_owned cs_hooks T0 T \<and> (\<forall>h\<in>set cs_hooks. jumps T h) \<and> T TableNAT RootChain = Some [] \<and>
     (\<forall>c. managed_chain c \<and> T TableNAT c \<noteq> None \<longrightarrow> c \<in> ms)"

lemma cs_clean_frame: "cs_clean T0 ms T \<Longrightarrow> nat_frame cs_owned cs_hooks T0 T"
  by (simp add: cs_clean_def)

lemma cs_clean_update:
  assumes "cs_clean T0 ms T" "managed_chain c" "v \<noteq> None \<longrightarrow> c \<in> ms'" "\<And>x. x \<in> ms \<Longrightarrow> x \<noteq> c \<Longrightarrow> x \<in> ms'"
  shows "cs_clean T0 ms' (set_chain T TableNAT c v)"
proof -
  have c: "cs_owned c" "c \<noteq> RootChain" using assms(2) managed_names(3) by (auto simp: cs_owned_def)
  have "jumps (set_chain T TableNAT c v) h" if "h \<in> set cs_hooks" for h
    using that assms(1) jumps_ours [OF cs_layout that c(1)] by (simp add: cs_clean_def)
  then show ?thesis
    using assms c nat_frame_ours [OF cs_layout _ c(1)] by (auto simp: cs_clean_def)
qed

context iptables_handle
begin

lemma ensureInfra_nat:
  "holds tables (\<lambda>T. T = T0) (nat_ensureInfra ipt) (\<lambda>_. nat_ready cs_owned cs_hooks T0 [RootChain] cs_hooks) (nat_frame cs_owned cs_hooks T0)"
proof -
  let ?R = "\<lambda>hs :: string list. nat_ready cs_owned cs_hooks T0 [RootChain] (map (\<lambda>h. (h, RootChain)) hs)"
  have root: "cs_owned RootChain" by (simp add: cs_owned_def)
  have s1: "holds tables (\<lambda>T. T = T0) (nat_ensureChain ipt RootChain) (\<lambda>_. ?R []) (nat_frame cs_owned cs_hooks T0)"
    by (rule holds_conseq [OF ensureChain_ready [OF cs_layout root, of "[]" T0 "[]"]]) (simp_all add: nat_ready_def nat_frame_refl)
  have s2: "holds tables (?R []) (for_each (\<lambda>hook. nat_ensureHook ipt hook RootChain) nat_hookChains) (\<lambda>_. ?R nat_hookChains) (nat_frame cs_owned cs_hooks T0)"
  proof (rule holds_for_each [where J = ?R])
    fix hs h rest assume "nat_hookChains = hs @ h # rest"
    then have "h \<in> set nat_hookChains" by (metis in_set_conv_decomp)
    then have "(h, RootChain) \<in> set cs_hooks" by (simp add: cs_hooks_def)
    then have "holds tables (?R hs) (nat_ensureHook ipt h RootChain)
        (\<lambda>_. nat_ready cs_owned cs_hooks T0 [RootChain] ((h, RootChain) # map (\<lambda>h. (h, RootChain)) hs)) (nat_frame cs_owned cs_hooks T0)"
      using root by (intro ensureHook_ready [OF cs_layout]) auto
    then show "holds tables (?R hs) (nat_ensureHook ipt h RootChain) (\<lambda>_. ?R (hs @ [h])) (nat_frame cs_owned cs_hooks T0)"
      by (rule holds_conseq) (simp_all add: nat_ready_def)
  qed (simp add: nat_ready_def)
  show ?thesis using holds_seq [OF s1 s2] unfolding nat_ensureInfra_def by (simp add: cs_hooks_def)
qed

lemma deleteManaged_clean:
  "holds tables (cs_clean T0 UNIV) (deleteManagedChains ipt) (\<lambda>_. cs_clean T0 {}) (nat_frame cs_owned cs_hooks T0)"
  unfolding deleteManagedChains_def
proof (rule holds_bind)
  let ?F = "nat_frame cs_owned cs_hooks T0"
  show "holds tables (cs_clean T0 UNIV) (errorf ''nat: listing chains'' (call (ipt_ListChains ipt TableNAT)))
      (\<lambda>cs T. cs_clean T0 UNIV T \<and> set cs = dom (T TableNAT)) ?F"
    by (rule listed) (simp add: cs_clean_def)
  fix existing
  let ?ms = "filter managed_chain existing"
  have s1: "holds tables (cs_clean T0 (set ?ms)) (for_each (\<lambda>c. errorf (''nat: flushing chain '' @ c) (call (ipt_ClearChain ipt TableNAT c))) ?ms)
      (\<lambda>_. cs_clean T0 (set ?ms)) ?F"
  proof (rule holds_for_each [where J = "\<lambda>_. cs_clean T0 (set ?ms)"])
    fix ds c rest assume "?ms = ds @ c # rest"
    then have "c \<in> set ?ms" by (metis in_set_conv_decomp)
    then have up: "cs_clean T0 (set ?ms) (set_chain T TableNAT c (Some []))" if "cs_clean T0 (set ?ms) T" for T
      by (intro cs_clean_update [OF that]) auto
    show "holds tables (cs_clean T0 (set ?ms)) (errorf (''nat: flushing chain '' @ c) (call (ipt_ClearChain ipt TableNAT c)))
        (\<lambda>_. cs_clean T0 (set ?ms)) ?F"
      by (intro cleared) (use up cs_clean_frame [OF up] in \<open>simp_all add: cs_clean_frame\<close>)
  qed (rule cs_clean_frame)
  have s2: "holds tables (cs_clean T0 (set ?ms - set [])) (for_each (\<lambda>c. errorf (''nat: deleting chain '' @ c) (call (ipt_DeleteChain ipt TableNAT c))) ?ms)
      (\<lambda>_. cs_clean T0 (set ?ms - set ?ms)) ?F"
  proof (rule holds_for_each [where J = "\<lambda>ds. cs_clean T0 (set ?ms - set ds)"])
    fix ds c rest assume "?ms = ds @ c # rest"
    then have "c \<in> set ?ms" by (metis in_set_conv_decomp)
    then have up: "cs_clean T0 (set ?ms - set (ds @ [c])) (set_chain T TableNAT c None)"
      if "cs_clean T0 (set ?ms - set ds) T" for T
      by (intro cs_clean_update [OF that]) auto
    show "holds tables (cs_clean T0 (set ?ms - set ds)) (errorf (''nat: deleting chain '' @ c) (call (ipt_DeleteChain ipt TableNAT c)))
        (\<lambda>_. cs_clean T0 (set ?ms - set (ds @ [c]))) ?F"
      by (intro removed) (use up cs_clean_frame [OF up] in \<open>simp_all add: cs_clean_frame\<close>)
  qed (rule cs_clean_frame)
  have "holds tables (cs_clean T0 (set ?ms)) (seq (for_each (\<lambda>c. errorf (''nat: flushing chain '' @ c) (call (ipt_ClearChain ipt TableNAT c))) ?ms)
           (for_each (\<lambda>c. errorf (''nat: deleting chain '' @ c) (call (ipt_DeleteChain ipt TableNAT c))) ?ms)) (\<lambda>_. cs_clean T0 {}) ?F"
    using s1 s2 by (intro holds_seq [OF s1]) simp
  then show "holds tables (\<lambda>T. cs_clean T0 UNIV T \<and> set existing = dom (T TableNAT)) (let managed = ?ms in
       seq (for_each (\<lambda>c. errorf (''nat: flushing chain '' @ c) (call (ipt_ClearChain ipt TableNAT c))) managed)
           (for_each (\<lambda>c. errorf (''nat: deleting chain '' @ c) (call (ipt_DeleteChain ipt TableNAT c))) managed))
      (\<lambda>_. cs_clean T0 {}) ?F"
    unfolding Let_def by (rule holds_conseq) (auto simp: cs_clean_def)
qed

lemma applyRuleset_fills:
  assumes "\<And>c. c \<in> set (ns_Chains rs) \<Longrightarrow> managed_chain c"
    and "\<And>r. r \<in> set (ns_Rules rs) \<Longrightarrow> nr_Chain r = RootChain \<or> nr_Chain r \<in> set (ns_Chains rs)"
  shows "holds tables (cs_clean T0 {}) (applyRuleset ipt rs)
    (\<lambda>_. nat_holds cs_owned cs_hooks T0 (\<lambda>c. if c \<in> insert RootChain (set (ns_Chains rs)) then Some (chain_of (ns_Rules rs) c) else None))
    (nat_frame cs_owned cs_hooks T0)"
proof -
  let ?E = "\<lambda>cs :: string list. nat_holds cs_owned cs_hooks T0 (\<lambda>c. if c \<in> insert RootChain (set cs) then Some [] else None)"
  let ?F = "nat_frame cs_owned cs_hooks T0"
  have frame: "?E cs T \<Longrightarrow> ?F T" for cs T by (simp add: nat_holds_def)
  have s1: "holds tables (?E []) (for_each (\<lambda>c. errorf (''nat: creating chain '' @ c) (call (ipt_NewChain ipt TableNAT c))) (ns_Chains rs))
      (\<lambda>_. ?E (ns_Chains rs)) ?F"
  proof (rule holds_for_each [where J = ?E])
    fix cs c rest assume "ns_Chains rs = cs @ c # rest"
    then have "c \<in> set (ns_Chains rs)" by (metis in_set_conv_decomp)
    then have c: "cs_owned c" using assms(1) by (simp add: cs_owned_def)
    have up: "?E (cs @ [c]) (set_chain T TableNAT c (Some []))" if "?E cs T" for T
      using that c by (simp add: nat_holds_def nat_frame_ours [OF cs_layout _ c] jumps_ours [OF cs_layout _ c])
    show "holds tables (?E cs) (errorf (''nat: creating chain '' @ c) (call (ipt_NewChain ipt TableNAT c))) (\<lambda>_. ?E (cs @ [c])) ?F"
      by (intro created) (use up frame [OF up] frame in auto)
  qed (rule frame)
  have s2: "holds tables (?E (ns_Chains rs)) (nat_append ipt (ns_Rules rs))
    (\<lambda>_. nat_holds cs_owned cs_hooks T0 (\<lambda>c. if c \<in> insert RootChain (set (ns_Chains rs)) then Some (chain_of (ns_Rules rs) c) else None)) ?F"
    using assms by (intro append_fills [OF cs_layout]) (auto simp: cs_owned_def)
  have "?E [] T" if "cs_clean T0 {} T" for T
    using that by (auto simp: cs_clean_def nat_holds_def cs_owned_def)
  then show ?thesis
    unfolding applyRuleset_def using holds_conseq [OF holds_seq [OF s1 s2]] by simp
qed

lemma syncClusterSet_fills:
  "holds tables (\<lambda>T. T = T0) (syncClusterSet ipt services)
    (\<lambda>_. nat_holds cs_owned cs_hooks T0 (\<lambda>c. if c \<in> insert RootChain (set (ns_Chains (BuildRuleset services)))
       then Some (chain_of (ns_Rules (BuildRuleset services)) c) else None))
    (nat_frame cs_owned cs_hooks T0)"
proof -
  have root: "cs_owned RootChain" by (simp add: cs_owned_def)
  have flush: "holds tables (nat_ready cs_owned cs_hooks T0 [RootChain] cs_hooks) (nat_flush ipt RootChain) (\<lambda>_. cs_clean T0 UNIV)
      (nat_frame cs_owned cs_hooks T0)"
    by (rule holds_conseq [OF flush_ready [OF cs_layout root subset_refl, where P = "\<lambda>_. True" and Q = "\<lambda>_. True" and cs = "[RootChain]"]])
      (simp_all add: nat_ready_def cs_clean_def)
  show ?thesis unfolding syncClusterSet_def Let_def
    by (intro holds_seq [OF ensureInfra_nat] holds_seq [OF flush] holds_seq [OF deleteManaged_clean] applyRuleset_fills ruleset_chain_names)
qed

end

section \<open>Both families\<close>

lemma holds_on_v4:
  assumes "holds v P m Q S" "\<And>U. R U \<Longrightarrow> SR U"
  shows "holds (\<lambda>(s, t). (v s, w t)) (\<lambda>(T, U). P T \<and> R U) (on_v4 m) (\<lambda>a (T, U). Q a T \<and> R U) (\<lambda>(T, U). S T \<and> SR U)"
  using assms unfolding holds_def triple_def on_v4_def by (auto split: prod.splits)

lemma holds_on_v6:
  assumes "holds w P m Q S" "\<And>T. R T \<Longrightarrow> SR T"
  shows "holds (\<lambda>(s, t). (v s, w t)) (\<lambda>(T, U). R T \<and> P U) (on_v6 m) (\<lambda>a (T, U). R T \<and> Q a U) (\<lambda>(T, U). SR T \<and> S U)"
  using assms unfolding holds_def triple_def on_v6_def by (auto split: prod.splits)

lemma two_families:
  assumes m4: "holds v (\<lambda>T. T = T0) m4 (\<lambda>_. Q4) S4" and m6: "\<And>h. ipt6 = Some h \<Longrightarrow> holds w (\<lambda>U. U = U0) (m6 h) (\<lambda>_. Q6) S6"
    and safe: "S6 U0" "\<And>T. Q4 T \<Longrightarrow> S4 T"
  shows "holds (\<lambda>(s, t). (v s, w t)) (\<lambda>(T, U). T = T0 \<and> U = U0) (seq (on_v4 m4) (if_v6 ipt6 m6))
    (\<lambda>_ (T, U). Q4 T \<and> (if ipt6 = None then U = U0 else Q6 U)) (\<lambda>(T, U). S4 T \<and> S6 U)"
proof (rule holds_seq)
  show "holds (\<lambda>(s, t). (v s, w t)) (\<lambda>(T, U). T = T0 \<and> U = U0) (on_v4 m4) (\<lambda>_ (T, U). Q4 T \<and> U = U0) (\<lambda>(T, U). S4 T \<and> S6 U)"
    using m4 safe(1) by (intro holds_on_v4) simp_all
  show "holds (\<lambda>(s, t). (v s, w t)) (\<lambda>(T, U). Q4 T \<and> U = U0) (if_v6 ipt6 m6)
      (\<lambda>_ (T, U). Q4 T \<and> (if ipt6 = None then U = U0 else Q6 U)) (\<lambda>(T, U). S4 T \<and> S6 U)"
  proof (cases ipt6)
    case None
    then show ?thesis using safe by (auto simp: if_v6_def intro!: holds_ret)
  next
    case (Some h)
    then show ?thesis using holds_on_v6 [OF m6 [OF Some], of Q4 S4] safe by (simp add: if_v6_def)
  qed
qed

lemma sync_families:
  assumes "\<And>T0. holds tables4 (\<lambda>T. T = T0) m4 (\<lambda>_ T. F T0 T \<and> Q4 T) (F T0)"
    and "\<And>h T0. ipt6 = Some h \<Longrightarrow> holds tables6 (\<lambda>T. T = T0) (m6 h) (\<lambda>_ T. F T0 T \<and> Q6 T) (F T0)"
    and "\<And>T. F T T" "seq (on_v4 m4) (if_v6 ipt6 m6) (s4, s6) = (r, (s4', s6'), visited)"
  shows "(\<forall>(u4, u6)\<in>set ((s4', s6') # visited). F (tables4 s4) (tables4 u4) \<and> F (tables6 s6) (tables6 u6)) \<and>
    (r = Inr () \<longrightarrow> Q4 (tables4 s4') \<and> (if ipt6 = None then tables6 s6' = tables6 s6 else Q6 (tables6 s6')))"
proof -
  have "holds (\<lambda>(s, t). (tables4 s, tables6 t)) (\<lambda>(T, U). T = tables4 s4 \<and> U = tables6 s6) (seq (on_v4 m4) (if_v6 ipt6 m6))
      (\<lambda>_ (T, U). (F (tables4 s4) T \<and> Q4 T) \<and> (if ipt6 = None then U = tables6 s6 else F (tables6 s6) U \<and> Q6 U))
      (\<lambda>(T, U). F (tables4 s4) T \<and> F (tables6 s6) U)"
    using assms(1-3) by (intro two_families) simp_all
  note phases = holdsD [OF this, of "(s4, s6)", simplified, OF assms(4)]
  show ?thesis
  proof (cases r)
    case (Inl e)
    then show ?thesis using phases(1,3) by auto
  next
    case (Inr u)
    then show ?thesis using phases(1,2) assms(3) by (auto split: if_splits)
  qed
qed

text \<open>The nat table realizes a plan: the owned chains hold exactly its rules, and the
  built-in chains jump to them.\<close>

definition realizes :: "ServiceDNAT list \<Rightarrow> tables \<Rightarrow> bool" where
  "realizes services T \<longleftrightarrow> (\<forall>h\<in>set cs_hooks. jumps T h) \<and>
     (\<forall>c. cs_owned c \<longrightarrow> T TableNAT c = (if c \<in> insert RootChain (set (ns_Chains (BuildRuleset services)))
        then Some (chain_of (ns_Rules (BuildRuleset services)) c) else None))"

text \<open>Rebuilding the ClusterSetIP chains is exact and keeps to its own chains:
  whatever state the tables were left in, a sync that reports success makes the
  owned chains of each family hold exactly the rules of the plan of that family,
  with no stale service chain left and the jumps installed; and in every state
  of a sync, failing calls included, the chains of others keep their rules,
  built-in chains gaining at most the one jump.\<close>

lemma SyncClusterSetNAT_exact:
  assumes "iptables_handle ipt tables4" "\<forall>h. ipt6 = Some h \<longrightarrow> iptables_handle h tables6"
    and "SyncClusterSetNAT ipt ipt6 services (s4, s6) = (r, (s4', s6'), visited)"
  shows "(\<forall>(u4, u6)\<in>set ((s4', s6') # visited). nat_frame cs_owned cs_hooks (tables4 s4) (tables4 u4) \<and>
       nat_frame cs_owned cs_hooks (tables6 s6) (tables6 u6)) \<and>
    (r = Inr () \<longrightarrow> realizes (filter (\<lambda>s. \<not> isIPv6 (sd_VIP s)) services) (tables4 s4') \<and>
       (if ipt6 = None then tables6 s6' = tables6 s6
        else realizes (filter (\<lambda>s. isIPv6 (sd_VIP s)) services) (tables6 s6')))"
proof -
  have fills: "holds tables (\<lambda>T. T = T0) (syncClusterSet h svcs) (\<lambda>_ T. nat_frame cs_owned cs_hooks T0 T \<and> realizes svcs T)
      (nat_frame cs_owned cs_hooks T0)"
    if "iptables_handle h tables" for h :: "'x iptables" and tables svcs T0
    by (rule holds_conseq [OF iptables_handle.syncClusterSet_fills [OF that]]) (simp_all add: nat_holds_def realizes_def)
  show ?thesis
    using fills [OF assms(1)] fills assms(2) assms(3) [unfolded SyncClusterSetNAT_def Let_def]
    by (intro sync_families) (auto simp: nat_frame_refl)
qed

definition nat_host :: kernel where
  "nat_host = \<lparr>k_chains = [(''nat'', ''PREROUTING''), (''nat'', ''OUTPUT''), (''nat'', ''DWX-SVC-OLD'')],
     k_rules = (\<lambda>_. [[''-j'', ''KUBE-SERVICES'']]), k_faults = []\<rparr>"

section \<open>Packets in the programmed tables\<close>

definition kernel_chain :: "tables \<Rightarrow> string \<Rightarrow> rulespec list" where
  "kernel_chain T c = (case T TableNAT c of None \<Rightarrow> [] | Some rules \<Rightarrow> rules)"

definition kernel_fate :: "tables \<Rightarrow> coin \<Rightarrow> natpacket \<Rightarrow> string \<Rightarrow> (string \<times> string list) option" where
  "kernel_fate T coin p c = nat_walk 2 (kernel_chain T) coin p (kernel_chain T c)"

text \<open>A walk depends only on the chains its jumps can reach.\<close>

definition jumps_within :: "string set \<Rightarrow> rulespec list \<Rightarrow> bool" where
  "jumps_within K rules \<longleftrightarrow> (\<forall>r\<in>set rules. \<forall>hit p t args. nat_match hit p r = Some (t, args) \<longrightarrow> terminal t \<or> t \<in> K)"

lemma nat_walk_cong:
  assumes "jumps_within K rules" "\<And>c. c \<in> K \<Longrightarrow> ch' c = ch c \<and> jumps_within K (ch c)"
  shows "nat_walk d ch coin p rules = nat_walk d ch' coin p rules"
  using assms
proof (induction d ch coin p rules rule: nat_walk.induct)
  case (2 d ch coin p r rs)
  have rs: "nat_walk d ch coin p rs = nat_walk d ch' coin p rs" if "nat_match (coin r) p r = None"
    using "2.IH"(1) [OF that] "2.prems" by (auto simp: jumps_within_def)
  show ?case
  proof (cases "nat_match (coin r) p r")
    case None
    then show ?thesis using rs by simp
  next
    case (Some x)
    obtain t args where x: "x = (t, args)" by (cases x)
    show ?thesis
    proof (cases "terminal t")
      case True
      then show ?thesis using Some x by simp
    next
      case False
      have t: "t \<in> K" using "2.prems"(1) Some x False by (auto simp: jumps_within_def)
      have rest: "jumps_within K rs" using "2.prems"(1) by (simp add: jumps_within_def)
      show ?thesis
      proof (cases d)
        case 0
        then show ?thesis using Some x False "2.IH"(2) [OF Some x [symmetric] False] rest "2.prems"(2) by simp
      next
        case (Suc d')
        have "nat_walk d' ch coin p (ch t) = nat_walk d' ch' coin p (ch' t)"
          using "2.IH"(3) [OF Some x [symmetric] False Suc] "2.prems"(2) t by simp
        moreover have "nat_walk d ch coin p rs = nat_walk d ch' coin p rs" if "nat_walk d' ch coin p (ch t) = None"
          using "2.IH"(4) [OF Some x [symmetric] False Suc that] rest "2.prems"(2) Suc by simp
        ultimately show ?thesis using Some x False Suc by (auto split: option.splits)
      qed
    qed
  qed
qed simp

lemma lb_rules_within: "jumps_within (set cs) (map nr_Args (lb_rules svc cs))"
  unfolding jumps_within_def by (induction svc cs rule: lb_rules.induct) (auto, blast)

lemma jumps_within_mono: "jumps_within K rules \<Longrightarrow> K \<subseteq> K' \<Longrightarrow> jumps_within K' rules"
  unfolding jumps_within_def by blast

lemma jumps_within_append: "jumps_within K (xs @ ys) \<longleftrightarrow> jumps_within K xs \<and> jumps_within K ys"
  unfolding jumps_within_def set_append ball_Un by (rule refl)



lemma plan_within:
  "jumps_within (set (ns_Chains (BuildRuleset services))) (chain_of (ns_Rules (BuildRuleset services)) c)"
proof -
  have "jumps_within (set (block_chains x)) (map nr_Args (nat_block x))" for x
  proof -
    let ?K = "set (block_chains x)" and ?cs = "map (\<lambda>b. pair_sep (x, b)) (good_backends (fst x))"
    have "jumps_within ?K (map nr_Args (lb_rules (pair_svc x) ?cs))"
      by (rule jumps_within_mono [OF lb_rules_within]) (auto simp: block_chains_conv)
    moreover have "jumps_within ?K [pair_root x]"
      by (simp add: jumps_within_def match_pair_root block_chains_conv)
    moreover have "jumps_within ?K (map (pair_dnat x) bs)" for bs
      by (auto simp: jumps_within_def pair_dnat_def terminal_def split: if_splits prod.splits)
    moreover have "map nr_Args (nat_block x) = [pair_root x] @ map nr_Args (lb_rules (pair_svc x) ?cs) @ map (pair_dnat x) (good_backends (fst x))"
      by (simp add: nat_block_conv comp_def)
    ultimately show ?thesis by (simp only: jumps_within_append)
  qed
  then show ?thesis
    unfolding jumps_within_def chain_of_def BuildRuleset_pairs by fastforce
qed

lemma kernel_fate_realized:
  assumes "realizes services T"
  shows "kernel_fate T coin p RootChain = nat_fate (ns_Rules (BuildRuleset services)) coin p RootChain"
proof -
  let ?K = "set (ns_Chains (BuildRuleset services))" and ?ch = "chain_of (ns_Rules (BuildRuleset services))"
  have own: "cs_owned c" if "c \<in> insert RootChain ?K" for c
    using that ruleset_chain_names(1) by (auto simp: cs_owned_def)
  then have same: "kernel_chain T c = ?ch c" if "c \<in> insert RootChain ?K" for c
    using that assms by (simp add: realizes_def kernel_chain_def)
  have "nat_walk 2 ?ch coin p (?ch RootChain) = nat_walk 2 (kernel_chain T) coin p (?ch RootChain)"
    by (rule nat_walk_cong [OF plan_within]) (use same plan_within in auto)
  then show ?thesis using same by (simp add: kernel_fate_def nat_fate_def)
qed

text \<open>Rules that match pairs of ranges.\<close>

definition pair_rule :: "string \<Rightarrow> string \<times> string \<Rightarrow> rulespec" where
  "pair_rule target = (\<lambda>(a, b). [''-s'', a, ''-d'', b, ''-j'', target])"

lemma match_pair_rule: "nat_match k p (pair_rule target x) =
    (if case x of (a, b) \<Rightarrow> ip_matches a (np_src p) \<and> ip_matches b (np_dst p) then Some (target, []) else None)"
  by (simp add: pair_rule_def split: prod.splits)

lemma pair_walk:
  "terminal target \<Longrightarrow> nat_walk d ch coin p (map (pair_rule target) xs) =
     (if \<exists>(a, b)\<in>set xs. ip_matches a (np_src p) \<and> ip_matches b (np_dst p) then Some (target, []) else None)"
  by (induction xs) (auto simp: match_pair_rule split: if_splits)

lemma insort_key_map: "insort_key f (g x) (map g xs) = map g (insort_key (f \<circ> g) x xs)"
  by (induction xs) simp_all

lemma sort_key_map: "sort_key f (map g xs) = map g (sort_key (f \<circ> g) xs)"
  by (induction xs) (simp_all add: insort_key_map comp_def)

definition family_pairs :: "string list \<Rightarrow> string list \<Rightarrow> (string \<times> string) list" where
  "family_pairs ls rs = concat (map (\<lambda>l. map (Pair l) (filter (\<lambda>r. isIPv6 l = isIPv6 r) (nat_dedupeSorted rs))) (nat_dedupeSorted ls))"

lemma pair_rules:
  "BuildNoMasqRules ls rs = map (\<lambda>x. \<lparr>nr_Chain = NoMasqChain, nr_Args = pair_rule ''ACCEPT'' x\<rparr>) (family_pairs ls rs)"
  "\<exists>xs. set xs = set (family_pairs ls rs) \<and>
     BuildGatewayMasqRules ls rs = map (\<lambda>x. \<lparr>nr_Chain = GatewayMasqChain, nr_Args = pair_rule ''MASQUERADE'' x\<rparr>) xs"
proof -
  show "BuildNoMasqRules ls rs = map (\<lambda>x. \<lparr>nr_Chain = NoMasqChain, nr_Args = pair_rule ''ACCEPT'' x\<rparr>) (family_pairs ls rs)"
    by (simp add: BuildNoMasqRules_def family_pairs_def pair_rule_def map_concat comp_def)
  let ?f = "\<lambda>x. \<lparr>nr_Chain = GatewayMasqChain, nr_Args = pair_rule ''MASQUERADE'' x\<rparr>" and ?k = "\<lambda>r. (nr_Args r ! 1, nr_Args r ! 3)"
  have "BuildGatewayMasqRules ls rs = sort_key ?k (map ?f (family_pairs ls rs))"
    by (simp add: BuildGatewayMasqRules_def family_pairs_def pair_rule_def map_concat comp_def)
  then show "\<exists>xs. set xs = set (family_pairs ls rs) \<and> BuildGatewayMasqRules ls rs = map ?f xs"
    by (intro exI [of _ "sort_key (?k \<circ> ?f) (family_pairs ls rs)"]) (simp only: sort_key_map set_sort)
qed

lemma set_family_pairs:
  "set (family_pairs ls rs) = {(l, r). l \<in> set ls \<and> r \<in> set rs \<and> l \<noteq> '''' \<and> r \<noteq> '''' \<and> isIPv6 l = isIPv6 r}"
  by (auto simp: family_pairs_def nat_dedupeSorted_def)

lemma ip_matches_not_Nil: "\<not> ip_matches '''' a"
  by (simp add: ip_matches_def parse_net_def ParseCIDR_def cut_def)

text \<open>The fate of a packet in a chain of pair rules, over the inputs of the planner.\<close>

definition pair_covered :: "string list \<Rightarrow> string list \<Rightarrow> natpacket \<Rightarrow> bool" where
  "pair_covered ls rs p \<longleftrightarrow> (\<exists>l\<in>set ls. \<exists>r\<in>set rs. isIPv6 l = isIPv6 r \<and> ip_matches l (np_src p) \<and> ip_matches r (np_dst p))"

lemma pair_fate:
  assumes "set xs = set (family_pairs ls rs)" "terminal target"
  shows "nat_walk d ch coin p (map (pair_rule target) xs) = (if pair_covered ls rs p then Some (target, []) else None)"
proof -
  have "(\<exists>(a, b)\<in>set xs. ip_matches a (np_src p) \<and> ip_matches b (np_dst p)) \<longleftrightarrow> pair_covered ls rs p"
    using assms(1) ip_matches_not_Nil by (auto simp: set_family_pairs pair_covered_def)
  then show ?thesis using assms(2) by (simp only: pair_walk)
qed

lemma pair_sync_fate:
  assumes "iptables_handle ipt tables" "b \<noteq> c" "set xs = set (family_pairs ls rs)" "terminal target"
    and "rules = map (\<lambda>x. \<lparr>nr_Chain = c, nr_Args = pair_rule target x\<rparr>) xs"
  shows "holds tables (\<lambda>T. T = T0)
    (seq (nat_ensureChain ipt c) (seq (nat_ensureHook ipt b c) (seq (nat_flush ipt c) (nat_append ipt rules))))
    (\<lambda>_ T. nat_frame (\<lambda>x. x = c) [(b, c)] T0 T \<and> jumps T (b, c) \<and>
       (\<forall>coin p. kernel_fate T coin p c = (if pair_covered ls rs p then Some (target, []) else None)))
    (nat_frame (\<lambda>x. x = c) [(b, c)] T0)"
proof (rule holds_conseq [OF iptables_handle.single_chain_sync [OF assms(1,2)]])
  show "r \<in> set rules \<Longrightarrow> nr_Chain r = c" for r using assms(5) by auto
  fix u T assume "nat_holds (\<lambda>x. x = c) [(b, c)] T0 (\<lambda>x. if x \<in> {c} then Some (chain_of rules x) else None) T"
  moreover have "chain_of rules c = map (pair_rule target) xs" using assms(5) by (simp add: chain_of_def comp_def)
  ultimately show "nat_frame (\<lambda>x. x = c) [(b, c)] T0 T \<and> jumps T (b, c) \<and>
       (\<forall>coin p. kernel_fate T coin p c = (if pair_covered ls rs p then Some (target, []) else None))"
    by (simp add: nat_holds_def kernel_fate_def kernel_chain_def pair_fate [OF assms(3,4)])
qed

definition pair_frame :: "string \<Rightarrow> tables \<Rightarrow> tables \<Rightarrow> bool" where
  "pair_frame c = nat_frame (\<lambda>x. x = c) [(''POSTROUTING'', c)]"

definition pair_exact :: "string \<Rightarrow> string \<Rightarrow> string list \<Rightarrow> string list \<Rightarrow> tables \<Rightarrow> bool" where
  "pair_exact c target ls rs T \<longleftrightarrow> jumps T (''POSTROUTING'', c) \<and>
     (\<forall>coin p. kernel_fate T coin p c = (if pair_covered ls rs p then Some (target, []) else None))"

lemma noMasq_exact:
  "iptables_handle h tables \<Longrightarrow> holds tables (\<lambda>T. T = T0) (syncNoMasq h ls rs)
     (\<lambda>_ T. pair_frame NoMasqChain T0 T \<and> pair_exact NoMasqChain ''ACCEPT'' ls rs T) (pair_frame NoMasqChain T0)"
  unfolding syncNoMasq_def Let_def pair_frame_def pair_exact_def
  by (rule pair_sync_fate [OF _ _ refl _ pair_rules(1)]) (simp_all add: NoMasqChain_def terminal_def)

lemma gatewayMasq_exact:
  "iptables_handle h tables \<Longrightarrow> holds tables (\<lambda>T. T = T0) (syncGatewayMasq h ls rs)
     (\<lambda>_ T. pair_frame GatewayMasqChain T0 T \<and> pair_exact GatewayMasqChain ''MASQUERADE'' ls rs T) (pair_frame GatewayMasqChain T0)"
proof -
  assume h: "iptables_handle h tables"
  obtain xs where xs: "set xs = set (family_pairs ls rs)"
    "BuildGatewayMasqRules ls rs = map (\<lambda>x. \<lparr>nr_Chain = GatewayMasqChain, nr_Args = pair_rule ''MASQUERADE'' x\<rparr>) xs"
    using pair_rules(2) by blast
  show ?thesis unfolding syncGatewayMasq_def Let_def pair_frame_def pair_exact_def
    by (rule pair_sync_fate [OF h _ xs(1) _ xs(2)]) (simp_all add: GatewayMasqChain_def terminal_def)
qed

text \<open>C23. The masquerade exemption is exact: after a sync that reports success, the
  exemption chain of each family accepts a packet exactly when its source lies
  in a local range and its destination in a remote range of that family, the
  chain is reached from POSTROUTING, and in every state of the sync the chains of
  others keep their rules.\<close>

theorem SyncMeshNoMasq_exempts:
  assumes "iptables_handle ipt tables4" "\<forall>h. ipt6 = Some h \<longrightarrow> iptables_handle h tables6"
    and "SyncMeshNoMasq ipt ipt6 locals remotes (s4, s6) = (r, (s4', s6'), visited)"
  shows "(\<forall>(u4, u6)\<in>set ((s4', s6') # visited). pair_frame NoMasqChain (tables4 s4) (tables4 u4) \<and>
       pair_frame NoMasqChain (tables6 s6) (tables6 u6)) \<and>
    (r = Inr () \<longrightarrow>
       pair_exact NoMasqChain ''ACCEPT'' (filter (\<lambda>c. \<not> isIPv6 c) locals) (filter (\<lambda>c. \<not> isIPv6 c) remotes) (tables4 s4') \<and>
       (if ipt6 = None then tables6 s6' = tables6 s6
        else pair_exact NoMasqChain ''ACCEPT'' (filter isIPv6 locals) (filter isIPv6 remotes) (tables6 s6')))"
  using assms(2) noMasq_exact [OF assms(1)] noMasq_exact assms(3) [unfolded SyncMeshNoMasq_def]
  by (intro sync_families) (auto simp: pair_frame_def nat_frame_refl)

lemma SyncGatewayMasq_exact:
  assumes "iptables_handle ipt tables4" "\<forall>h. ipt6 = Some h \<longrightarrow> iptables_handle h tables6"
    and "SyncGatewayMasq ipt ipt6 clients dests (s4, s6) = (r, (s4', s6'), visited)"
  shows "(\<forall>(u4, u6)\<in>set ((s4', s6') # visited). pair_frame GatewayMasqChain (tables4 s4) (tables4 u4) \<and>
       pair_frame GatewayMasqChain (tables6 s6) (tables6 u6)) \<and>
    (r = Inr () \<longrightarrow>
       pair_exact GatewayMasqChain ''MASQUERADE'' (filter (\<lambda>c. \<not> isIPv6 c) clients) (filter (\<lambda>c. \<not> isIPv6 c) dests) (tables4 s4') \<and>
       (if ipt6 = None then tables6 s6' = tables6 s6
        else pair_exact GatewayMasqChain ''MASQUERADE'' (filter isIPv6 clients) (filter isIPv6 dests) (tables6 s6')))"
  using assms(2) gatewayMasq_exact [OF assms(1)] gatewayMasq_exact assms(3) [unfolded SyncGatewayMasq_def]
  by (intro sync_families) (auto simp: pair_frame_def nat_frame_refl)

lemma nat_SyncRemap_exact:
  assumes "iptables_handle ipt tables4" "\<forall>h. ipt6 = Some h \<longrightarrow> iptables_handle h tables6"
    and "nat_SyncRemap ipt ipt6 entries (s4, s6) = (r, (s4', s6'), visited)"
  shows "(\<forall>(u4, u6)\<in>set ((s4', s6') # visited). nat_frame remap_owned remap_hooks (tables4 s4) (tables4 u4) \<and>
       nat_frame remap_owned remap_hooks (tables6 s6) (tables6 u6)) \<and>
    (r = Inr () \<longrightarrow>
       (\<forall>c\<in>{RemapPreChain, RemapPostChain}. tables4 s4' TableNAT c = Some (chain_of (BuildRemapRules (filter (\<lambda>e. \<not> isIPv6 (re_Virtual e)) entries)) c)) \<and>
       (if ipt6 = None then tables6 s6' = tables6 s6
        else \<forall>c\<in>{RemapPreChain, RemapPostChain}. tables6 s6' TableNAT c = Some (chain_of (BuildRemapRules (filter (\<lambda>e. isIPv6 (re_Virtual e)) entries)) c)))"
proof -
  have fills: "holds tables (\<lambda>T. T = T0) (syncRemap h es) (\<lambda>_ T. nat_frame remap_owned remap_hooks T0 T \<and>
      (\<forall>c\<in>{RemapPreChain, RemapPostChain}. T TableNAT c = Some (chain_of (BuildRemapRules es) c))) (nat_frame remap_owned remap_hooks T0)"
    if "iptables_handle h tables" for h :: "'x iptables" and tables es T0
    unfolding syncRemap_def Let_def
    by (rule holds_conseq [OF iptables_handle.remap_sync [OF that]])
      (auto simp: nat_holds_def remap_owned_def BuildRemapRules_def Let_def)
  show ?thesis
    using fills [OF assms(1)] fills assms(2) assms(3) [unfolded nat_SyncRemap_def Let_def]
    by (intro sync_families) (auto simp: nat_frame_refl)
qed

definition masq_host :: kernel where
  "masq_host = \<lparr>k_chains = [(''nat'', ''POSTROUTING'')], k_rules = (\<lambda>_. [[''-j'', ''KUBE-POSTROUTING'']]), k_faults = []\<rparr>"

lemma masq_host_run:
  "\<exists>s' l. SyncMeshNoMasq kernel_iptables (None :: kernel iptables option) [''10.0.0.0/16''] [''10.1.0.0/16'', ''fd00::/64'']
     (masq_host, masq_host) = (Inr (), (s', masq_host), l)"
  by (simp add: SyncMeshNoMasq_def syncNoMasq_def BuildNoMasqRules_def nat_dedupeSorted_def dedup_first_def isIPv6_def
      nat_ensureChain_def nat_ensureHook_def nat_flush_def nat_append_def on_v4_def if_v6_def seq_def bind_run_def
      errorf_def call_def ret_def kernel_iptables_def k_step_def k_put_def k_has_def masq_host_def TableNAT_def NoMasqChain_def Let_def go_eval)

theorem SyncMeshNoMasq_exempts_witness:
  "iptables_handle kernel_iptables k_tables \<and>
   (\<exists>s' l. SyncMeshNoMasq kernel_iptables (None :: kernel iptables option) [''10.0.0.0/16''] [''10.1.0.0/16'', ''fd00::/64'']
       (masq_host, masq_host) = (Inr (), (s', masq_host), l) \<and>
      kernel_fate (k_tables s') (\<lambda>_. True) \<lparr>np_src = IP4 0x0A000001, np_dst = IP4 0x0A010001, np_proto = ''tcp'', np_dport = 80\<rparr> NoMasqChain
        = Some (''ACCEPT'', []))"
proof -
  obtain s' l where run: "SyncMeshNoMasq kernel_iptables (None :: kernel iptables option) [''10.0.0.0/16''] [''10.1.0.0/16'', ''fd00::/64'']
      (masq_host, masq_host) = (Inr (), (s', masq_host), l)" using masq_host_run by blast
  let ?p = "\<lparr>np_src = IP4 0x0A000001, np_dst = IP4 0x0A010001, np_proto = ''tcp'', np_dport = 80\<rparr>"
  have "\<forall>h. (None :: kernel iptables option) = Some h \<longrightarrow> iptables_handle h k_tables" by simp
  from SyncMeshNoMasq_exempts [OF kern.iptables_handle_axioms this run]
  have "pair_exact NoMasqChain ''ACCEPT'' [''10.0.0.0/16''] [''10.1.0.0/16''] (k_tables s')" by (simp add: isIPv6_def)
  moreover have "pair_covered [''10.0.0.0/16''] [''10.1.0.0/16''] ?p"
    by (simp add: pair_covered_def isIPv6_def ip_matches_def go_eval)
  ultimately show ?thesis using run kern.iptables_handle_axioms by (auto simp: pair_exact_def)
qed

end
