(* ===== verification/Ebpf_Remap.thy ===== *)
theory Ebpf_Remap
  imports Nat_Plan Runs
begin

text \<open>
  \<^verbatim>\<open>pkg/dataplane/ebpf\<close>: the alternative data plane for overlapping ranges. The
  planner \<^verbatim>\<open>BuildRemapMaps\<close> compiles the remap entries into two longest-prefix
  maps, the manager converges the kernel maps towards them. The rewriting of
  addresses by these maps is compared with the NETMAP rules of the iptables
  data plane.
\<close>

section \<open>The planner\<close>

record TrieKey =
  tk_PrefixLen :: nat
  tk_Addr :: "32 word"

record Rewrite =
  rw_Base :: "32 word"
  rw_PrefixLen :: nat

record MapEntry =
  me_Key :: TrieKey
  me_Val :: Rewrite
  me_KeyCIDR :: string
  me_ValCIDR :: string

datatype MapID = IngressMap | EgressMap

definition MapID_String :: "MapID \<Rightarrow> string" where
  "MapID_String m = (if m = IngressMap then ''ingress'' else ''egress'')"

record RemapMaps =
  rm_Ingress :: "MapEntry list"
  rm_Egress :: "MapEntry list"

definition parseV4Prefix :: "string \<Rightarrow> (TrieKey \<times> string) result" where
  "parseV4Prefix cidr = bind_result (ParseCIDR cidr) (\<lambda>(ip, ipnet).
     case To4 ip of
       None \<Rightarrow> Inl ''not an IPv4 prefix''
     | Some _ \<Rightarrow> (case To4 (net_IP ipnet) of
         None \<Rightarrow> Inl ''not an IPv4 prefix''
       | Some base \<Rightarrow> Inr (\<lparr>tk_PrefixLen = mask_ones (net_Mask ipnet), tk_Addr = base\<rparr>, string_of_net ipnet)))"

definition wrap_result :: "string \<Rightarrow> 'a result \<Rightarrow> 'a result" where
  "wrap_result prefix r = (case r of Inl e \<Rightarrow> Inl (prefix @ '': '' @ e) | Inr a \<Rightarrow> Inr a)"

definition remap_entry :: "RemapEntry \<Rightarrow> RemapMaps \<Rightarrow> RemapMaps result" where
  "remap_entry e out =
     bind_result (wrap_result (''ebpf remap: real '' @ quote (re_Real e)) (parseV4Prefix (re_Real e))) (\<lambda>(realKey, realCIDR).
     bind_result (wrap_result (''ebpf remap: virtual '' @ quote (re_Virtual e)) (parseV4Prefix (re_Virtual e))) (\<lambda>(virtKey, virtCIDR).
       if tk_PrefixLen realKey \<noteq> tk_PrefixLen virtKey
       then Inl (''ebpf remap: '' @ realCIDR @ '' and '' @ virtCIDR @
                 '' differ in prefix length; a 1:1 NETMAP requires equal-size blocks'')
       else Inr \<lparr>rm_Ingress = rm_Ingress out @ [\<lparr>me_Key = virtKey,
                   me_Val = \<lparr>rw_Base = tk_Addr realKey, rw_PrefixLen = tk_PrefixLen realKey\<rparr>,
                   me_KeyCIDR = virtCIDR, me_ValCIDR = realCIDR\<rparr>],
                 rm_Egress = rm_Egress out @ [\<lparr>me_Key = realKey,
                   me_Val = \<lparr>rw_Base = tk_Addr virtKey, rw_PrefixLen = tk_PrefixLen virtKey\<rparr>,
                   me_KeyCIDR = realCIDR, me_ValCIDR = virtCIDR\<rparr>]\<rparr>))"

fun remap_maps_loop :: "RemapEntry list \<Rightarrow> RemapEntry list \<Rightarrow> RemapMaps \<Rightarrow> RemapMaps result" where
  "remap_maps_loop [] seen out = Inr out"
| "remap_maps_loop (e # es) seen out =
     (if re_Real e = '''' \<or> re_Virtual e = '''' then remap_maps_loop es seen out
      else if e \<in> set seen then remap_maps_loop es seen out
      else bind_result (remap_entry e out) (remap_maps_loop es (e # seen)))"

definition sortEntries :: "MapEntry list \<Rightarrow> MapEntry list" where
  "sortEntries es = sort_key me_KeyCIDR es"

definition BuildRemapMaps :: "RemapEntry list \<Rightarrow> RemapMaps result" where
  "BuildRemapMaps entries =
     bind_result (remap_maps_loop entries [] \<lparr>rm_Ingress = [], rm_Egress = []\<rparr>) (\<lambda>out.
       Inr \<lparr>rm_Ingress = sortEntries (rm_Ingress out), rm_Egress = sortEntries (rm_Egress out)\<rparr>)"

section \<open>The manager\<close>

text \<open>The kernel maps are reached through operations that may fail. \<^verbatim>\<open>List\<close> returns the
  entries of a map in some order, the order in which the loop over the Go map
  visits them.\<close>

record 's MapOps =
  mo_List :: "MapID \<Rightarrow> 's \<Rightarrow> (TrieKey \<times> Rewrite) list result \<times> 's"
  mo_Update :: "MapID \<Rightarrow> TrieKey \<Rightarrow> Rewrite \<Rightarrow> 's \<Rightarrow> unit result \<times> 's"
  mo_Delete :: "MapID \<Rightarrow> TrieKey \<Rightarrow> 's \<Rightarrow> unit result \<times> 's"

definition reconcileMap :: "'s MapOps \<Rightarrow> MapID \<Rightarrow> MapEntry list \<Rightarrow> ('s, unit) run" where
  "reconcileMap ops i desired =
     bind_run (errorf (''ebpf remap: listing '' @ MapID_String i @ '' map'') (call (mo_List ops i))) (\<lambda>current.
       seq (for_each (\<lambda>e.
              if map_of current (me_Key e) = Some (me_Val e) then ret ()
              else errorf (''ebpf remap: updating '' @ MapID_String i @ '' '' @ me_KeyCIDR e @ [CHR 0xE2, CHR 0x86, CHR 0x92] @ me_ValCIDR e)
                     (call (mo_Update ops i (me_Key e) (me_Val e)))) desired)
           (for_each (\<lambda>(key, _).
              if key \<in> me_Key ` set desired then ret ()
              else errorf (''ebpf remap: deleting stale '' @ MapID_String i @ '' entry'')
                     (call (mo_Delete ops i key))) current))"

definition ebpf_SyncRemap :: "'s MapOps \<Rightarrow> RemapEntry list \<Rightarrow> ('s, unit) run" where
  "ebpf_SyncRemap ops entries =
     (case BuildRemapMaps entries of
        Inl e \<Rightarrow> (\<lambda>s. (Inl e, s, []))
      | Inr m \<Rightarrow> seq (reconcileMap ops IngressMap (rm_Ingress m)) (reconcileMap ops EgressMap (rm_Egress m)))"

section \<open>Translation of addresses\<close>

text \<open>The 1:1 translation of NETMAP: the prefix of the target, the host bits of the
  address.\<close>

definition netmap_word :: "32 word \<Rightarrow> nat \<Rightarrow> 32 word \<Rightarrow> 32 word" where
  "netmap_word base m a = (base AND cidr_mask m) OR (a AND NOT (cidr_mask m))"

definition netmap :: "string \<Rightarrow> 32 word \<Rightarrow> 32 word" where
  "netmap c a = (case parse_net c of
      Some n \<Rightarrow> (case net_IP n of IP4 base \<Rightarrow> netmap_word base (mask_ones (net_Mask n)) a | _ \<Rightarrow> a)
    | None \<Rightarrow> a)"

text \<open>The iptables data plane: the destination of a packet after the PREROUTING chain,
  the source after the POSTROUTING chain.\<close>

definition addressed :: "32 word \<Rightarrow> 32 word \<Rightarrow> natpacket" where
  "addressed src dst = \<lparr>np_src = IP4 src, np_dst = IP4 dst, np_proto = ''tcp'', np_dport = 0\<rparr>"

definition netmap_result :: "(string \<times> string list) option \<Rightarrow> 32 word \<Rightarrow> 32 word" where
  "netmap_result r a = (case r of Some (t, [_, to]) \<Rightarrow> if t = ''NETMAP'' then netmap to a else a | _ \<Rightarrow> a)"

definition iptables_dst :: "NatRule list \<Rightarrow> 32 word \<Rightarrow> 32 word" where
  "iptables_dst rules a = netmap_result (nat_fate rules (\<lambda>_. True) (addressed 0 a) RemapPreChain) a"

definition iptables_src :: "NatRule list \<Rightarrow> 32 word \<Rightarrow> 32 word" where
  "iptables_src rules a = netmap_result (nat_fate rules (\<lambda>_. True) (addressed a 0) RemapPostChain) a"

text \<open>The eBPF data plane: longest-prefix match in a trie map.\<close>

definition lpm_match :: "TrieKey \<Rightarrow> 32 word \<Rightarrow> bool" where
  "lpm_match k a \<longleftrightarrow> drop_bit (32 - tk_PrefixLen k) (tk_Addr k) = drop_bit (32 - tk_PrefixLen k) a"

fun lpm_lookup :: "MapEntry list \<Rightarrow> 32 word \<Rightarrow> MapEntry option" where
  "lpm_lookup [] a = None"
| "lpm_lookup (e # es) a = (case lpm_lookup es a of
      None \<Rightarrow> if lpm_match (me_Key e) a then Some e else None
    | Some f \<Rightarrow> if lpm_match (me_Key e) a \<and> tk_PrefixLen (me_Key f) < tk_PrefixLen (me_Key e) then Some e else Some f)"

definition lpm_rewrite :: "MapEntry list \<Rightarrow> 32 word \<Rightarrow> 32 word" where
  "lpm_rewrite m a = (case lpm_lookup m a of
      None \<Rightarrow> a | Some e \<Rightarrow> netmap_word (rw_Base (me_Val e)) (rw_PrefixLen (me_Val e)) a)"

text \<open>Entries for which a stateless translation is meaningful: IPv4 ranges of equal
  size, different entries having disjoint real and disjoint virtual ranges.\<close>

definition v4_range :: "string \<Rightarrow> 32 word \<Rightarrow> nat \<Rightarrow> bool" where
  "v4_range c b m \<longleftrightarrow> parse_net c = Some \<lparr>net_IP = IP4 b, net_Mask = CIDRMask m 32\<rparr>"

definition remap_ok :: "RemapEntry list \<Rightarrow> bool" where
  "remap_ok entries \<longleftrightarrow>
     (\<forall>e\<in>set entries. \<exists>r v m. v4_range (re_Real e) r m \<and> v4_range (re_Virtual e) v m) \<and>
     (\<forall>e\<in>set entries. \<forall>e'\<in>set entries. \<forall>a. ip_matches (re_Real e) (IP4 a) \<longrightarrow> ip_matches (re_Real e') (IP4 a) \<longrightarrow> e = e') \<and>
     (\<forall>e\<in>set entries. \<forall>e'\<in>set entries. \<forall>a. ip_matches (re_Virtual e) (IP4 a) \<longrightarrow> ip_matches (re_Virtual e') (IP4 a) \<longrightarrow> e = e')"

lemma v4_range_matches: "v4_range c b m \<Longrightarrow> ip_matches c (IP4 a) \<longleftrightarrow> drop_bit (32 - m) b = drop_bit (32 - m) a"
  by (simp add: ip_matches_def v4_range_def Contains_NN4 [OF networkNumber_ip4])

lemma v4_range_netmap: "v4_range c b m \<Longrightarrow> netmap c a = netmap_word b m a"
  by (simp add: netmap_def v4_range_def)

lemma v4_range_not_Nil: "v4_range c b m \<Longrightarrow> c \<noteq> ''''"
  by (auto simp: v4_range_def parse_net_def ParseCIDR_def cut_def)

lemma v4_range_ones: "v4_range c b m \<Longrightarrow> m \<le> 32 \<and> b AND cidr_mask m = b"
  using parse_net_wf [of c] by (auto simp: v4_range_def wf_net_def)

lemma netmap_word_prefix: "drop_bit (32 - m) (netmap_word b m a) = drop_bit (32 - m) b"
  by (rule bit_word_eqI) (auto simp: netmap_word_def cidr_mask_def bit_simps dest: bit_imp_le_length)

lemma netmap_word_twice: "netmap_word c m (netmap_word b m a) = netmap_word c m a"
  by (rule bit_word_eqI) (auto simp: netmap_word_def bit_simps)

lemma netmap_word_self:
  assumes "drop_bit (32 - m) b = drop_bit (32 - m) a"
  shows "netmap_word b m a = a"
proof -
  have "b AND cidr_mask m = a AND cidr_mask m" using assms and_cidr_mask_eq_iff [of b m a] by simp
  then have "netmap_word b m a = (a AND cidr_mask m) OR (a AND NOT (cidr_mask m))" by (simp add: netmap_word_def)
  also have "\<dots> = a" by (rule bit_word_eqI) (auto simp: bit_simps)
  finally show ?thesis .
qed

text \<open>The specification both data planes are measured against.\<close>

definition translate :: "(RemapEntry \<Rightarrow> string) \<Rightarrow> (RemapEntry \<Rightarrow> string) \<Rightarrow> RemapEntry list \<Rightarrow> 32 word \<Rightarrow> 32 word" where
  "translate src dst entries a =
     (case find (\<lambda>e. ip_matches (src e) (IP4 a)) entries of None \<Rightarrow> a | Some e \<Rightarrow> netmap (dst e) a)"

lemma find_only:
  assumes "x \<in> set xs" "P x" "\<And>y. y \<in> set xs \<Longrightarrow> P y \<Longrightarrow> y = x"
  shows "find P xs = Some x"
  using assms
proof (induction xs)
  case (Cons y ys)
  show ?case
  proof (cases "P y")
    case True
    then show ?thesis using Cons.prems(3) [of y] by simp
  next
    case False
    then have "x \<in> set ys" using Cons.prems(1,2) by auto
    moreover have "z = x" if "z \<in> set ys" "P z" for z by (rule Cons.prems(3)) (simp_all add: that)
    ultimately have "find P ys = Some x" by (rule Cons.IH [OF _ Cons.prems(2)])
    then show ?thesis using False by simp
  qed
qed simp

lemma find_cong_set:
  assumes "set xs = set ys" "\<And>x y. x \<in> set xs \<Longrightarrow> y \<in> set xs \<Longrightarrow> P x \<Longrightarrow> P y \<Longrightarrow> x = y"
  shows "find P xs = find P ys"
proof (cases "\<exists>x\<in>set xs. P x")
  case True
  then obtain x where x: "x \<in> set xs" "P x" by blast
  have u: "y = x" if "y \<in> set xs" "P y" for y using assms(2) [OF that(1) x(1) that(2) x(2)] .
  have "find P xs = Some x" using x u by (rule find_only)
  moreover have "find P ys = Some x" using x u unfolding assms(1) by (rule find_only)
  ultimately show ?thesis by simp
next
  case False
  then have "find P xs = None" "find P ys = None" using assms(1) by (auto simp: find_None_iff)
  then show ?thesis by simp
qed

definition uniq_entries :: "RemapEntry list \<Rightarrow> RemapEntry list" where
  "uniq_entries entries = sort_key (\<lambda>e. (re_Virtual e, re_Real e))
     (dedup_first (filter (\<lambda>e. \<not> (re_Real e = '''' \<or> re_Virtual e = '''')) entries))"

lemma remap_chains:
  "chain_of (BuildRemapRules entries) RemapPreChain =
     map (\<lambda>e. [''-d'', re_Virtual e, ''-j'', ''NETMAP'', ''--to'', re_Real e]) (uniq_entries entries)"
  "chain_of (BuildRemapRules entries) RemapPostChain =
     map (\<lambda>e. [''-s'', re_Real e, ''-j'', ''NETMAP'', ''--to'', re_Virtual e]) (uniq_entries entries)"
  by (simp_all add: chain_of_def BuildRemapRules_def Let_def uniq_entries_def RemapPreChain_def RemapPostChain_def
      filter_map comp_def filter_empty_conv)

lemma netmap_walk:
  "nat_walk d ch coin p (map (\<lambda>e. [''-d'', f e, ''-j'', ''NETMAP'', ''--to'', g e]) xs) =
     map_option (\<lambda>e. (''NETMAP'', [''--to'', g e])) (find (\<lambda>e. ip_matches (f e) (np_dst p)) xs)"
  "nat_walk d ch coin p (map (\<lambda>e. [''-s'', f e, ''-j'', ''NETMAP'', ''--to'', g e]) xs) =
     map_option (\<lambda>e. (''NETMAP'', [''--to'', g e])) (find (\<lambda>e. ip_matches (f e) (np_src p)) xs)"
  by (induction xs) (simp_all add: terminal_def)

lemma remap_ok_unique:
  assumes "remap_ok entries" "e \<in> set entries" "e' \<in> set entries"
  shows "ip_matches (re_Real e) (IP4 a) \<Longrightarrow> ip_matches (re_Real e') (IP4 a) \<Longrightarrow> e = e'"
    "ip_matches (re_Virtual e) (IP4 a) \<Longrightarrow> ip_matches (re_Virtual e') (IP4 a) \<Longrightarrow> e = e'"
  using assms unfolding remap_ok_def by metis+

lemma remap_ok_ranges:
  assumes "remap_ok entries" "e \<in> set entries"
  obtains r v m where "v4_range (re_Real e) r m" "v4_range (re_Virtual e) v m"
  using assms unfolding remap_ok_def by metis

lemma set_uniq_entries: "remap_ok entries \<Longrightarrow> set (uniq_entries entries) = set entries"
proof -
  assume ok: "remap_ok entries"
  have "re_Real e \<noteq> '''' \<and> re_Virtual e \<noteq> ''''" if "e \<in> set entries" for e
    using remap_ok_ranges [OF ok that] v4_range_not_Nil by metis
  then show ?thesis by (auto simp: uniq_entries_def)
qed

lemma iptables_translate:
  assumes "remap_ok entries"
  shows "iptables_dst (BuildRemapRules entries) a = translate re_Virtual re_Real entries a"
    "iptables_src (BuildRemapRules entries) a = translate re_Real re_Virtual entries a"
proof -
  have "find (\<lambda>e. ip_matches (re_Virtual e) (IP4 a)) (uniq_entries entries) = find (\<lambda>e. ip_matches (re_Virtual e) (IP4 a)) entries"
    "find (\<lambda>e. ip_matches (re_Real e) (IP4 a)) (uniq_entries entries) = find (\<lambda>e. ip_matches (re_Real e) (IP4 a)) entries"
    by (intro find_cong_set, simp add: set_uniq_entries [OF assms],
        use remap_ok_unique [OF assms] set_uniq_entries [OF assms] in blast)+
  then show "iptables_dst (BuildRemapRules entries) a = translate re_Virtual re_Real entries a"
    "iptables_src (BuildRemapRules entries) a = translate re_Real re_Virtual entries a"
    by (simp_all add: iptables_dst_def iptables_src_def nat_fate_def remap_chains netmap_walk netmap_result_def
        translate_def addressed_def split: option.splits)
qed

text \<open>The entries of the trie maps.\<close>

definition range_key :: "string \<Rightarrow> TrieKey" where
  "range_key c = (case parse_net c of
      Some n \<Rightarrow> (case net_IP n of IP4 b \<Rightarrow> \<lparr>tk_PrefixLen = mask_ones (net_Mask n), tk_Addr = b\<rparr>
                 | _ \<Rightarrow> \<lparr>tk_PrefixLen = 0, tk_Addr = 0\<rparr>)
    | None \<Rightarrow> \<lparr>tk_PrefixLen = 0, tk_Addr = 0\<rparr>)"

definition trie_entry :: "(RemapEntry \<Rightarrow> string) \<Rightarrow> (RemapEntry \<Rightarrow> string) \<Rightarrow> RemapEntry \<Rightarrow> MapEntry" where
  "trie_entry f g e = \<lparr>me_Key = range_key (f e),
     me_Val = \<lparr>rw_Base = tk_Addr (range_key (g e)), rw_PrefixLen = tk_PrefixLen (range_key (g e))\<rparr>,
     me_KeyCIDR = string_of_net (the (parse_net (f e))), me_ValCIDR = string_of_net (the (parse_net (g e)))\<rparr>"

lemma v4_range_key: "v4_range c b m \<Longrightarrow> range_key c = \<lparr>tk_PrefixLen = m, tk_Addr = b\<rparr>"
  by (simp add: range_key_def v4_range_def)

lemma v4_range_parse:
  assumes "v4_range c b m"
  shows "parseV4Prefix c = Inr (range_key c, string_of_net (the (parse_net c)))"
proof -
  obtain x where x: "ParseCIDR c = Inr (x, \<lparr>net_IP = IP4 b, net_Mask = CIDRMask m 32\<rparr>)"
    using assms by (auto simp: v4_range_def parse_net_ParseCIDR)
  then have "\<exists>y. x = IP16 (v4_in_v6 y)"
    by (auto simp: ParseCIDR_def split: option.splits netip_addr.splits if_splits prod.splits)
  then show ?thesis using x assms by (auto simp: parseV4Prefix_def v4_range_key v4_range_def)
qed

lemma remap_maps_loop_ok:
  assumes "\<And>e. e \<in> set es \<Longrightarrow> \<exists>r v m. v4_range (re_Real e) r m \<and> v4_range (re_Virtual e) v m"
  shows "remap_maps_loop es seen out = Inr \<lparr>rm_Ingress = rm_Ingress out @ map (trie_entry re_Virtual re_Real) (dedup_from seen es),
     rm_Egress = rm_Egress out @ map (trie_entry re_Real re_Virtual) (dedup_from seen es)\<rparr>"
  using assms
proof (induction es arbitrary: seen out)
  case (Cons e es)
  then obtain r v m where rv: "v4_range (re_Real e) r m" "v4_range (re_Virtual e) v m" by (meson list.set_intros(1))
  have "remap_entry e out = Inr \<lparr>rm_Ingress = rm_Ingress out @ [trie_entry re_Virtual re_Real e],
      rm_Egress = rm_Egress out @ [trie_entry re_Real re_Virtual e]\<rparr>"
    using rv [THEN v4_range_key] by (simp add: remap_entry_def wrap_result_def v4_range_parse [OF rv(1)] v4_range_parse [OF rv(2)] trie_entry_def)
  then show ?case using Cons rv [THEN v4_range_not_Nil] by simp
qed simp

lemma BuildRemapMaps_ok:
  assumes "remap_ok entries"
  shows "BuildRemapMaps entries = Inr
    \<lparr>rm_Ingress = sortEntries (map (trie_entry re_Virtual re_Real) (dedup_first entries)),
     rm_Egress = sortEntries (map (trie_entry re_Real re_Virtual) (dedup_first entries))\<rparr>"
  using assms by (simp add: BuildRemapMaps_def remap_maps_loop_ok remap_ok_def dedup_first_def)

lemma lpm_lookup_in: "lpm_lookup es a = Some e \<Longrightarrow> e \<in> set es \<and> lpm_match (me_Key e) a"
  by (induction es arbitrary: e) (auto split: option.splits if_splits)

lemma lpm_lookup_None: "lpm_lookup es a = None \<longleftrightarrow> (\<forall>e\<in>set es. \<not> lpm_match (me_Key e) a)"
  by (induction es) (auto split: option.splits if_splits)

lemma lpm_translate:
  assumes ranges: "\<And>e. e \<in> set entries \<Longrightarrow> \<exists>b c m. v4_range (f e) b m \<and> v4_range (g e) c m"
    and unique: "\<And>e e'. e \<in> set entries \<Longrightarrow> e' \<in> set entries \<Longrightarrow> ip_matches (f e) (IP4 a) \<Longrightarrow> ip_matches (f e') (IP4 a) \<Longrightarrow> e = e'"
  shows "lpm_rewrite (sortEntries (map (trie_entry f g) (dedup_first entries))) a = translate f g entries a"
proof -
  let ?m = "sortEntries (map (trie_entry f g) (dedup_first entries))"
  have set_m: "set ?m = trie_entry f g ` set entries" by (simp add: sortEntries_def)
  have key: "lpm_match (me_Key (trie_entry f g e)) a \<longleftrightarrow> ip_matches (f e) (IP4 a)"
    "rw_PrefixLen (me_Val (trie_entry f g e)) = tk_PrefixLen (range_key (g e))"
    "netmap_word (tk_Addr (range_key (g e))) (tk_PrefixLen (range_key (g e))) a = netmap (g e) a"
    if "e \<in> set entries" for e
    using ranges [OF that] by (auto simp: trie_entry_def lpm_match_def v4_range_key v4_range_matches v4_range_netmap)
  show ?thesis
  proof (cases "lpm_lookup ?m a")
    case None
    then have "\<forall>e\<in>set entries. \<not> ip_matches (f e) (IP4 a)" using key(1) by (auto simp: lpm_lookup_None set_m)
    then have "find (\<lambda>e. ip_matches (f e) (IP4 a)) entries = None" by (simp add: find_None_iff)
    then show ?thesis using None by (simp add: lpm_rewrite_def translate_def)
  next
    case (Some x)
    then obtain e where e: "e \<in> set entries" "x = trie_entry f g e" "ip_matches (f e) (IP4 a)"
      using lpm_lookup_in [OF Some] key(1) by (auto simp: set_m)
    then have "find (\<lambda>e. ip_matches (f e) (IP4 a)) entries = Some e" by (intro find_only) (use unique in blast)+
    then show ?thesis using Some e(2) key(2,3) [OF e(1)] by (simp add: lpm_rewrite_def translate_def trie_entry_def)
  qed
qed


lemma translate_there_and_back:
  assumes e: "e \<in> set entries" and ranges: "v4_range (f e) b m" "v4_range (g e) c m" and a: "ip_matches (f e) (IP4 a)"
    and f_unique: "\<And>e'. e' \<in> set entries \<Longrightarrow> ip_matches (f e') (IP4 a) \<Longrightarrow> e' = e"
    and g_unique: "\<And>e' w. e' \<in> set entries \<Longrightarrow> ip_matches (g e) (IP4 w) \<Longrightarrow> ip_matches (g e') (IP4 w) \<Longrightarrow> e' = e"
  shows "ip_matches (g e) (IP4 (translate f g entries a)) \<and> translate g f entries (translate f g entries a) = a"
proof -
  have "find (\<lambda>e. ip_matches (f e) (IP4 a)) entries = Some e" using e a f_unique by (rule find_only)
  then have there: "translate f g entries a = netmap_word c m a" by (simp add: translate_def v4_range_netmap [OF ranges(2)])
  have hit: "ip_matches (g e) (IP4 (netmap_word c m a))" by (simp add: v4_range_matches [OF ranges(2)] netmap_word_prefix)
  then have "find (\<lambda>e. ip_matches (g e) (IP4 (netmap_word c m a))) entries = Some e"
    using e g_unique by (intro find_only) blast+
  then have "translate g f entries (netmap_word c m a) = netmap_word b m (netmap_word c m a)"
    by (simp add: translate_def v4_range_netmap [OF ranges(1)])
  also have "\<dots> = a"
    using a by (simp add: netmap_word_twice netmap_word_self v4_range_matches [OF ranges(1)])
  finally show ?thesis using there hit by simp
qed


definition example_entries :: "RemapEntry list" where
  "example_entries = [\<lparr>re_Real = ''10.0.0.0/16'', re_Virtual = ''100.65.0.0/16''\<rparr>,
     \<lparr>re_Real = ''10.96.0.0/20'', re_Virtual = ''100.64.16.0/20''\<rparr>]"

lemma example_ranges:
  "v4_range ''10.0.0.0/16'' 0x0A000000 16" "v4_range ''100.65.0.0/16'' 0x64410000 16"
  "v4_range ''10.96.0.0/20'' 0x0A600000 20" "v4_range ''100.64.16.0/20'' 0x64401000 20"
  by (simp_all add: v4_range_def go_eval)

lemma example_remap_ok: "remap_ok example_entries"
proof -
  have "drop_bit 12 a = w \<Longrightarrow> drop_bit 16 a = drop_bit 4 w" for a w :: "32 word" by auto
  from this [of _ "0xA600"] this [of _ "0x64401"]
  have n: "drop_bit 16 a = 0xA00 \<Longrightarrow> drop_bit 12 a \<noteq> 0xA600" "drop_bit 16 a = 0x6441 \<Longrightarrow> drop_bit 12 a \<noteq> 0x64401"
    for a :: "32 word" by auto
  show ?thesis
    using example_ranges n [THEN not_sym] by (auto simp: remap_ok_def example_entries_def v4_range_matches)
qed



section \<open>Convergence of the kernel maps\<close>

type_synonym trie_maps = "MapID \<Rightarrow> TrieKey \<rightharpoonup> Rewrite"

text \<open>The documented contract of \<^verbatim>\<open>MapOps\<close>.\<close>

locale map_ops =
  fixes ops :: "'s MapOps" and view :: "'s \<Rightarrow> trie_maps"
  assumes List_law: "query_law view (mo_List ops i) (\<lambda>l M. map_of l = M i)"
    and Update_law: "command_law view (mo_Update ops i k v) (\<lambda>M M'. M' = M(i := (M i)(k \<mapsto> v)))"
    and Delete_law: "command_law view (mo_Delete ops i k) (\<lambda>M M'. M' = M(i := (M i)(k := None)))"

definition want :: "MapEntry list \<Rightarrow> TrieKey \<rightharpoonup> Rewrite" where
  "want desired = map_of (map (\<lambda>e. (me_Key e, me_Val e)) desired)"

text \<open>A map on its way from \<^verbatim>\<open>old\<close> to \<^verbatim>\<open>new\<close>, the keys of \<^verbatim>\<open>ks\<close> being done.\<close>

definition moved :: "trie_maps \<Rightarrow> MapID \<Rightarrow> (TrieKey \<rightharpoonup> Rewrite) \<Rightarrow> TrieKey set \<Rightarrow> trie_maps" where
  "moved M i new ks = M(i := (\<lambda>k. if k \<in> ks then new k else M i k))"

lemma moved_insert: "(moved M i new ks)(i := ((moved M i new ks) i)(k := new k)) = moved M i new (insert k ks)"
  by (auto simp: moved_def fun_eq_iff)

lemma moved_skip: "M i k = new k \<Longrightarrow> moved M i new (insert k ks) = moved M i new ks"
  by (auto simp: moved_def fun_eq_iff)

lemma moved_all: "(\<And>k. k \<notin> ks \<Longrightarrow> M i k = new k) \<Longrightarrow> moved M i new ks = M(i := new)"
  by (auto simp: moved_def fun_eq_iff)

lemma want_None: "k \<notin> me_Key ` set desired \<Longrightarrow> want desired k = None"
  by (auto simp: want_def map_of_eq_None_iff)

lemma want_Some: "distinct (map me_Key desired) \<Longrightarrow> e \<in> set desired \<Longrightarrow> want desired (me_Key e) = Some (me_Val e)"
  unfolding want_def by (rule map_of_is_SomeI) (auto simp: comp_def)

context map_ops
begin

lemma reconcile_moves:
  fixes desired :: "MapEntry list"
  assumes keys: "distinct (map me_Key desired)"
    and S: "\<And>ks. S (moved M0 i (want desired) ks)"
  shows "holds view (\<lambda>M. M = M0) (reconcileMap ops i desired) (\<lambda>_ M. M = M0(i := want desired)) S"
  unfolding reconcileMap_def
proof (rule holds_bind)
  let ?new = "want desired"
  have M0: "moved M0 i ?new {} = M0" by (simp add: moved_def)
  then have "S M0" using S [of "{}"] by simp
  then show "holds view (\<lambda>M. M = M0) (errorf (''ebpf remap: listing '' @ MapID_String i @ '' map'') (call (mo_List ops i)))
      (\<lambda>current M. M = M0 \<and> map_of current = M i) S"
    by (intro holds_errorf holds_query [OF List_law]) simp
  fix current
  let ?upd = "\<lambda>e. if map_of current (me_Key e) = Some (me_Val e) then ret ()
      else errorf (''ebpf remap: updating '' @ MapID_String i @ '' '' @ me_KeyCIDR e @ [CHR 0xE2, CHR 0x86, CHR 0x92] @ me_ValCIDR e)
        (call (mo_Update ops i (me_Key e) (me_Val e)))"
  let ?del = "\<lambda>(key :: TrieKey, _ :: Rewrite). if key \<in> me_Key ` set desired then ret ()
      else errorf (''ebpf remap: deleting stale '' @ MapID_String i @ '' entry'') (call (mo_Delete ops i key))"
  let ?c = "map_of current = M0 i"
  have upd: "holds view (\<lambda>M. ?c \<and> M = moved M0 i ?new (me_Key ` set ([] :: MapEntry list))) (for_each ?upd desired)
      (\<lambda>_ M. ?c \<and> M = moved M0 i ?new (me_Key ` set desired)) S"
  proof (rule holds_for_each [where J = "\<lambda>(es :: MapEntry list) M. ?c \<and> M = moved M0 i ?new (me_Key ` set es)"])
    fix es e rest assume "desired = es @ e # rest"
    then have e: "?new (me_Key e) = Some (me_Val e)" using keys by (intro want_Some) auto
    show "holds view (\<lambda>M. ?c \<and> M = moved M0 i ?new (me_Key ` set es)) (?upd e)
        (\<lambda>_ M. ?c \<and> M = moved M0 i ?new (me_Key ` set (es @ [e]))) S"
    proof (cases "map_of current (me_Key e) = Some (me_Val e)")
      case True
      then show ?thesis using e S by (auto intro!: holds_ret simp: moved_skip)
    next
      case False
      then show ?thesis
        using S e moved_insert [of M0 i ?new "me_Key ` set es" "me_Key e"]
        by (auto intro!: holds_errorf holds_command [OF Update_law])
    qed
  qed (use S in auto)
  have del: "holds view (\<lambda>M. ?c \<and> M = moved M0 i ?new (me_Key ` set desired \<union> fst ` set ([] :: (TrieKey \<times> Rewrite) list))) (for_each ?del current)
      (\<lambda>_ M. ?c \<and> M = moved M0 i ?new (me_Key ` set desired \<union> fst ` set current)) S"
  proof (rule holds_for_each [where J = "\<lambda>(cs :: (TrieKey \<times> Rewrite) list) M. ?c \<and> M = moved M0 i ?new (me_Key ` set desired \<union> fst ` set cs)"])
    fix cs rest :: "(TrieKey \<times> Rewrite) list" and x :: "TrieKey \<times> Rewrite"
    obtain k r where x: "x = (k, r)" by (cases x)
    show "holds view (\<lambda>M. ?c \<and> M = moved M0 i ?new (me_Key ` set desired \<union> fst ` set cs)) (?del x)
        (\<lambda>_ M. ?c \<and> M = moved M0 i ?new (me_Key ` set desired \<union> fst ` set (cs @ [x]))) S"
    proof (cases "k \<in> me_Key ` set desired")
      case True
      then have "insert k (me_Key ` set desired \<union> fst ` set cs) = me_Key ` set desired \<union> fst ` set cs" by blast
      then show ?thesis using True S x by (auto intro!: holds_ret)
    next
      case False
      then show ?thesis
        using S x want_None [OF False] moved_insert [of M0 i ?new "me_Key ` set desired \<union> fst ` set cs" k]
        by (auto intro!: holds_errorf holds_command [OF Delete_law])
    qed
  qed (use S in auto)
  have "moved M0 i ?new (me_Key ` set desired \<union> fst ` set current) = M0(i := ?new)" if ?c
  proof (rule moved_all)
    fix k assume "k \<notin> me_Key ` set desired \<union> fst ` set current"
    then show "M0 i k = ?new k" using that [symmetric] want_None [of k desired] by (simp add: map_of_eq_None_iff)
  qed
  then show "holds view (\<lambda>M. M = M0 \<and> map_of current = M i) (seq (for_each ?upd desired) (for_each ?del current))
      (\<lambda>_ M. M = M0(i := want desired)) S"
    using holds_seq [OF upd [simplified] del [simplified]] M0 by (auto elim: holds_conseq)
qed

end

definition desired_maps :: "RemapMaps \<Rightarrow> trie_maps" where
  "desired_maps m i = want (case i of IngressMap \<Rightarrow> rm_Ingress m | EgressMap \<Rightarrow> rm_Egress m)"

definition underway :: "trie_maps \<Rightarrow> trie_maps \<Rightarrow> trie_maps \<Rightarrow> bool" where
  "underway old new M \<longleftrightarrow> (\<forall>i k. M i k = old i k \<or> M i k = new i k)"

context map_ops
begin

lemma sync_moves:
  assumes "BuildRemapMaps entries = Inr m" "distinct (map me_Key (rm_Ingress m))" "distinct (map me_Key (rm_Egress m))"
  shows "holds view (\<lambda>M. M = M0) (ebpf_SyncRemap ops entries) (\<lambda>_ M. M = desired_maps m) (underway M0 (desired_maps m))"
proof -
  have first: "holds view (\<lambda>M. M = M0) (reconcileMap ops IngressMap (rm_Ingress m))
      (\<lambda>_ M. M = M0(IngressMap := want (rm_Ingress m))) (underway M0 (desired_maps m))"
    by (rule reconcile_moves [OF assms(2)]) (simp add: underway_def moved_def desired_maps_def)
  have second: "holds view (\<lambda>M. M = M0(IngressMap := want (rm_Ingress m))) (reconcileMap ops EgressMap (rm_Egress m))
      (\<lambda>_ M. M = M0(IngressMap := want (rm_Ingress m), EgressMap := want (rm_Egress m))) (underway M0 (desired_maps m))"
    by (rule reconcile_moves [OF assms(3)]) (simp add: underway_def moved_def desired_maps_def)
  have "M0(IngressMap := want (rm_Ingress m), EgressMap := want (rm_Egress m)) = desired_maps m"
    by (rule ext) (simp add: desired_maps_def split: MapID.splits)
  then show ?thesis using holds_seq [OF first second] assms(1) by (simp add: ebpf_SyncRemap_def)
qed

end

text \<open>C22. The eBPF manager converges without a gap: in every state of a sync, failing
  calls included, each key of each kernel map has its old value or its new
  value, so that no entry that is wanted and in place is ever missing or wrong;
  a sync that reports success leaves exactly the desired maps.\<close>

theorem ebpf_SyncRemap_converges:
  assumes "map_ops ops view" "BuildRemapMaps entries = Inr m"
    and "distinct (map me_Key (rm_Ingress m))" "distinct (map me_Key (rm_Egress m))"
    and "ebpf_SyncRemap ops entries s = (r, s', visited)"
  shows "(\<forall>u\<in>set (s' # visited). \<forall>i k. view u i k = view s i k \<or> view u i k = desired_maps m i k) \<and>
    (r = Inr () \<longrightarrow> view s' = desired_maps m)"
proof -
  note phases = holdsD [OF map_ops.sync_moves [OF assms(1-4)], OF refl assms(5)]
  have "underway (view s) (desired_maps m) (view s')"
    using phases(2,3) by (cases r) (auto simp: underway_def)
  then show ?thesis using phases(1,2) by (auto simp: underway_def)
qed

text \<open>Maps in memory, with a schedule of failing calls.\<close>

record bpf_mem =
  bm_maps :: "MapID \<Rightarrow> (TrieKey \<times> Rewrite) list"
  bm_faults :: "bool list"

definition bm_step :: "(bpf_mem \<Rightarrow> bpf_mem) \<Rightarrow> (bpf_mem \<Rightarrow> 'a) \<Rightarrow> bpf_mem \<Rightarrow> 'a result \<times> bpf_mem" where
  "bm_step upd val b =
     (let b' = b\<lparr>bm_faults := tl (bm_faults b)\<rparr>
      in if bm_faults b \<noteq> [] \<and> hd (bm_faults b) then (Inl ''bpf: operation not permitted'', b') else (Inr (val b), upd b'))"

definition mem_ops :: "bpf_mem MapOps" where
  "mem_ops = \<lparr>mo_List = (\<lambda>i. bm_step id (\<lambda>b. bm_maps b i)),
     mo_Update = (\<lambda>i k v. bm_step (\<lambda>b. b\<lparr>bm_maps := (bm_maps b)(i := (k, v) # bm_maps b i)\<rparr>) (\<lambda>_. ())),
     mo_Delete = (\<lambda>i k. bm_step (\<lambda>b. b\<lparr>bm_maps := (bm_maps b)(i := filter (\<lambda>(k', _). k' \<noteq> k) (bm_maps b i))\<rparr>) (\<lambda>_. ()))\<rparr>"

definition mem_view :: "bpf_mem \<Rightarrow> trie_maps" where
  "mem_view b i = map_of (bm_maps b i)"

lemma map_of_drop: "map_of (filter (\<lambda>(k', _). k' \<noteq> k) xs) = (map_of xs)(k := None)"
  by (induction xs) (auto simp: fun_eq_iff)

interpretation mem: map_ops mem_ops mem_view
  by unfold_locales (auto simp: mem_ops_def query_law_def command_law_def bm_step_def mem_view_def Let_def
      fun_eq_iff map_of_drop split: if_splits)

definition bpf_start :: bpf_mem where
  "bpf_start = \<lparr>bm_maps = (\<lambda>_. [(\<lparr>tk_PrefixLen = 8, tk_Addr = 0x0B000000\<rparr>, \<lparr>rw_Base = 0x0C000000, rw_PrefixLen = 8\<rparr>)]), bm_faults = []\<rparr>"

lemma example_maps_keys:
  "distinct (map me_Key (sortEntries (map (trie_entry re_Virtual re_Real) (dedup_first example_entries))))"
  "distinct (map me_Key (sortEntries (map (trie_entry re_Real re_Virtual) (dedup_first example_entries))))"
  by (simp_all add: sortEntries_def example_entries_def dedup_first_def trie_entry_def string_of_net_def go_eval
      example_ranges [THEN v4_range_key])

theorem ebpf_SyncRemap_converges_witness:
  "map_ops mem_ops mem_view \<and> (\<exists>m r s' visited. BuildRemapMaps example_entries = Inr m \<and>
     ebpf_SyncRemap mem_ops example_entries bpf_start = (r, s', visited) \<and>
     (\<forall>u\<in>set (s' # visited). \<forall>i k. mem_view u i k = mem_view bpf_start i k \<or> mem_view u i k = desired_maps m i k))"
proof -
  obtain r s' visited where run: "ebpf_SyncRemap mem_ops example_entries bpf_start = (r, s', visited)"
    by (cases "ebpf_SyncRemap mem_ops example_entries bpf_start") auto
  note ok = BuildRemapMaps_ok [OF example_remap_ok]
  show ?thesis
    using ebpf_SyncRemap_converges [OF mem.map_ops_axioms ok _ _ run] example_maps_keys ok run mem.map_ops_axioms by auto
qed

end
