(* ===== verification/Dns_Plan.thy ===== *)
theory Dns_Plan
  imports Go_Net
begin

text \<open>
  \<^verbatim>\<open>pkg/dns\<close>: the pure planners of service discovery. Names of the
  \<^verbatim>\<open>clusterset.local\<close> zone (\<^verbatim>\<open>naming.go\<close>, \<^verbatim>\<open>resolve.go\<close>), the contribution of one cluster
  (\<^verbatim>\<open>export.go\<close>, \<^verbatim>\<open>endpoints.go\<close>), the aggregation of all contributions into one
  import (\<^verbatim>\<open>aggregate.go\<close>, \<^verbatim>\<open>naming.go\<close>) and the mirrored endpoint slices
  (\<^verbatim>\<open>mirror.go\<close>). The objects of the Kubernetes API are modelled by the fields the
  code reads and writes.
\<close>

section \<open>Data\<close>

type_synonym ServiceImportType = string

definition ClusterSetIP :: ServiceImportType where "ClusterSetIP = ''ClusterSetIP''"
definition Headless :: ServiceImportType where "Headless = ''Headless''"

record ServicePort =
  sp_Name :: string
  sp_Protocol :: string
  sp_AppProtocol :: "string option"
  sp_Port :: int

record ExportedEndpoint =
  ee_Cluster :: string
  ee_Type :: ServiceImportType
  ee_Ports :: "ServicePort list"
  ee_IPs :: "string list"
  ee_ExportTime :: int

record ImportPlan =
  ip_Exists :: bool
  ip_Type :: ServiceImportType
  ip_Ports :: "ServicePort list"
  ip_AggregatedIPs :: "string list"
  ip_Clusters :: "string list"
  ip_Conflicts :: "string list"

definition no_import :: ImportPlan where
  "no_import = \<lparr>ip_Exists = False, ip_Type = '''', ip_Ports = [], ip_AggregatedIPs = [], ip_Clusters = [], ip_Conflicts = []\<rparr>"

definition import_HasConflicts :: "ImportPlan \<Rightarrow> bool" where
  "import_HasConflicts p \<longleftrightarrow> ip_Conflicts p \<noteq> []"

record ServiceKey =
  sk_Namespace :: string
  sk_Name :: string

definition ServiceKey_String :: "ServiceKey \<Rightarrow> string" where
  "ServiceKey_String k = sk_Namespace k @ ''/'' @ sk_Name k"

record ExportedService =
  es_Namespace :: string
  es_Name :: string
  es_Endpoint :: ExportedEndpoint

definition ExportedService_Key :: "ExportedService \<Rightarrow> ServiceKey" where
  "ExportedService_Key e = \<lparr>sk_Namespace = es_Namespace e, sk_Name = es_Name e\<rparr>"

section \<open>Names of the zone\<close>

definition ClusterSetDomain :: string where
  "ClusterSetDomain = ''clusterset.local''"

definition FQDN :: "string \<Rightarrow> string \<Rightarrow> string" where
  "FQDN name namespace = name @ ''.'' @ namespace @ ''.svc.'' @ ClusterSetDomain @ ''.''"

definition clusterSetZoneSuffix :: string where
  "clusterSetZoneSuffix = ''svc.'' @ ClusterSetDomain"

definition normalizeName :: "string \<Rightarrow> string" where
  "normalizeName qname = trim_suffix (to_lower qname) ''.''"

definition InClusterSetZone :: "string \<Rightarrow> bool" where
  "InClusterSetZone qname =
     (let n = normalizeName qname
      in n = clusterSetZoneSuffix \<or> has_suffix n (''.'' @ clusterSetZoneSuffix))"

definition ParseClusterSetName :: "string \<Rightarrow> (string \<times> string) option" where
  "ParseClusterSetName qname =
     (let n = normalizeName qname in
      if \<not> has_suffix n (''.'' @ clusterSetZoneSuffix) then None
      else let prefix = trim_suffix n (''.'' @ clusterSetZoneSuffix) in
        if prefix = '''' then None
        else (case split_on (CHR ''.'') prefix of
            [name, namespace] \<Rightarrow> if name = '''' \<or> namespace = '''' then None else Some (name, namespace)
          | _ \<Rightarrow> None))"

section \<open>Aggregation\<close>

definition protocolOf :: "ServicePort \<Rightarrow> string" where
  "protocolOf p = (if trim_space (sp_Protocol p) = '''' then ''TCP'' else sp_Protocol p)"

definition portKey :: "ServicePort \<Rightarrow> string" where
  "portKey p = itoa_int (sp_Port p) @ ''/'' @ protocolOf p"

definition normalizePort :: "ServicePort \<Rightarrow> ServicePort" where
  "normalizePort p = p\<lparr>sp_Protocol := protocolOf p\<rparr>"

text \<open>The shared maps of the aggregation: the merged ports in the order of their first
  occurrence, and the conflicts.\<close>

record merge_state =
  ms_ports :: "(string \<times> ServicePort) list"
  ms_conflicts :: "string list"

definition port_conflict :: "string \<Rightarrow> ServicePort \<Rightarrow> ServicePort \<Rightarrow> string" where
  "port_conflict cluster port existing = ''cluster '' @ quote cluster @ '': port '' @ itoa_int (sp_Port port) @ ''/'' @
     protocolOf port @ '' name '' @ quote (sp_Name port) @ '' conflicts with '' @ quote (sp_Name existing)"

definition merge_port :: "string \<Rightarrow> ServicePort \<Rightarrow> merge_state \<Rightarrow> merge_state" where
  "merge_port cluster port m = (case map_of (ms_ports m) (portKey port) of
      Some existing \<Rightarrow>
        if sp_Name existing \<noteq> sp_Name port
        then m\<lparr>ms_conflicts := ms_conflicts m @ [port_conflict cluster port existing]\<rparr> else m
    | None \<Rightarrow> m\<lparr>ms_ports := ms_ports m @ [(portKey port, normalizePort port)]\<rparr>)"

definition mergePorts :: "ExportedEndpoint \<Rightarrow> merge_state \<Rightarrow> merge_state" where
  "mergePorts e m = fold (merge_port (ee_Cluster e)) (ee_Ports e) m"

definition dns_sortedPorts :: "(string \<times> ServicePort) list \<Rightarrow> ServicePort list" where
  "dns_sortedPorts ports = sort_key (\<lambda>p. (sp_Port p, protocolOf p)) (map snd ports)"

definition sortedIPs :: "string list \<Rightarrow> string list" where
  "sortedIPs ips = sorted_set ips"

definition type_conflict :: "ServiceImportType \<Rightarrow> ExportedEndpoint \<Rightarrow> string" where
  "type_conflict ty e = ''cluster '' @ quote (ee_Cluster e) @ '': type '' @ quote (ee_Type e) @
     '' conflicts with resolved type '' @ quote ty"

fun import_loop :: "ServiceImportType \<Rightarrow> ExportedEndpoint list \<Rightarrow> string list \<Rightarrow> string list \<Rightarrow> merge_state \<Rightarrow>
    string list \<times> string list \<times> merge_state" where
  "import_loop ty [] clusters ips m = (clusters, ips, m)"
| "import_loop ty (e # es) clusters ips m =
     (if ee_Type e \<noteq> ty
      then import_loop ty es clusters ips (m\<lparr>ms_conflicts := ms_conflicts m @ [type_conflict ty e]\<rparr>)
      else import_loop ty es (clusters @ [ee_Cluster e]) (ips @ ee_IPs e) (mergePorts e m))"

definition export_order :: "ExportedEndpoint \<Rightarrow> int \<times> string" where
  "export_order e = (ee_ExportTime e, ee_Cluster e)"

definition PlanServiceImport :: "ExportedEndpoint list \<Rightarrow> ImportPlan" where
  "PlanServiceImport exports = (case sort_key export_order exports of
      [] \<Rightarrow> no_import
    | w # rest \<Rightarrow>
        (case import_loop (ee_Type w) (w # rest) [] [] \<lparr>ms_ports = [], ms_conflicts = []\<rparr> of
           (clusters, ips, m) \<Rightarrow>
             \<lparr>ip_Exists = True, ip_Type = ee_Type w, ip_Ports = dns_sortedPorts (ms_ports m),
              ip_AggregatedIPs = sortedIPs ips, ip_Clusters = clusters, ip_Conflicts = ms_conflicts m\<rparr>))"

text \<open>A Go map from keys to the endpoints appended under them, as a function.\<close>

definition group_of :: "ExportedService list \<Rightarrow> ServiceKey \<Rightarrow> ExportedEndpoint list" where
  "group_of exports k = map es_Endpoint (filter (\<lambda>e. ExportedService_Key e = k) exports)"

definition GroupExports :: "ExportedService list \<Rightarrow> (ServiceKey \<Rightarrow> ExportedEndpoint list) \<times> ServiceKey list" where
  "GroupExports exports =
     (\<lambda>k. sort_key ee_Cluster (group_of exports k),
      sort_key ServiceKey_String (remdups (map ExportedService_Key exports)))"

definition SortServiceKeys :: "ServiceKey list \<Rightarrow> ServiceKey list" where
  "SortServiceKeys keys = sort_key ServiceKey_String keys"

section \<open>The contribution of one cluster\<close>

record Endpoint =
  ep_Addresses :: "string list"
  ep_Ready :: "bool option"
  ep_Terminating :: "bool option"

definition endpointServing :: "Endpoint \<Rightarrow> bool" where
  "endpointServing ep \<longleftrightarrow> \<not> (ep_Ready ep = Some False) \<and> \<not> (ep_Terminating ep = Some True)"

definition ReadyEndpointIPs :: "Endpoint list list \<Rightarrow> string list" where
  "ReadyEndpointIPs slices =
     sorted_set (filter (\<lambda>a. a \<noteq> '''') (concat (map ep_Addresses (filter endpointServing (concat slices)))))"

record CoreServicePort =
  csp_Name :: string
  csp_Protocol :: string
  csp_AppProtocol :: "string option"
  csp_Port :: int

record CoreService =
  cs_ClusterIP :: string
  cs_ClusterIPs :: "string list"
  cs_Ports :: "CoreServicePort list"

definition ClusterIPNone :: string where "ClusterIPNone = ''None''"

definition ServiceIsHeadless :: "CoreService \<Rightarrow> bool" where
  "ServiceIsHeadless svc \<longleftrightarrow> cs_ClusterIP svc = ClusterIPNone"

definition clusterIPs :: "CoreService \<Rightarrow> string list" where
  "clusterIPs svc =
     (let candidates = (if cs_ClusterIPs svc = [] \<and> cs_ClusterIP svc \<noteq> '''' then [cs_ClusterIP svc] else cs_ClusterIPs svc)
      in filter (\<lambda>ip. \<not> (ip = '''' \<or> ip = ClusterIPNone)) candidates)"

definition BuildExportedEndpoint :: "string \<Rightarrow> CoreService \<Rightarrow> ExportedEndpoint" where
  "BuildExportedEndpoint clusterID svc =
     \<lparr>ee_Cluster = clusterID,
      ee_Type = (if ServiceIsHeadless svc then Headless else ClusterSetIP),
      ee_Ports = map (\<lambda>p. \<lparr>sp_Name = csp_Name p, sp_Protocol = csp_Protocol p, sp_AppProtocol = csp_AppProtocol p, sp_Port = csp_Port p\<rparr>) (cs_Ports svc),
      ee_IPs = (if ServiceIsHeadless svc then [] else clusterIPs svc),
      ee_ExportTime = 0\<rparr>"

section \<open>Mirrored endpoint slices\<close>

datatype AddressType = AddressTypeIPv4 | AddressTypeIPv6

record EndpointPort =
  mp_Name :: "string option"
  mp_Protocol :: string
  mp_AppProtocol :: "string option"
  mp_Port :: int

record EndpointSlice =
  sl_Name :: string
  sl_Namespace :: string
  sl_Labels :: "(string \<times> string) list"
  sl_AddressType :: AddressType
  sl_Endpoints :: "Endpoint list"
  sl_Ports :: "EndpointPort list"

definition MirrorManagedBy :: string where "MirrorManagedBy = ''datawerx-mesh.networking.datawerx.io''"
definition maxEndpointsPerSlice :: nat where "maxEndpointsPerSlice = 100"
definition LabelServiceName :: string where "LabelServiceName = ''multicluster.kubernetes.io/service-name''"
definition LabelSourceCluster :: string where "LabelSourceCluster = ''multicluster.kubernetes.io/source-cluster''"
definition LabelManagedBy :: string where "LabelManagedBy = ''endpointslice.kubernetes.io/managed-by''"

definition mirrorSliceName :: "string \<Rightarrow> string \<Rightarrow> AddressType \<Rightarrow> nat \<Rightarrow> string" where
  "mirrorSliceName importName cluster fam chunk =
     (let famShort = (if fam = AddressTypeIPv6 then ''ipv6'' else ''ipv4'');
          full = importName @ ''-'' @ cluster @ ''-'' @ famShort @ ''-'' @ itoa chunk
      in if length full \<le> 253 then full
         else let suffix = ''-'' @ hex_of_bytes (take 8 (sha256 full)) in take (253 - length suffix) full @ suffix)"

definition mirrorPorts :: "ServicePort list \<Rightarrow> EndpointPort list" where
  "mirrorPorts ports = map (\<lambda>p.
     \<lparr>mp_Name = (if sp_Name p = '''' then None else Some (sp_Name p)),
      mp_Protocol = (if sp_Protocol p = '''' then ''TCP'' else sp_Protocol p),
      mp_AppProtocol = sp_AppProtocol p, mp_Port = sp_Port p\<rparr>) ports"

definition of_family :: "AddressType \<Rightarrow> string \<Rightarrow> bool" where
  "of_family fam ip = (case ParseIP ip of
      None \<Rightarrow> False
    | Some a \<Rightarrow> (fam = AddressTypeIPv4) = (To4 a \<noteq> None))"

definition addressesOfFamily :: "string list \<Rightarrow> AddressType \<Rightarrow> string list" where
  "addressesOfFamily ips fam = sorted_set (filter (of_family fam) ips)"

definition mirrorSlice :: "string \<Rightarrow> string \<Rightarrow> string \<Rightarrow> AddressType \<Rightarrow> string list \<Rightarrow> EndpointPort list \<Rightarrow> nat \<Rightarrow> EndpointSlice" where
  "mirrorSlice importName namespace cluster fam addrs ports chunk =
     \<lparr>sl_Name = mirrorSliceName importName cluster fam chunk, sl_Namespace = namespace,
      sl_Labels = [(LabelServiceName, importName), (LabelSourceCluster, cluster), (LabelManagedBy, MirrorManagedBy)],
      sl_AddressType = fam,
      sl_Endpoints = map (\<lambda>a. \<lparr>ep_Addresses = [a], ep_Ready = Some True, ep_Terminating = None\<rparr>) addrs,
      sl_Ports = ports\<rparr>"

function mirror_chunks :: "(string list \<Rightarrow> nat \<Rightarrow> EndpointSlice) \<Rightarrow> string list \<Rightarrow> nat \<Rightarrow> EndpointSlice list" where
  "mirror_chunks f addrs chunk =
     (if chunk < length addrs
      then f (drop chunk (take (min (chunk + maxEndpointsPerSlice) (length addrs)) addrs)) (chunk div maxEndpointsPerSlice)
             # mirror_chunks f addrs (chunk + maxEndpointsPerSlice)
      else [])"
  by pat_completeness auto
termination
  by (relation "measure (\<lambda>(f, addrs, chunk). length addrs - chunk)") (auto simp: maxEndpointsPerSlice_def)

declare mirror_chunks.simps [simp del]

definition PlanEndpointSlices :: "string \<Rightarrow> string \<Rightarrow> ExportedEndpoint list \<Rightarrow> EndpointSlice list" where
  "PlanEndpointSlices importName namespace endpoints =
     sort_key sl_Name (concat (map (\<lambda>ep.
       concat (map (\<lambda>fam. mirror_chunks (\<lambda>addrs n. mirrorSlice importName namespace (ee_Cluster ep) fam addrs (mirrorPorts (ee_Ports ep)) n)
                            (addressesOfFamily (ee_IPs ep) fam) 0)
         [AddressTypeIPv4, AddressTypeIPv6])) (sort_key ee_Cluster endpoints)))"

section \<open>Aggregation is exact\<close>

definition contributing :: "ServiceImportType \<Rightarrow> ExportedEndpoint list \<Rightarrow> ExportedEndpoint list" where
  "contributing ty es = filter (\<lambda>e. ee_Type e = ty) es"

definition offered :: "ExportedEndpoint list \<Rightarrow> ServicePort list" where
  "offered es = concat (map ee_Ports es)"

definition name_clash :: "ServicePort list \<Rightarrow> bool" where
  "name_clash ps \<longleftrightarrow> (\<exists>p\<in>set ps. \<exists>q\<in>set ps. portKey p = portKey q \<and> sp_Name p \<noteq> sp_Name q)"

lemma protocolOf_normalizePort [simp]: "protocolOf (normalizePort p) = protocolOf p"
proof -
  have "trim_space ''TCP'' \<noteq> ''''" by (simp add: go_eval)
  then show ?thesis by (simp add: normalizePort_def protocolOf_def)
qed

lemma normalizePort_fields [simp]:
  "sp_Name (normalizePort p) = sp_Name p" "sp_Port (normalizePort p) = sp_Port p" "portKey (normalizePort p) = portKey p"
  using protocolOf_normalizePort [of p] by (simp_all add: normalizePort_def portKey_def)

definition keyed :: "ServicePort \<Rightarrow> string \<times> ServicePort" where
  "keyed p = (portKey p, normalizePort p)"

definition merged :: "ServicePort list \<Rightarrow> bool \<Rightarrow> merge_state \<Rightarrow> bool" where
  "merged ps other m \<longleftrightarrow> ms_ports m = map keyed (first_by portKey ps) \<and> (ms_conflicts m \<noteq> [] \<longleftrightarrow> other \<or> name_clash ps)"

lemma first_by_lookup:
  "map_of (map keyed (first_by portKey ps)) k = None \<longleftrightarrow> k \<notin> portKey ` set ps"
  "map_of (map keyed (first_by portKey ps)) k = Some x \<Longrightarrow> \<exists>p\<in>set ps. portKey p = k \<and> x = normalizePort p"
proof -
  show "map_of (map keyed (first_by portKey ps)) k = None \<longleftrightarrow> k \<notin> portKey ` set ps"
    unfolding map_of_eq_None_iff set_map image_image by (simp add: keyed_def)
  assume "map_of (map keyed (first_by portKey ps)) k = Some x"
  then have "(k, x) \<in> set (map keyed (first_by portKey ps))" by (rule map_of_SomeD)
  then show "\<exists>p\<in>set ps. portKey p = k \<and> x = normalizePort p"
    using first_by_subset [of portKey ps] by (auto simp: keyed_def)
qed

lemma name_clash_snoc:
  assumes "e \<in> set ps" "portKey e = portKey p"
  shows "name_clash (ps @ [p]) \<longleftrightarrow> name_clash ps \<or> sp_Name e \<noteq> sp_Name p"
proof
  assume "name_clash (ps @ [p])"
  then obtain x y where xy: "x \<in> set (ps @ [p])" "y \<in> set (ps @ [p])" "portKey x = portKey y" "sp_Name x \<noteq> sp_Name y"
    by (auto simp: name_clash_def)
  show "name_clash ps \<or> sp_Name e \<noteq> sp_Name p"
  proof (rule disjCI)
    assume same: "\<not> sp_Name e \<noteq> sp_Name p"
    let ?f = "\<lambda>z. if z \<in> set ps then z else e"
    have "?f x \<in> set ps" "?f y \<in> set ps" "portKey (?f x) = portKey (?f y)" "sp_Name (?f x) \<noteq> sp_Name (?f y)"
      using xy same assms by auto
    then show "name_clash ps" unfolding name_clash_def by blast
  qed
next
  assume "name_clash ps \<or> sp_Name e \<noteq> sp_Name p"
  then show "name_clash (ps @ [p])" using assms unfolding name_clash_def by auto
qed

lemma merge_port_merged:
  assumes "merged ps other m"
  shows "merged (ps @ [p]) other (merge_port c p m)"
proof (cases "map_of (ms_ports m) (portKey p)")
  case None
  then have new: "portKey p \<notin> portKey ` set ps"
    using assms first_by_lookup(1) [of ps "portKey p"] by (simp add: merged_def)
  then have ne: "portKey q = portKey p \<Longrightarrow> q \<notin> set ps" "portKey p = portKey q \<Longrightarrow> q \<notin> set ps" for q by (metis imageI)+
  have "name_clash (ps @ [p]) \<longleftrightarrow> name_clash ps"
    unfolding name_clash_def set_append list.set bex_Un bex_simps using ne by blast
  then show ?thesis using assms None new by (simp add: merged_def merge_port_def first_by_snoc keyed_def)
next
  case (Some x)
  then obtain e where e: "e \<in> set ps" "portKey e = portKey p" "x = normalizePort e"
    using assms first_by_lookup(2) [of ps "portKey p" x] by (auto simp: merged_def)
  then have "portKey p \<in> portKey ` set ps" by (metis imageI)
  then show ?thesis using assms Some e name_clash_snoc [OF e(1,2)]
    by (auto simp: merged_def merge_port_def first_by_snoc)
qed

lemma merge_ports_merged: "merged ps other m \<Longrightarrow> merged (ps @ qs) other (fold (merge_port c) qs m)"
proof (induction qs arbitrary: ps m)
  case (Cons q qs)
  then show ?case using merge_port_merged [of ps other m q c] Cons.IH [of "ps @ [q]"] by simp
qed simp

lemma import_loop_exact:
  assumes "merged ps other m" "import_loop ty es clusters ips m = (clusters', ips', m')"
  shows "clusters' = clusters @ map ee_Cluster (contributing ty es) \<and> ips' = ips @ concat (map ee_IPs (contributing ty es)) \<and>
    merged (ps @ offered (contributing ty es)) (other \<or> (\<exists>e\<in>set es. ee_Type e \<noteq> ty)) m'"
  using assms
proof (induction ty es clusters ips m arbitrary: ps other rule: import_loop.induct)
  case (2 ty e es clusters ips m)
  show ?case
  proof (cases "ee_Type e = ty")
    case True
    have "merged (ps @ ee_Ports e) other (mergePorts e m)" unfolding mergePorts_def by (rule merge_ports_merged [OF "2.prems"(1)])
    from "2.IH"(2) [OF _ this] "2.prems"(2) True show ?thesis by (simp add: contributing_def offered_def)
  next
    case False
    have "merged ps True (m\<lparr>ms_conflicts := ms_conflicts m @ [type_conflict ty e]\<rparr>)" using "2.prems"(1) by (simp add: merged_def)
    from "2.IH"(1) [OF _ this] "2.prems"(2) False show ?thesis by (simp add: contributing_def)
  qed
qed (simp add: contributing_def offered_def)



section \<open>Names\<close>

definition dns_label :: "string \<Rightarrow> bool" where
  "dns_label l \<longleftrightarrow> l \<noteq> '''' \<and> CHR ''.'' \<notin> set l \<and> to_lower l = l"

lemma to_lower_append [simp]: "to_lower (a @ b) = to_lower a @ to_lower b"
  by (simp add: to_lower_def)

lemma to_lower_Cons: "to_lower (c # s) = lower_char c # to_lower s"
  by (simp add: to_lower_def)

lemma to_lower_take: "to_lower (take k s) = take k (to_lower s)"
  by (simp add: to_lower_def take_map)

lemma normalizeName_FQDN:
  assumes "to_lower name = name" "to_lower ns = ns"
  shows "normalizeName (FQDN name ns) = name @ ''.'' @ ns @ ''.'' @ clusterSetZoneSuffix"
proof -
  have "to_lower (FQDN name ns) = (name @ ''.'' @ ns @ ''.'' @ clusterSetZoneSuffix) @ ''.''"
    using assms by (simp add: FQDN_def clusterSetZoneSuffix_def ClusterSetDomain_def) (simp add: to_lower_def lower_char_def)
  then show ?thesis unfolding normalizeName_def by (simp only: trim_suffix_append)
qed

lemma parse_prefix:
  assumes "normalizeName q = prefix @ ''.'' @ clusterSetZoneSuffix"
  shows "ParseClusterSetName q = (if prefix = '''' then None else (case split_on (CHR ''.'') prefix of
      [name, namespace] \<Rightarrow> if name = '''' \<or> namespace = '''' then None else Some (name, namespace) | _ \<Rightarrow> None))"
proof -
  have "has_suffix (normalizeName q) (''.'' @ clusterSetZoneSuffix)" using assms by (auto simp: has_suffix_iff)
  moreover have "trim_suffix (normalizeName q) (''.'' @ clusterSetZoneSuffix) = prefix" unfolding assms by (rule trim_suffix_append)
  ultimately show ?thesis by (simp only: ParseClusterSetName_def Let_def if_True not_True_eq_False if_False)
qed

lemma split_two: "split_on c s = [a, b] \<longleftrightarrow> s = a @ c # b \<and> c \<notin> set a \<and> c \<notin> set b"
proof
  assume split: "split_on c s = [a, b]"
  then have s: "s = a @ c # b" using join_split_on [of c s] by simp
  have "\<forall>x\<in>set (split_on c t). c \<notin> set x" for t
    by (induction t) (auto split: list.splits)
  then have "c \<notin> set x" if "x \<in> set (split_on c s)" for x using that by blast
  then show "s = a @ c # b \<and> c \<notin> set a \<and> c \<notin> set b" using s split by simp
qed (simp add: split_on_append split_on_no_sep)

lemma ParseClusterSetName_iff:
  "ParseClusterSetName q = Some (name, ns) \<longleftrightarrow> dns_label name \<and> dns_label ns \<and>
     normalizeName q = name @ ''.'' @ ns @ ''.'' @ clusterSetZoneSuffix"
proof
  assume ok: "ParseClusterSetName q = Some (name, ns)"
  then have "has_suffix (normalizeName q) (''.'' @ clusterSetZoneSuffix)"
    by (auto simp: ParseClusterSetName_def Let_def split: if_splits)
  then obtain prefix where prefix: "normalizeName q = prefix @ ''.'' @ clusterSetZoneSuffix" by (auto simp: has_suffix_iff)
  have split: "split_on (CHR ''.'') prefix = [name, ns]" "name \<noteq> ''''" "ns \<noteq> ''''"
    using ok unfolding parse_prefix [OF prefix] by (auto split: if_splits list.splits)
  then have parts: "prefix = name @ ''.'' @ ns" "CHR ''.'' \<notin> set name" "CHR ''.'' \<notin> set ns" by (simp_all add: split_two)
  have "to_lower (normalizeName q) = normalizeName q"
    unfolding normalizeName_def trim_suffix_def by (simp add: to_lower_take)
  then have "to_lower (name @ ''.'' @ ns @ ''.'' @ clusterSetZoneSuffix) = name @ ''.'' @ ns @ ''.'' @ clusterSetZoneSuffix"
    using prefix parts(1) by simp
  then have "to_lower name = name" "to_lower ns = ns" by (simp_all add: to_lower_Cons)
  then show "dns_label name \<and> dns_label ns \<and> normalizeName q = name @ ''.'' @ ns @ ''.'' @ clusterSetZoneSuffix"
    using prefix parts split by (simp add: dns_label_def)
next
  assume ok: "dns_label name \<and> dns_label ns \<and> normalizeName q = name @ ''.'' @ ns @ ''.'' @ clusterSetZoneSuffix"
  then have "normalizeName q = (name @ ''.'' @ ns) @ ''.'' @ clusterSetZoneSuffix" by simp
  moreover have "split_on (CHR ''.'') (name @ ''.'' @ ns) = [name, ns]" using ok by (simp add: split_two dns_label_def)
  ultimately show "ParseClusterSetName q = Some (name, ns)" using ok by (simp add: parse_prefix dns_label_def)
qed

text \<open>C33. Names of the zone round-trip: the fully qualified name of a service with
  lower-case labels parses to its name and namespace, and a query that parses
  names that service up to case and the trailing dot; such a query lies in the
  zone the server is authoritative for.\<close>

theorem ClusterSetName_roundtrip:
  "(dns_label name \<and> dns_label namespace \<longrightarrow> ParseClusterSetName (FQDN name namespace) = Some (name, namespace)) \<and>
   (ParseClusterSetName q = Some (name, namespace) \<longrightarrow>
      dns_label name \<and> dns_label namespace \<and> normalizeName q = normalizeName (FQDN name namespace) \<and> InClusterSetZone q)"
proof (intro conjI impI)
  assume "dns_label name \<and> dns_label namespace"
  then show "ParseClusterSetName (FQDN name namespace) = Some (name, namespace)"
    by (simp add: ParseClusterSetName_iff normalizeName_FQDN dns_label_def)
next
  assume "ParseClusterSetName q = Some (name, namespace)"
  then have q: "dns_label name" "dns_label namespace" "normalizeName q = name @ ''.'' @ namespace @ ''.'' @ clusterSetZoneSuffix"
    by (simp_all add: ParseClusterSetName_iff)
  show "dns_label name" "dns_label namespace" by (fact q)+
  show "normalizeName q = normalizeName (FQDN name namespace)" using q by (simp add: normalizeName_FQDN dns_label_def)
  have "normalizeName q = (name @ ''.'' @ namespace) @ ''.'' @ clusterSetZoneSuffix" using q(3) by simp
  then show "InClusterSetZone q" unfolding InClusterSetZone_def Let_def has_suffix_iff by blast
qed

theorem ClusterSetName_roundtrip_witness:
  "dns_label ''payments'' \<and> dns_label ''prod'' \<and> ParseClusterSetName (FQDN ''payments'' ''prod'') = Some (''payments'', ''prod'') \<and>
   InClusterSetZone (FQDN ''payments'' ''prod'')"
proof -
  have "dns_label ''payments''" "dns_label ''prod''" by (simp_all add: dns_label_def to_lower_def lower_char_def)
  then show ?thesis using ClusterSetName_roundtrip [of "''payments''" "''prod''" "FQDN ''payments'' ''prod''"] by simp
qed

section \<open>Mirrored slices cover the endpoints\<close>

lemma mirror_chunks_pieces:
  "s \<in> set (mirror_chunks f addrs c) \<Longrightarrow>
     \<exists>xs n. s = f xs n \<and> xs \<noteq> [] \<and> length xs \<le> maxEndpointsPerSlice \<and> set xs \<subseteq> set (drop c addrs)"
proof (induction f addrs c rule: mirror_chunks.induct)
  case (1 f addrs c)
  show ?case
  proof (cases "c < length addrs")
    case True
    let ?xs = "drop c (take (min (c + maxEndpointsPerSlice) (length addrs)) addrs)"
    have piece: "?xs \<noteq> [] \<and> length ?xs \<le> maxEndpointsPerSlice \<and> set ?xs \<subseteq> set (drop c addrs)"
      using True by (auto simp: maxEndpointsPerSlice_def drop_take dest: in_set_takeD)
    have sub: "set (drop (c + maxEndpointsPerSlice) addrs) \<subseteq> set (drop c addrs)"
      by (metis add.commute drop_drop set_drop_subset)
    from "1.prems" have "s = f ?xs (c div maxEndpointsPerSlice) \<or> s \<in> set (mirror_chunks f addrs (c + maxEndpointsPerSlice))"
      using True by (subst (asm) mirror_chunks.simps) auto
    then show ?thesis using piece "1.IH" [OF True] sub by blast
  next
    case False
    then show ?thesis using "1.prems" by (subst (asm) mirror_chunks.simps) simp
  qed
qed

lemma mirror_chunks_cover:
  assumes "a \<in> set (drop c addrs)"
  shows "\<exists>xs n. f xs n \<in> set (mirror_chunks f addrs c) \<and> a \<in> set xs"
  using assms
proof (induction f addrs c rule: mirror_chunks.induct)
  case (1 f addrs c)
  then have c: "c < length addrs" by (cases "c < length addrs") auto
  let ?xs = "drop c (take (min (c + maxEndpointsPerSlice) (length addrs)) addrs)"
  have "drop c addrs = ?xs @ drop (c + maxEndpointsPerSlice) addrs"
    by (simp add: drop_take min_def) (metis add.commute append_take_drop_id drop_drop)
  then consider "a \<in> set ?xs" | "a \<in> set (drop (c + maxEndpointsPerSlice) addrs)" using "1.prems" by (metis Un_iff set_append)
  then show ?case
  proof cases
    case 1
    then show ?thesis using c by (subst mirror_chunks.simps) (auto intro!: exI [of _ ?xs])
  next
    case 2
    then obtain ys n where "f ys n \<in> set (mirror_chunks f addrs (c + maxEndpointsPerSlice))" "a \<in> set ys"
      using "1.IH" [OF c] by blast
    then show ?thesis using c by (subst mirror_chunks.simps) (auto intro!: exI [of _ ys])
  qed
qed

text \<open>What a slice states: its source cluster, address family and addresses.\<close>

definition slice_facts :: "EndpointSlice \<Rightarrow> (string \<times> AddressType \<times> string) set" where
  "slice_facts s = {(c, sl_AddressType s, a) | c a. map_of (sl_Labels s) LabelSourceCluster = Some c \<and>
     (\<exists>e\<in>set (sl_Endpoints s). a \<in> set (ep_Addresses e))}"

lemma mirrorSlice_facts:
  "slice_facts (mirrorSlice i ns c fam xs ports n) = {(c, fam, a) | a. a \<in> set xs}"
  by (auto simp: slice_facts_def mirrorSlice_def LabelServiceName_def LabelSourceCluster_def)

lemma set_PlanEndpointSlices:
  "s \<in> set (PlanEndpointSlices i ns eps) \<longleftrightarrow> (\<exists>ep\<in>set eps. \<exists>fam.
     s \<in> set (mirror_chunks (\<lambda>addrs n. mirrorSlice i ns (ee_Cluster ep) fam addrs (mirrorPorts (ee_Ports ep)) n) (addressesOfFamily (ee_IPs ep) fam) 0))"
proof -
  have "(\<exists>fam. P fam) \<longleftrightarrow> P AddressTypeIPv4 \<or> P AddressTypeIPv6" for P by (metis AddressType.exhaust)
  then show ?thesis unfolding PlanEndpointSlices_def by simp
qed

text \<open>C27. The mirrored slices state exactly the imported endpoints: for every exporting
  cluster and address family the addresses of that family that the cluster
  exports, nothing else; every slice has at least one and at most one hundred
  endpoints, all ready, and carries the labels of the import.\<close>

theorem PlanEndpointSlices_complete:
  "(\<Union>s\<in>set (PlanEndpointSlices importName namespace endpoints). slice_facts s) =
     {(ee_Cluster ep, fam, a) | ep fam a. ep \<in> set endpoints \<and> a \<in> set (ee_IPs ep) \<and> of_family fam a} \<and>
   (\<forall>s\<in>set (PlanEndpointSlices importName namespace endpoints).
      1 \<le> length (sl_Endpoints s) \<and> length (sl_Endpoints s) \<le> 100 \<and> sl_Namespace s = namespace \<and>
      map_of (sl_Labels s) LabelServiceName = Some importName \<and> (\<forall>e\<in>set (sl_Endpoints s). endpointServing e))"
proof
  let ?f = "\<lambda>(ep :: ExportedEndpoint) fam addrs n. mirrorSlice importName namespace (ee_Cluster ep) fam addrs (mirrorPorts (ee_Ports ep)) n"
  have mem: "a \<in> set (addressesOfFamily ips fam) \<longleftrightarrow> a \<in> set ips \<and> of_family fam a" for a ips fam
    by (simp add: addressesOfFamily_def)
  show "(\<Union>s\<in>set (PlanEndpointSlices importName namespace endpoints). slice_facts s) =
     {(ee_Cluster ep, fam, a) | ep fam a. ep \<in> set endpoints \<and> a \<in> set (ee_IPs ep) \<and> of_family fam a}"
  proof (intro equalityI subsetI)
    fix x assume "x \<in> (\<Union>s\<in>set (PlanEndpointSlices importName namespace endpoints). slice_facts s)"
    then obtain s ep fam where s: "x \<in> slice_facts s" "ep \<in> set endpoints" "s \<in> set (mirror_chunks (?f ep fam) (addressesOfFamily (ee_IPs ep) fam) 0)"
      by (auto simp: set_PlanEndpointSlices)
    obtain xs n where "s = ?f ep fam xs n" "\<forall>a\<in>set xs. a \<in> set (ee_IPs ep) \<and> of_family fam a"
      using mirror_chunks_pieces [OF s(3)] mem by fastforce
    then show "x \<in> {(ee_Cluster ep, fam, a) | ep fam a. ep \<in> set endpoints \<and> a \<in> set (ee_IPs ep) \<and> of_family fam a}"
      using s(1,2) by (auto simp: mirrorSlice_facts)
  next
    fix x assume "x \<in> {(ee_Cluster ep, fam, a) | ep fam a. ep \<in> set endpoints \<and> a \<in> set (ee_IPs ep) \<and> of_family fam a}"
    then obtain ep fam a where x: "x = (ee_Cluster ep, fam, a)" "ep \<in> set endpoints" "a \<in> set (ee_IPs ep)" "of_family fam a" by auto
    then have "a \<in> set (drop 0 (addressesOfFamily (ee_IPs ep) fam))" by (simp add: mem)
    from mirror_chunks_cover [OF this, of "?f ep fam"] obtain xs n
      where "?f ep fam xs n \<in> set (mirror_chunks (?f ep fam) (addressesOfFamily (ee_IPs ep) fam) 0)" "a \<in> set xs" by blast
    moreover from this(1) have "?f ep fam xs n \<in> set (PlanEndpointSlices importName namespace endpoints)"
      using x(2) unfolding set_PlanEndpointSlices by blast
    moreover have "x \<in> slice_facts (?f ep fam xs n)" using x(1) \<open>a \<in> set xs\<close> by (simp add: mirrorSlice_facts)
    ultimately show "x \<in> (\<Union>s\<in>set (PlanEndpointSlices importName namespace endpoints). slice_facts s)" by blast
  qed
  show "\<forall>s\<in>set (PlanEndpointSlices importName namespace endpoints).
      1 \<le> length (sl_Endpoints s) \<and> length (sl_Endpoints s) \<le> 100 \<and> sl_Namespace s = namespace \<and>
      map_of (sl_Labels s) LabelServiceName = Some importName \<and> (\<forall>e\<in>set (sl_Endpoints s). endpointServing e)"
  proof
    fix s assume "s \<in> set (PlanEndpointSlices importName namespace endpoints)"
    then obtain ep fam where "s \<in> set (mirror_chunks (?f ep fam) (addressesOfFamily (ee_IPs ep) fam) 0)"
      by (auto simp: set_PlanEndpointSlices)
    from mirror_chunks_pieces [OF this] obtain xs n where "s = ?f ep fam xs n" "xs \<noteq> []" "length xs \<le> 100"
      by (auto simp: maxEndpointsPerSlice_def)
    then show "1 \<le> length (sl_Endpoints s) \<and> length (sl_Endpoints s) \<le> 100 \<and> sl_Namespace s = namespace \<and>
      map_of (sl_Labels s) LabelServiceName = Some importName \<and> (\<forall>e\<in>set (sl_Endpoints s). endpointServing e)"
      by (auto simp: mirrorSlice_def endpointServing_def Suc_le_eq)
  qed
qed

definition slice_endpoint :: ExportedEndpoint where
  "slice_endpoint = \<lparr>ee_Cluster = ''c'', ee_Type = ClusterSetIP, ee_Ports = [], ee_IPs = [''10.0.0.1'', ''fd00::1'', ''bad''],
     ee_ExportTime = 0\<rparr>"

theorem PlanEndpointSlices_complete_witness:
  "\<exists>s \<in> set (PlanEndpointSlices ''web'' ''shop'' [slice_endpoint]).
     (''c'', AddressTypeIPv6, ''fd00::1'') \<in> slice_facts s \<and> map_of (sl_Labels s) LabelServiceName = Some ''web''"
proof -
  have "of_family AddressTypeIPv6 ''fd00::1''" by (simp add: of_family_def go_eval)
  then have "(''c'', AddressTypeIPv6, ''fd00::1'') \<in>
      {(ee_Cluster ep, fam, a) | ep fam a. ep \<in> set [slice_endpoint] \<and> a \<in> set (ee_IPs ep) \<and> of_family fam a}"
    by (force simp: slice_endpoint_def)
  then show ?thesis
    using PlanEndpointSlices_complete [of "''web''" "''shop''" "[slice_endpoint]"] by blast
qed

text \<open>Names of mirrored slices are not unique: the parts are joined by a dash that
  may also occur inside them, so that an import and a cluster share the name of
  the slice of another import and another cluster.\<close>

lemma mirrorSliceName_collides:
  "mirrorSliceName importName (a @ ''-'' @ cluster) fam chunk = mirrorSliceName (importName @ ''-'' @ a) cluster fam chunk"
  by (simp add: mirrorSliceName_def)

end
