(* ===== verification/Dns_Alloc.thy ===== *)
theory Dns_Alloc
  imports Dns_Plan Topology_Remap
begin

text \<open>
  \<^verbatim>\<open>pkg/dns/allocate.go\<close>: the coordination-free allocation of ClusterSetIPs. Every
  cluster computes the same assignment from the set of exported services by
  hashing each key into the range and hashing again on a collision.
\<close>

section \<open>The allocator\<close>

definition maxProbeBudget :: nat where "maxProbeBudget = 64"

definition offsetInRange :: "string \<Rightarrow> nat \<Rightarrow> nat \<Rightarrow> nat" where
  "offsetInRange key attempt sz = unat (fnv64a (key @ ''#'' @ itoa attempt)) mod sz"

text \<open>Taking the low bytes of a big-endian number is reduction modulo the word sz.\<close>

definition bigToIP :: "nat \<Rightarrow> nat \<Rightarrow> ip" where
  "bigToIP v byteLen = (if byteLen = 4 then IP4 (of_nat v) else IP16 (of_nat v))"

function allocate_from ::
  "string \<Rightarrow> nat \<Rightarrow> nat \<Rightarrow> nat \<Rightarrow> nat \<Rightarrow> string list \<Rightarrow> nat \<Rightarrow> (string \<times> string list) option" where
  "allocate_from key baseInt sz byteLen budget used attempt =
     (if attempt < budget then
        let off = offsetInRange key attempt sz in
        if off = 0 then allocate_from key baseInt sz byteLen budget used (Suc attempt)
        else let s = string_of_ip (bigToIP (baseInt + off) byteLen) in
          if s \<in> set used then allocate_from key baseInt sz byteLen budget used (Suc attempt)
          else Some (s, s # used)
      else None)"
  by pat_completeness auto
termination
  by (relation "measure (\<lambda>(key, baseInt, sz, byteLen, budget, used, attempt). budget - attempt)") auto

declare allocate_from.simps [simp del]

definition allocateOne ::
  "string \<Rightarrow> nat \<Rightarrow> nat \<Rightarrow> nat \<Rightarrow> nat \<Rightarrow> string list \<Rightarrow> (string \<times> string list) option" where
  "allocateOne key baseInt sz byteLen budget used = allocate_from key baseInt sz byteLen budget used 0"

text \<open>The base address as a number with its length in bytes.\<close>

definition pool_base :: "IPNet \<Rightarrow> nat \<times> nat" where
  "pool_base n = (case To4 (net_IP n) of
      Some v4 \<Rightarrow> (unat v4, 4)
    | None \<Rightarrow> (unat (To16 (net_IP n)), 16))"

definition pool_size :: "IPNet \<Rightarrow> nat" where
  "pool_size n = 2 ^ (mask_bits (net_Mask n) - mask_ones (net_Mask n))"

fun alloc_loop :: "string \<Rightarrow> nat \<Rightarrow> nat \<Rightarrow> nat \<Rightarrow> nat \<Rightarrow> ServiceKey list \<Rightarrow> string list \<Rightarrow> (ServiceKey \<rightharpoonup> string) \<Rightarrow>
    (ServiceKey \<rightharpoonup> string) result" where
  "alloc_loop cidr baseInt sz byteLen budget [] used out = Inr out"
| "alloc_loop cidr baseInt sz byteLen budget (k # ks) used out =
     (case allocateOne (ServiceKey_String k) baseInt sz byteLen budget used of
        None \<Rightarrow> Inl (''ClusterSet CIDR '' @ quote cidr @ '': exhausted probe budget allocating '' @ ServiceKey_String k)
      | Some (s, used') \<Rightarrow> alloc_loop cidr baseInt sz byteLen budget ks used' (out(k \<mapsto> s)))"

definition AllocateClusterSetIPs :: "string \<Rightarrow> ServiceKey list \<Rightarrow> (ServiceKey \<rightharpoonup> string) result" where
  "AllocateClusterSetIPs cidr keys = (case ParseCIDR cidr of
      Inl e \<Rightarrow> Inl (''parsing ClusterSet CIDR '' @ quote cidr @ '': '' @ e)
    | Inr (_, ipnet) \<Rightarrow>
        (case pool_base ipnet of (baseInt, byteLen) \<Rightarrow>
          if mask_bits (net_Mask ipnet) = 0 then Inl (''ClusterSet CIDR '' @ quote cidr @ '' has a non-canonical mask'')
          else let sz = pool_size ipnet; ks = SortServiceKeys keys in
            if sz < length ks + 1
            then Inl (''ClusterSet CIDR '' @ quote cidr @ '' ('' @ itoa sz @ '' addresses) too small for '' @
                      itoa (length ks) @ '' services'')
            else alloc_loop cidr baseInt sz byteLen (length ks + maxProbeBudget) ks [] Map.empty))"

section \<open>Addresses of a pool\<close>

text \<open>An IPv6 pool that contains no IPv4-mapped address; such an address would be
  printed in dotted form.\<close>

definition pool_plain :: "IPNet \<Rightarrow> bool" where
  "pool_plain n \<longleftrightarrow> (\<forall>x. To4 (net_IP n) = None \<longrightarrow>
     drop_bit (128 - mask_ones (net_Mask n)) x = drop_bit (128 - mask_ones (net_Mask n)) (To16 (net_IP n)) \<longrightarrow> To4 (IP16 x) = None)"

definition host_of :: "IPNet \<Rightarrow> string \<Rightarrow> bool" where
  "host_of n s \<longleftrightarrow> (\<exists>a. s = string_of_ip a \<and> Contains n a \<and> To16 a \<noteq> To16 (net_IP n))"

lemma host_bits_add:
  fixes x :: "'a::len word"
  assumes "x AND cidr_mask m = x" "m \<le> LENGTH('a)" "off < 2 ^ (LENGTH('a) - m)"
  shows "drop_bit (LENGTH('a) - m) (of_nat (unat x + off)) = drop_bit (LENGTH('a) - m) x"
    "0 < off \<Longrightarrow> (of_nat (unat x + off) :: 'a word) \<noteq> x"
proof -
  let ?k = "LENGTH('a) - m" and ?o = "of_nat off :: 'a word"
  have o: "take_bit ?k ?o = ?o" using assms(3)
    by (simp add: take_bit_of_nat flip: take_bit_nat_eq_self_iff)
  have x: "bit x n \<Longrightarrow> ?k \<le> n" for n
    using arg_cong [OF assms(1), of "\<lambda>w. bit w n"] assms(2) by (auto simp: cidr_mask_def bit_simps)
  have "x AND ?o = 0" using x bit_take_bit_self [OF o] by (intro bit_word_eqI) (force simp: bit_and_iff)
  then have sum: "of_nat (unat x + off) = x OR ?o"
    by (simp add: disjunctive_add_eq_or)
  show "drop_bit ?k (of_nat (unat x + off)) = drop_bit ?k x"
    unfolding sum using bit_take_bit_self [OF o]
    by (intro bit_word_eqI) (auto simp: bit_drop_bit_eq bit_or_iff)
  assume "0 < off"
  moreover have "off < 2 ^ LENGTH('a)"
    by (rule less_le_trans [OF assms(3)]) simp
  ultimately have "?o \<noteq> 0"
    by (simp add: word_of_nat_eq_0_iff nat_dvd_not_less)
  then show "of_nat (unat x + off) \<noteq> x" by simp
qed

lemma pool_cases:
  assumes "wf_net n"
  obtains (v4) a m where "networkNumberAndMask n = NN4 a m" "To4 (net_IP n) = Some a" "pool_base n = (unat a, 4)"
      "pool_size n = 2 ^ (32 - m)" "a AND cidr_mask m = a" "m \<le> 32"
  | (v6) a m where "networkNumberAndMask n = NN16 a m" "To4 (net_IP n) = None" "net_IP n = IP16 a"
      "pool_base n = (unat a, 16)" "pool_size n = 2 ^ (128 - m)" "a AND cidr_mask m = a" "m \<le> 128"
      "mask_ones (net_Mask n) = m"
proof (cases "net_IP n")
  case (IP4 a)
  show ?thesis using assms IP4
    by (intro v4 [of a "mask_ones (net_Mask n)"])
       (auto simp: wf_net_def networkNumberAndMask_def pool_base_def pool_size_def)
next
  case (IP16 a)
  note wf = assms [unfolded wf_net_def IP16, simplified]
  show ?thesis
  proof (cases "To4 (net_IP n)")
    case None
    show ?thesis using wf IP16 None
      by (intro v6 [of a "mask_ones (net_Mask n)"])
         (auto simp: networkNumberAndMask_def pool_base_def pool_size_def To16_def)
  next
    case (Some b)
    then have b: "b = ucast a" using IP16 by (auto simp: To4_def split: if_splits)
    have m: "96 \<le> mask_ones (net_Mask n)" using mapped_ones [OF assms IP16] Some by simp
    show ?thesis using wf IP16 Some m masked_low [of a "mask_ones (net_Mask n)"] b
      by (intro v4 [of b "mask_ones (net_Mask n) - 96"])
         (auto simp: networkNumberAndMask_def pool_base_def pool_size_def)
  qed
qed

lemma pool_address:
  assumes "wf_net n" "pool_plain n" "pool_base n = (b, l)" "0 < off" "off < pool_size n"
  shows "host_of n (string_of_ip (bigToIP (b + off) l))"
  using assms(1)
proof (cases rule: pool_cases)
  case (v4 a m)
  define c where "c = (of_nat (unat a + off) :: 32 word)"
  note h = host_bits_add [of a m off]
  have "drop_bit (32 - m) c = drop_bit (32 - m) a" "c \<noteq> a"
    using h assms(4,5) v4 by (simp_all add: c_def)
  then have "Contains n (IP4 c)" "To16 (IP4 c) \<noteq> To16 (net_IP n)"
    using v4 by (simp_all add: Contains_NN4 To16_To4 To16_IP4_inj)
  then show ?thesis unfolding host_of_def using assms(3) v4 by (auto simp: bigToIP_def c_def)
next
  case (v6 a m)
  define c where "c = (of_nat (unat a + off) :: 128 word)"
  note h = host_bits_add [of a m off]
  have c: "drop_bit (128 - m) c = drop_bit (128 - m) a" "c \<noteq> a"
    using h assms(4,5) v6 by (simp_all add: c_def)
  moreover have "To4 (IP16 c) = None" using assms(2) v6 c by (simp add: pool_plain_def To16_def)
  ultimately have "Contains n (IP16 c)" "To16 (IP16 c) \<noteq> To16 (net_IP n)"
    using v6 by (simp_all add: Contains_NN16 To16_def)
  then show ?thesis unfolding host_of_def using assms(3) v6 by (auto simp: bigToIP_def c_def)
qed

section \<open>What the allocator assigns\<close>

text \<open>An address the probe can hand out: the base plus an offset of the range other
  than the reserved zero.\<close>

definition probed :: "nat \<Rightarrow> nat \<Rightarrow> nat \<Rightarrow> string \<Rightarrow> bool" where
  "probed baseInt sz byteLen s \<longleftrightarrow> (\<exists>off. 0 < off \<and> off < sz \<and> s = string_of_ip (bigToIP (baseInt + off) byteLen))"

lemma allocate_from_fresh:
  assumes "allocate_from key baseInt sz byteLen budget used attempt = Some (s, used')" "0 < sz"
  shows "s \<notin> set used \<and> used' = s # used \<and> probed baseInt sz byteLen s"
  using assms
proof (induction key baseInt sz byteLen budget used attempt rule: allocate_from.induct)
  case (1 key baseInt sz byteLen budget used attempt)
  then have "offsetInRange key attempt sz < sz" by (simp add: offsetInRange_def)
  moreover note 1(3) [unfolded allocate_from.simps [of key baseInt sz byteLen budget used attempt]]
  ultimately show ?case
    using 1(1,2,4) by (auto simp: Let_def probed_def split: if_splits)
qed

lemmas allocateOne_fresh = allocate_from_fresh [of _ _ _ _ _ _ 0, folded allocateOne_def]

text \<open>The effort is bounded: at most as many hashes as the budget allows are computed,
  and with a budget the first probe that hits a free address ends the search.\<close>

lemma allocate_from_first:
  assumes "attempt \<le> i" "i < budget" "0 < offsetInRange key i sz"
    and "string_of_ip (bigToIP (baseInt + offsetInRange key i sz) byteLen) \<notin> set used"
  shows "allocate_from key baseInt sz byteLen budget used attempt \<noteq> None"
  using assms
proof (induction key baseInt sz byteLen budget used attempt rule: allocate_from.induct)
  case (1 key baseInt sz byteLen budget used attempt)
  then show ?case
    by (subst allocate_from.simps) (cases "attempt = i"; auto simp: Let_def)
qed

lemma alloc_loop_assigns:
  assumes "alloc_loop cidr baseInt sz byteLen budget ks used out = Inr out'" "0 < sz" "distinct ks"
  shows "(\<forall>k. k \<notin> set ks \<longrightarrow> out' k = out k)
    \<and> (\<forall>k \<in> set ks. \<exists>s. out' k = Some s \<and> s \<notin> set used \<and> probed baseInt sz byteLen s)
    \<and> inj_on out' (set ks)"
  using assms(1,3)
proof (induction ks arbitrary: used out)
  case (Cons k ks)
  then obtain s used' where s: "allocateOne (ServiceKey_String k) baseInt sz byteLen budget used = Some (s, used')"
    and rest: "alloc_loop cidr baseInt sz byteLen budget ks used' (out(k \<mapsto> s)) = Inr out'"
    by (auto split: option.splits)
  note f = allocateOne_fresh [OF s assms(2)]
  have IH: "(\<forall>j. j \<notin> set ks \<longrightarrow> out' j = (out(k \<mapsto> s)) j)"
    "\<forall>j \<in> set ks. \<exists>t. out' j = Some t \<and> t \<notin> set (s # used) \<and> probed baseInt sz byteLen t"
    "inj_on out' (set ks)"
    using Cons.IH [OF rest] Cons.prems(2) f by auto
  have k: "out' k = Some s" using IH(1) Cons.prems(2) by simp
  then have "out' k \<notin> out' ` set ks" using IH(2) by fastforce
  then have "inj_on out' (set (k # ks))" using IH(3) Cons.prems(2) by simp
  then show ?case using IH(1,2) k f by auto
qed simp

lemma mset_SortServiceKeys: "set (SortServiceKeys ks) = set ks" "distinct (SortServiceKeys ks) = distinct ks"
  "length (SortServiceKeys ks) = length ks"
  by (simp_all add: SortServiceKeys_def)

text \<open>C18. An allocation of ClusterSetIPs that succeeds is sound: exactly the requested
  services have an address, no two services share one, and every address lies in the
  ClusterSet range and is not the network address.\<close>

theorem AllocateClusterSetIPs_sound:
  assumes "ParseCIDR cidr = Inr (x, n)" "pool_plain n" "distinct keys"
    and "AllocateClusterSetIPs cidr keys = Inr out"
  shows "dom out = set keys \<and> inj_on out (set keys) \<and> (\<forall>k \<in> set keys. \<exists>s. out k = Some s \<and> host_of n s)"
proof -
  obtain baseInt byteLen where b: "pool_base n = (baseInt, byteLen)" by fastforce
  have loop: "alloc_loop cidr baseInt (pool_size n) byteLen (length keys + maxProbeBudget)
      (SortServiceKeys keys) [] Map.empty = Inr out"
    using assms(1,4) b by (auto simp: AllocateClusterSetIPs_def Let_def mset_SortServiceKeys split: if_splits)
  have "0 < pool_size n" by (simp add: pool_size_def)
  note A = alloc_loop_assigns [OF loop this, unfolded mset_SortServiceKeys, OF assms(3)]
  have "probed baseInt (pool_size n) byteLen s \<Longrightarrow> host_of n s" for s
    using pool_address [OF ParseCIDR_wf [OF assms(1)] assms(2) b] by (auto simp: probed_def)
  then have hosts: "\<forall>k \<in> set keys. \<exists>s. out k = Some s \<and> host_of n s" using A by blast
  moreover have "dom out = set keys"
  proof
    show "dom out \<subseteq> set keys" using A by (auto simp: dom_def intro: ccontr)
    show "set keys \<subseteq> dom out" using hosts by auto
  qed
  ultimately show ?thesis using A by blast
qed

lemma ServiceKey_String_inj:
  assumes "\<forall>k \<in> A. CHR ''/'' \<notin> set (sk_Namespace k)"
  shows "inj_on ServiceKey_String A"
proof (rule inj_onI)
  fix j k assume jk: "j \<in> A" "k \<in> A" "ServiceKey_String j = ServiceKey_String k"
  have "takeWhile (\<lambda>c. c \<noteq> CHR ''/'') (ServiceKey_String k) = sk_Namespace k" if "k \<in> A" for k
    using that assms by (subst ServiceKey_String_def, subst takeWhile_append2) auto
  then have "sk_Namespace j = sk_Namespace k" using jk by metis
  moreover from this have "sk_Name j = sk_Name k" using jk(3) by (simp add: ServiceKey_String_def)
  ultimately show "j = k" by simp
qed

text \<open>The result, error included, does not depend on the order of the keys.\<close>

lemma AllocateClusterSetIPs_perm:
  assumes "mset keys = mset keys'" "\<forall>k \<in> set keys. CHR ''/'' \<notin> set (sk_Namespace k)"
  shows "AllocateClusterSetIPs cidr keys = AllocateClusterSetIPs cidr keys'"
proof -
  have "SortServiceKeys keys = SortServiceKeys keys'"
    unfolding SortServiceKeys_def
    using go_slice.srt_perm_invariant [OF ServiceKey_String_inj [OF assms(2)] assms(1)] .
  then show ?thesis by (simp only: AllocateClusterSetIPs_def)
qed

definition shop_keys :: "ServiceKey list" where
  "shop_keys = [\<lparr>sk_Namespace = ''b'', sk_Name = ''w''\<rparr>, \<lparr>sk_Namespace = ''a'', sk_Name = ''w''\<rparr>]"

lemma shop_pool:
  "ParseCIDR ''10.0.0.0/30'' = Inr (IP16 (v4_in_v6 0xA000000), \<lparr>net_IP = IP4 0xA000000, net_Mask = CIDRMask 30 32\<rparr>)"
  by (simp add: go_eval)

lemmas alloc_eval = AllocateClusterSetIPs_def SortServiceKeys_def ServiceKey_String_def pool_base_def pool_size_def
  allocateOne_def allocate_from.simps offsetInRange_def maxProbeBudget_def bigToIP_def

lemma shop_allocates: "\<exists>out. AllocateClusterSetIPs ''10.0.0.0/30'' shop_keys = Inr out"
  by (simp add: shop_pool shop_keys_def alloc_eval go_eval)

theorem AllocateClusterSetIPs_sound_witness:
  "\<exists>out. AllocateClusterSetIPs ''10.0.0.0/30'' shop_keys = Inr out \<and> inj_on out (set shop_keys) \<and>
     (\<forall>k \<in> set shop_keys. \<exists>s. out k = Some s \<and> host_of \<lparr>net_IP = IP4 0xA000000, net_Mask = CIDRMask 30 32\<rparr> s)"
proof -
  obtain out where out: "AllocateClusterSetIPs ''10.0.0.0/30'' shop_keys = Inr out"
    using shop_allocates by blast
  have "pool_plain \<lparr>net_IP = IP4 0xA000000, net_Mask = CIDRMask 30 32\<rparr>" "distinct shop_keys"
    by (simp_all add: pool_plain_def shop_keys_def)
  from AllocateClusterSetIPs_sound [OF shop_pool this out] show ?thesis using out by blast
qed

end
