(* ===== verification/Edge_Plan.thy ===== *)
theory Edge_Plan
  imports Dns_Alloc Topology_Conflicts
begin

text \<open>
  \<^verbatim>\<open>pkg/edge\<close> and \<^verbatim>\<open>pkg/gateway/profile.go\<close>: the planner of the edge device
  connector. It screens the edge address pool, assigns every enrolled device an
  address, plans the terminator's peer for a device and renders the device's
  profile. The WireGuard key parser of \<^verbatim>\<open>wgtypes\<close> is the parameter \<open>parseKey\<close>.
\<close>

section \<open>The gateway access profile\<close>

record DNSConfig =
  dn_Addr :: string
  dn_SearchDomains :: "string list"

record AccessProfile =
  ap_GatewayEndpoints :: "string list"
  ap_RouteCIDRs :: "string list"
  ap_DNS :: DNSConfig

definition dedupeSortedNonEmpty :: "string list \<Rightarrow> string list" where
  "dedupeSortedNonEmpty xs = sort (dedup_first (filter (\<lambda>s. s \<noteq> '''') xs))"

definition BuildAccessProfile :: "string list \<Rightarrow> string list \<Rightarrow> string list \<Rightarrow> DNSConfig \<Rightarrow> AccessProfile" where
  "BuildAccessProfile gatewayEndpoints clusterSetCIDRs meshCIDRs dns =
     \<lparr>ap_GatewayEndpoints = dedupeSortedNonEmpty gatewayEndpoints,
      ap_RouteCIDRs = dedupeSortedNonEmpty (clusterSetCIDRs @ meshCIDRs),
      ap_DNS = dns\<lparr>dn_SearchDomains := dedupeSortedNonEmpty (dn_SearchDomains dns)\<rparr>\<rparr>"

section \<open>Host routes\<close>

definition hostMaskSuffix :: "ip \<Rightarrow> string" where
  "hostMaskSuffix x = (if To4 x \<noteq> None then ''/32'' else ''/128'')"

definition hostCIDR :: "string \<Rightarrow> string result" where
  "hostCIDR address =
     (let addr = trim_space address in
      if addr = '''' then Inl ''address is empty''
      else if CHR ''/'' \<notin> set addr then
        (case ParseIP addr of
           None \<Rightarrow> Inl (quote addr @ '' is not an IP address'')
         | Some x \<Rightarrow> Inr (string_of_ip x @ hostMaskSuffix x))
      else
        (case ParseCIDR addr of
           Inl e \<Rightarrow> Inl (quote addr @ '' is not a valid address: '' @ e)
         | Inr (x, ipnet) \<Rightarrow>
             if mask_ones (net_Mask ipnet) \<noteq> mask_bits (net_Mask ipnet)
             then Inl (quote addr @ '' is not a single host address (want a /'' @ itoa (mask_bits (net_Mask ipnet)) @ '' host route)'')
             else Inr (string_of_ip x @ hostMaskSuffix x)))"

section \<open>Device addresses\<close>

record DeviceClaim =
  dc_Key :: string
  dc_Address :: string

definition edge_maxProbeBudget :: nat where "edge_maxProbeBudget = 64"

definition edge_offsetInRange :: "string \<Rightarrow> nat \<Rightarrow> nat \<Rightarrow> nat" where
  "edge_offsetInRange key attempt sz = unat (fnv64a (key @ ''#'' @ itoa attempt)) mod sz"

definition edge_bigToIP :: "nat \<Rightarrow> nat \<Rightarrow> ip" where
  "edge_bigToIP v byteLen = (if byteLen = 4 then IP4 (of_nat v) else IP16 (of_nat v))"

function edge_allocate_from ::
  "string \<Rightarrow> nat \<Rightarrow> nat \<Rightarrow> nat \<Rightarrow> nat \<Rightarrow> string list \<Rightarrow> nat \<Rightarrow> (string \<times> string list) option" where
  "edge_allocate_from key baseInt sz byteLen budget used attempt =
     (if attempt < budget then
        let off = edge_offsetInRange key attempt sz in
        if off = 0 then edge_allocate_from key baseInt sz byteLen budget used (Suc attempt)
        else let s = string_of_ip (edge_bigToIP (baseInt + off) byteLen) in
          if s \<in> set used then edge_allocate_from key baseInt sz byteLen budget used (Suc attempt)
          else Some (s, s # used)
      else None)"
  by pat_completeness auto
termination
  by (relation "measure (\<lambda>(key, baseInt, sz, byteLen, budget, used, attempt). budget - attempt)") auto

declare edge_allocate_from.simps [simp del]

definition edge_allocateOne ::
  "string \<Rightarrow> nat \<Rightarrow> nat \<Rightarrow> nat \<Rightarrow> nat \<Rightarrow> string list \<Rightarrow> (string \<times> string list) option" where
  "edge_allocateOne key baseInt sz byteLen budget used = edge_allocate_from key baseInt sz byteLen budget used 0"

definition sortClaims :: "DeviceClaim list \<Rightarrow> DeviceClaim list" where
  "sortClaims claims = sort_key dc_Key claims"

definition edge_shortKey :: "string \<Rightarrow> string" where
  "edge_shortKey k = (if length k \<le> 8 then k
     else take 8 k @ [char_of (226 :: nat), char_of (128 :: nat), char_of (166 :: nat)])"

definition ip_Equal :: "ip \<Rightarrow> ip \<Rightarrow> bool" where
  "ip_Equal x y \<longleftrightarrow> To16 x = To16 y"

definition pinnedIP :: "string \<Rightarrow> IPNet \<Rightarrow> ip result" where
  "pinnedIP addr ipnet =
     (case hostCIDR addr of
        Inl e \<Rightarrow> Inl e
      | Inr host \<Rightarrow>
          (case ParseCIDR host of
             Inl e \<Rightarrow> Inl e
           | Inr (x, _) \<Rightarrow>
               if \<not> Contains ipnet x then Inl (string_of_ip x @ '' is outside the edge CIDR '' @ string_of_net ipnet)
               else if ip_Equal x (net_IP ipnet) then Inl (string_of_ip x @ '' is the reserved network address'')
               else case To4 x of Some v4 \<Rightarrow> Inr (IP4 v4) | None \<Rightarrow> Inr (IP16 (To16 x))))"

definition is_pinned :: "DeviceClaim \<Rightarrow> bool" where
  "is_pinned c \<longleftrightarrow> trim_space (dc_Address c) \<noteq> ''''"

fun pin_loop :: "IPNet \<Rightarrow> DeviceClaim list \<Rightarrow> string list \<Rightarrow> (string \<rightharpoonup> string) \<Rightarrow>
    (string list \<times> (string \<rightharpoonup> string)) result" where
  "pin_loop ipnet [] used out = Inr (used, out)"
| "pin_loop ipnet (c # cs) used out =
     (if \<not> is_pinned c then pin_loop ipnet cs used out
      else case pinnedIP (dc_Address c) ipnet of
        Inl e \<Rightarrow> Inl (''device '' @ quote (edge_shortKey (dc_Key c)) @ '' address pin: '' @ e)
      | Inr x \<Rightarrow>
          let s = string_of_ip x in
          if s \<in> set used
          then Inl (''device '' @ quote (edge_shortKey (dc_Key c)) @ '' pins address '' @ s @ '' already claimed by another device'')
          else pin_loop ipnet cs (s # used) (out(dc_Key c \<mapsto> s)))"

fun place_loop :: "string \<Rightarrow> nat \<Rightarrow> nat \<Rightarrow> nat \<Rightarrow> nat \<Rightarrow> DeviceClaim list \<Rightarrow> string list \<Rightarrow> (string \<rightharpoonup> string) \<Rightarrow>
    (string \<rightharpoonup> string) result" where
  "place_loop edgeCIDR baseInt sz byteLen budget [] used out = Inr out"
| "place_loop edgeCIDR baseInt sz byteLen budget (c # cs) used out =
     (if is_pinned c then place_loop edgeCIDR baseInt sz byteLen budget cs used out
      else case edge_allocateOne (dc_Key c) baseInt sz byteLen budget used of
        None \<Rightarrow> Inl (''edge CIDR '' @ quote edgeCIDR @ '': exhausted probe budget allocating device '' @ quote (edge_shortKey (dc_Key c)))
      | Some (s, used') \<Rightarrow> place_loop edgeCIDR baseInt sz byteLen budget cs used' (out(dc_Key c \<mapsto> s)))"

definition AllocateDeviceIPs :: "string \<Rightarrow> DeviceClaim list \<Rightarrow> (string \<rightharpoonup> string) result" where
  "AllocateDeviceIPs edgeCIDR claims0 = (case ParseCIDR (trim_space edgeCIDR) of
      Inl e \<Rightarrow> Inl (''parsing edge CIDR '' @ quote edgeCIDR @ '': '' @ e)
    | Inr (_, ipnet) \<Rightarrow>
        (case pool_base ipnet of (baseInt, byteLen) \<Rightarrow>
          if mask_bits (net_Mask ipnet) = 0 then Inl (''edge CIDR '' @ quote edgeCIDR @ '' has a non-canonical mask'')
          else let sz = pool_size ipnet; claims = sortClaims claims0 in
            if sz < length claims + 1
            then Inl (''edge CIDR '' @ quote edgeCIDR @ '' ('' @ itoa sz @ '' addresses) too small for '' @
                      itoa (length claims) @ '' devices'')
            else case pin_loop ipnet claims [] Map.empty of
                Inl e \<Rightarrow> Inl e
              | Inr (used, out) \<Rightarrow>
                  place_loop edgeCIDR baseInt sz byteLen (length claims + edge_maxProbeBudget) claims used out))"

section \<open>The edge range\<close>

definition reserved_nets :: "string list \<Rightarrow> IPNet list" where
  "reserved_nets reserved = List.map_filter (\<lambda>r.
     if trim_space r = '''' then None
     else case ParseCIDR (trim_space r) of Inr (_, rn) \<Rightarrow> Some rn | Inl _ \<Rightarrow> None) reserved"

definition ValidateEdgeCIDR :: "string \<Rightarrow> string list \<Rightarrow> unit result" where
  "ValidateEdgeCIDR cidr0 reserved =
     (let cidr = trim_space cidr0 in
      if cidr = '''' then Inl ''edge CIDR is empty''
      else case ParseCIDR cidr of
        Inl e \<Rightarrow> Inl (''edge CIDR '' @ quote cidr @ '' is malformed: '' @ e)
      | Inr (_, n) \<Rightarrow>
          if IsDangerousCIDR (Some n) then Inl (''edge CIDR '' @ quote cidr @ '' is never safe to route into the mesh'')
          else if mask_ones (net_Mask n) \<ge> mask_bits (net_Mask n)
            then Inl (''edge CIDR '' @ quote cidr @ '' has no host addresses to assign'')
          else if OverlapsAny n (reserved_nets reserved)
            then Inl (''edge CIDR '' @ quote cidr @ '' overlaps a local or peer range (must be disjoint)'')
          else Inr ())"

section \<open>Peers and profiles\<close>

record DevicePeer =
  dp_PublicKey :: string
  dp_AllowedIPs :: "string list"

definition PlanDevicePeer :: "(string \<Rightarrow> 'key result) \<Rightarrow> string \<Rightarrow> string \<Rightarrow> DevicePeer result" where
  "PlanDevicePeer parseKey publicKey address = (case parseKey publicKey of
      Inl e \<Rightarrow> Inl (''device publicKey is not a valid WireGuard key: '' @ e)
    | Inr _ \<Rightarrow>
        (case hostCIDR address of
           Inl e \<Rightarrow> Inl (''device address: '' @ e)
         | Inr host \<Rightarrow> Inr \<lparr>dp_PublicKey = publicKey, dp_AllowedIPs = [host]\<rparr>))"

definition ProfileVersion :: string where "ProfileVersion = ''dwxedge.v1''"

record DeviceProfile =
  pf_Version :: string
  pf_DeviceID :: string
  pf_PublicKey :: string
  pf_Address :: string
  pf_EdgeEndpoint :: string
  pf_PeerPublicKey :: string
  pf_Access :: AccessProfile

record DeviceProfileInput =
  in_DeviceID :: string
  in_PublicKey :: string
  in_Address :: string
  in_EdgeEndpoint :: string
  in_PeerPublicKey :: string
  in_RouteCIDRs :: "string list"
  in_DNS :: DNSConfig

fun validate_routes :: "string list \<Rightarrow> unit result" where
  "validate_routes [] = Inr ()"
| "validate_routes (c # cs) = (case ParseCIDR c of
      Inl e \<Rightarrow> Inl (''edge profile advertises malformed route CIDR '' @ quote c @ '': '' @ e)
    | Inr (_, n) \<Rightarrow>
        if IsDangerousCIDR (Some n)
        then Inl (''edge profile advertises route CIDR '' @ quote c @ '' which is never safe to route into the mesh'')
        else validate_routes cs)"

definition DeviceProfile_Validate :: "(string \<Rightarrow> 'key result) \<Rightarrow> DeviceProfile \<Rightarrow> unit result" where
  "DeviceProfile_Validate parseKey p =
     (if pf_Version p \<noteq> ProfileVersion
      then Inl (''unsupported edge profile version '' @ quote (pf_Version p) @ '' (want '' @ quote ProfileVersion @ '')'')
      else if pf_DeviceID p = '''' then Inl ''edge profile is missing deviceID''
      else if pf_PublicKey p = '''' then Inl ''edge profile is missing publicKey''
      else case parseKey (pf_PublicKey p) of
        Inl e \<Rightarrow> Inl (''edge profile publicKey is not a valid WireGuard key: '' @ e)
      | Inr _ \<Rightarrow>
      if pf_PeerPublicKey p = '''' then Inl ''edge profile is missing peerPublicKey''
      else case parseKey (pf_PeerPublicKey p) of
        Inl e \<Rightarrow> Inl (''edge profile peerPublicKey is not a valid WireGuard key: '' @ e)
      | Inr _ \<Rightarrow>
      if pf_EdgeEndpoint p = '''' then Inl ''edge profile is missing edgeEndpoint''
      else case SplitHostPort (pf_EdgeEndpoint p) of
        Inl e \<Rightarrow> Inl (''edge profile edgeEndpoint '' @ quote (pf_EdgeEndpoint p) @ '' is not host:port: '' @ e)
      | Inr _ \<Rightarrow>
      (case hostCIDR (pf_Address p) of
        Inl e \<Rightarrow> Inl (''edge profile address '' @ quote (pf_Address p) @ '': '' @ e)
      | Inr _ \<Rightarrow> validate_routes (ap_RouteCIDRs (pf_Access p))))"

definition BuildDeviceProfile :: "(string \<Rightarrow> 'key result) \<Rightarrow> DeviceProfileInput \<Rightarrow> DeviceProfile result" where
  "BuildDeviceProfile parseKey inp = (case hostCIDR (trim_space (in_Address inp)) of
      Inl e \<Rightarrow> Inl (''device address: '' @ e)
    | Inr addr \<Rightarrow>
        let p = \<lparr>pf_Version = ProfileVersion,
                 pf_DeviceID = trim_space (in_DeviceID inp),
                 pf_PublicKey = trim_space (in_PublicKey inp),
                 pf_Address = addr,
                 pf_EdgeEndpoint = trim_space (in_EdgeEndpoint inp),
                 pf_PeerPublicKey = trim_space (in_PeerPublicKey inp),
                 pf_Access = BuildAccessProfile [trim_space (in_EdgeEndpoint inp)] (in_RouteCIDRs inp) [] (in_DNS inp)\<rparr>
        in case DeviceProfile_Validate parseKey p of Inl e \<Rightarrow> Inl e | Inr _ \<Rightarrow> Inr p)"

definition dnsResolver :: "string \<Rightarrow> string" where
  "dnsResolver addr0 =
     (let addr = trim_space addr0 in
      if addr = '''' then ''''
      else case SplitHostPort addr of Inr (host, _) \<Rightarrow> host | Inl _ \<Rightarrow> addr)"

definition privateKeyPlaceholder :: string where
  "privateKeyPlaceholder = ''REPLACE_WITH_DEVICE_PRIVATE_KEY''"

definition newline :: string where "newline = [CHR 0x0A]"

definition WireGuardQuickConfig :: "DeviceProfile \<Rightarrow> string \<Rightarrow> string" where
  "WireGuardQuickConfig p privateKey0 =
     (let privateKey = (if trim_space privateKey0 = '''' then privateKeyPlaceholder else trim_space privateKey0);
          dns = dnsResolver (dn_Addr (ap_DNS (pf_Access p)))
      in ''# DataWerx Mesh edge device: '' @ pf_DeviceID p @ newline
       @ ''[Interface]'' @ newline
       @ ''PrivateKey = '' @ privateKey @ newline
       @ ''Address = '' @ pf_Address p @ newline
       @ (if dns \<noteq> '''' then ''DNS = '' @ dns @ newline else '''')
       @ newline @ ''[Peer]'' @ newline
       @ ''PublicKey = '' @ pf_PeerPublicKey p @ newline
       @ ''Endpoint = '' @ pf_EdgeEndpoint p @ newline
       @ (if length (ap_RouteCIDRs (pf_Access p)) > 0
          then ''AllowedIPs = '' @ join '', '' (ap_RouteCIDRs (pf_Access p)) @ newline else '''')
       @ ''PersistentKeepalive = 25'' @ newline)"

section \<open>What the device allocator assigns\<close>

lemma edge_allocate_from_eq: "edge_allocate_from = allocate_from"
proof (intro ext)
  fix key baseInt sz byteLen budget used attempt
  show "edge_allocate_from key baseInt sz byteLen budget used attempt = allocate_from key baseInt sz byteLen budget used attempt"
  proof (induction key baseInt sz byteLen budget used attempt rule: edge_allocate_from.induct)
    case (1 key baseInt sz byteLen budget used attempt)
    have "edge_offsetInRange = offsetInRange" "edge_bigToIP = bigToIP"
      by (simp_all add: fun_eq_iff edge_offsetInRange_def offsetInRange_def edge_bigToIP_def bigToIP_def)
    with 1 show ?case
      by (subst edge_allocate_from.simps, subst allocate_from.simps) (auto simp: Let_def)
  qed
qed

lemma edge_allocateOne_eq: "edge_allocateOne = allocateOne"
  by (simp add: fun_eq_iff edge_allocateOne_def allocateOne_def edge_allocate_from_eq)

lemma pinnedIP_host:
  assumes "pinnedIP addr n = Inr x"
  shows "host_of n (string_of_ip x)"
proof -
  obtain y where y: "Contains n y" "\<not> ip_Equal y (net_IP n)"
    and x: "x = (case To4 y of Some v4 \<Rightarrow> IP4 v4 | None \<Rightarrow> IP16 (To16 y))"
    using assms by (auto simp: pinnedIP_def split: sum.splits if_splits option.splits)
  have "string_of_ip x = string_of_ip y"
    unfolding x by (cases y) (auto simp: string_of_ip_def To16_def split: option.splits)
  then show ?thesis using y by (auto simp: host_of_def ip_Equal_def)
qed

abbreviation pinned_keys :: "DeviceClaim list \<Rightarrow> string set" where
  "pinned_keys cs \<equiv> dc_Key ` {c \<in> set cs. is_pinned c}"

abbreviation free_keys :: "DeviceClaim list \<Rightarrow> string set" where
  "free_keys cs \<equiv> dc_Key ` {c \<in> set cs. \<not> is_pinned c}"

lemma pin_loop_assigns:
  assumes "pin_loop n cs used out = Inr (used', out')" "distinct (map dc_Key cs)"
  shows "set used \<subseteq> set used' \<and> (\<forall>k. k \<notin> pinned_keys cs \<longrightarrow> out' k = out k)
    \<and> (\<forall>c \<in> set cs. is_pinned c \<longrightarrow> (\<exists>x. pinnedIP (dc_Address c) n = Inr x \<and> out' (dc_Key c) = Some (string_of_ip x)
          \<and> string_of_ip x \<in> set used' - set used))
    \<and> inj_on out' (pinned_keys cs)"
  using assms
proof (induction cs arbitrary: used out)
  case (Cons c cs)
  show ?case
  proof (cases "is_pinned c")
    case False
    then have "pinned_keys (c # cs) = pinned_keys cs" by auto
    then show ?thesis using Cons.IH [of used out] Cons.prems False by (simp only: list.set ball_simps) simp
  next
    case True
    then obtain x where x: "pinnedIP (dc_Address c) n = Inr x" "string_of_ip x \<notin> set used"
      and rest: "pin_loop n cs (string_of_ip x # used) (out(dc_Key c \<mapsto> string_of_ip x)) = Inr (used', out')"
      using Cons.prems by (auto simp: Let_def split: sum.splits if_splits)
    note IH = Cons.IH [OF rest]
    have fresh: "dc_Key c \<notin> dc_Key ` set cs" "distinct (map dc_Key cs)" using Cons.prems(2) by auto
    then have k: "out' (dc_Key c) = Some (string_of_ip x)" using IH by auto
    then have "out' (dc_Key c) \<notin> out' ` pinned_keys cs" using IH fresh by fastforce
    moreover have keys: "pinned_keys (c # cs) = insert (dc_Key c) (pinned_keys cs)" using True by auto
    moreover have "dc_Key c \<notin> pinned_keys cs" using fresh by auto
    ultimately have "inj_on out' (pinned_keys (c # cs))" using IH fresh by simp
    moreover have "\<forall>j. j \<notin> pinned_keys (c # cs) \<longrightarrow> out' j = out j" unfolding keys using IH fresh by auto
    ultimately show ?thesis using IH fresh k x by (intro conjI) auto
  qed
qed simp

lemma place_loop_assigns:
  assumes "place_loop cidr baseInt sz byteLen budget cs used out = Inr out'" "distinct (map dc_Key cs)" "0 < sz"
  shows "(\<forall>k. k \<notin> free_keys cs \<longrightarrow> out' k = out k)
    \<and> (\<forall>c \<in> set cs. \<not> is_pinned c \<longrightarrow> (\<exists>s. out' (dc_Key c) = Some s \<and> s \<notin> set used \<and> probed baseInt sz byteLen s))
    \<and> inj_on out' (free_keys cs)"
  using assms(1,2)
proof (induction cs arbitrary: used out)
  case (Cons c cs)
  show ?case
  proof (cases "is_pinned c")
    case True
    then have "free_keys (c # cs) = free_keys cs" by auto
    then show ?thesis using Cons.IH [of used out] Cons.prems True by (simp only: list.set ball_simps) simp
  next
    case False
    then obtain s used' where s: "allocateOne (dc_Key c) baseInt sz byteLen budget used = Some (s, used')"
      and rest: "place_loop cidr baseInt sz byteLen budget cs used' (out(dc_Key c \<mapsto> s)) = Inr out'"
      using Cons.prems by (auto simp: edge_allocateOne_eq split: option.splits)
    note f = allocateOne_fresh [OF s assms(3)]
    note IH = Cons.IH [OF rest]
    have fresh: "dc_Key c \<notin> dc_Key ` set cs" "distinct (map dc_Key cs)" using Cons.prems(2) by auto
    then have k: "out' (dc_Key c) = Some s" using IH by auto
    then have "out' (dc_Key c) \<notin> out' ` free_keys cs" using IH fresh f by fastforce
    moreover have keys: "free_keys (c # cs) = insert (dc_Key c) (free_keys cs)" using False by auto
    moreover have "dc_Key c \<notin> free_keys cs" using fresh by auto
    ultimately have "inj_on out' (free_keys (c # cs))" using IH fresh by simp
    moreover have "\<forall>j. j \<notin> free_keys (c # cs) \<longrightarrow> out' j = out j" unfolding keys using IH fresh by auto
    ultimately show ?thesis using IH fresh k f by (intro conjI) auto
  qed
qed simp

lemma AllocateDeviceIPs_assigns:
  assumes "ParseCIDR (trim_space cidr) = Inr (x, n)" "pool_plain n" "distinct (map dc_Key claims)"
    and "AllocateDeviceIPs cidr claims = Inr out"
  shows "dom out = dc_Key ` set claims" "inj_on out (dom out)"
    "c \<in> set claims \<Longrightarrow> \<exists>s. out (dc_Key c) = Some s \<and> host_of n s"
    "c \<in> set claims \<Longrightarrow> is_pinned c \<Longrightarrow> \<exists>y. pinnedIP (dc_Address c) n = Inr y \<and> out (dc_Key c) = Some (string_of_ip y)"
proof -
  obtain baseInt byteLen where b: "pool_base n = (baseInt, byteLen)" by fastforce
  let ?cs = "sortClaims claims"
  have cs: "set ?cs = set claims" "distinct (map dc_Key ?cs)"
    using assms(3) by (simp_all add: sortClaims_def distinct_map)
  obtain used out0 where pins: "pin_loop n ?cs [] Map.empty = Inr (used, out0)"
    and place: "place_loop cidr baseInt (pool_size n) byteLen (length ?cs + edge_maxProbeBudget) ?cs used out0 = Inr out"
    using assms(1,4) b by (auto simp: AllocateDeviceIPs_def Let_def split: if_splits sum.splits)
  have "0 < pool_size n" by (simp add: pool_size_def)
  note B = place_loop_assigns [OF place cs(2) this, unfolded cs(1)]
  note A = pin_loop_assigns [OF pins cs(2), unfolded cs(1)]
  have disj: "pinned_keys claims \<inter> free_keys claims = {}"
    using assms(3) by (auto simp: distinct_map inj_on_def)
  have host: "probed baseInt (pool_size n) byteLen s \<Longrightarrow> host_of n s" for s
    using pool_address [OF ParseCIDR_wf [OF assms(1)] assms(2) b] by (auto simp: probed_def)
  have pin: "\<exists>y. pinnedIP (dc_Address c) n = Inr y \<and> out (dc_Key c) = Some (string_of_ip y) \<and> string_of_ip y \<in> set used"
    if "c \<in> set claims" "is_pinned c" for c
    using A B that disj by fastforce
  show P: "\<exists>y. pinnedIP (dc_Address c) n = Inr y \<and> out (dc_Key c) = Some (string_of_ip y)"
    if "c \<in> set claims" "is_pinned c" for c
    using pin [OF that] by blast
  show H: "\<exists>s. out (dc_Key c) = Some s \<and> host_of n s" if "c \<in> set claims" for c
    using that P [OF that] B host pinnedIP_host by blast
  have keys: "dc_Key ` set claims = pinned_keys claims \<union> free_keys claims" by auto
  have "out k = None" if "k \<notin> dc_Key ` set claims" for k
    using A B that unfolding keys by auto
  then show dom: "dom out = dc_Key ` set claims" using H by (fastforce simp: dom_def)
  have "inj_on out (pinned_keys claims)"
    using A B disj by (metis (no_types, lifting) disjoint_iff inj_on_cong)
  moreover have "out ` pinned_keys claims \<inter> out ` free_keys claims = {}"
    using pin B by fastforce
  ultimately show "inj_on out (dom out)"
    unfolding dom keys inj_on_Un using B by blast
qed

text \<open>C26. An assignment of edge addresses that succeeds is sound: exactly the enrolled
  devices have an address, no two devices share one, every address lies in the edge
  range and is not its network address, and a device that pins an address has it.\<close>

theorem AllocateDeviceIPs_sound:
  assumes "ParseCIDR (trim_space cidr) = Inr (x, n)" "pool_plain n" "distinct (map dc_Key claims)"
    and "AllocateDeviceIPs cidr claims = Inr out"
  shows "dom out = dc_Key ` set claims \<and> inj_on out (dom out)
    \<and> (\<forall>c \<in> set claims. (\<exists>s. out (dc_Key c) = Some s \<and> host_of n s)
         \<and> (is_pinned c \<longrightarrow> (\<exists>y. pinnedIP (dc_Address c) n = Inr y \<and> out (dc_Key c) = Some (string_of_ip y))))"
  using AllocateDeviceIPs_assigns [OF assms] by blast

definition edge_claims :: "DeviceClaim list" where
  "edge_claims = [\<lparr>dc_Key = ''k2'', dc_Address = ''''\<rparr>, \<lparr>dc_Key = ''k1'', dc_Address = '' 10.0.0.1/32 ''\<rparr>]"

lemmas edge_eval = AllocateDeviceIPs_def sortClaims_def pool_base_def pool_size_def is_pinned_def pinnedIP_def
  hostCIDR_def hostMaskSuffix_def ip_Equal_def To16_def edge_allocateOne_def edge_allocate_from.simps
  edge_offsetInRange_def edge_maxProbeBudget_def edge_bigToIP_def

lemma edge_allocates: "\<exists>out. AllocateDeviceIPs ''10.0.0.0/30'' edge_claims = Inr out"
  by (simp add: shop_pool edge_claims_def edge_eval go_eval)

theorem AllocateDeviceIPs_sound_witness:
  "\<exists>out. AllocateDeviceIPs ''10.0.0.0/30'' edge_claims = Inr out \<and> dom out = {''k1'', ''k2''} \<and> inj_on out (dom out)
     \<and> out ''k1'' = Some ''10.0.0.1''"
proof -
  let ?n = "\<lparr>net_IP = IP4 0xA000000, net_Mask = CIDRMask 30 32\<rparr>"
  obtain out where out: "AllocateDeviceIPs ''10.0.0.0/30'' edge_claims = Inr out"
    using edge_allocates by blast
  have "ParseCIDR (trim_space ''10.0.0.0/30'') = Inr (IP16 (v4_in_v6 0xA000000), ?n)"
    by (simp add: shop_pool trim_space_def trim_def trim_right_def is_space_def)
  moreover have "pool_plain ?n" "distinct (map dc_Key edge_claims)"
    by (simp_all add: pool_plain_def edge_claims_def)
  moreover have "pinnedIP '' 10.0.0.1/32 '' ?n = Inr (IP4 0xA000001)"
    by (simp add: edge_eval go_eval)
  ultimately show ?thesis
    using AllocateDeviceIPs_sound [OF _ _ _ out] out
    by (fastforce simp: edge_claims_def is_pinned_def trim_space_def trim_def trim_right_def is_space_def string_of_ip_def string_of_ip4_def go_eval)
qed

lemma To4_To16 [simp]: "To4 (IP16 (To16 x)) = To4 x"
  by (cases x) (simp_all add: To16_def)

lemma trim_space_no_space: "\<forall>c\<in>set s. \<not> is_space c \<Longrightarrow> trim_space s = s"
proof -
  assume a: "\<forall>c\<in>set s. \<not> is_space c"
  have "dropWhile is_space t = t" if "\<forall>c\<in>set t. \<not> is_space c" for t using that by (cases t) auto
  from this [of s] this [of "rev s"] a show ?thesis by (simp add: trim_space_def trim_def trim_right_def)
qed

lemma ip_chars:
  assumes "c \<in> set (string_of_ip x)"
  shows "\<not> is_space c" "c \<noteq> CHR ''/''"
proof -
  have d: "is_digit c" if "c \<in> set (itoa k)" for k using itoa_digits [of k] that by (simp add: list_all_iff)
  have "c \<in> set (string_of_ip4 a) \<Longrightarrow> is_digit c \<or> c = CHR ''.''" for a by (auto simp: string_of_ip4_def dest: d)
  then have "is_digit c \<or> c = CHR ''.'' \<or> hex_val c \<noteq> None \<or> c = CHR '':''"
    using assms ip16_chars by (auto simp: string_of_ip_def split: option.splits ip.splits)
  then show "\<not> is_space c" "c \<noteq> CHR ''/''" by (auto simp: is_space_def is_digit_def hex_val_def Let_def split: if_splits)
qed

lemma string_of_ip_nonempty: "string_of_ip x \<noteq> []"
  using ParseIP_string [of x] by (auto simp: ParseIP_def ParseAddr_def)

lemma hostCIDR_string: "hostCIDR (string_of_ip x) = Inr (string_of_ip x @ hostMaskSuffix x)"
proof -
  have "trim_space (string_of_ip x) = string_of_ip x" using ip_chars(1) by (intro trim_space_no_space) blast
  moreover have "CHR ''/'' \<notin> set (string_of_ip x)" using ip_chars(2) by blast
  moreover have "string_of_ip (IP16 (To16 x)) = string_of_ip x" by (simp add: string_of_ip_eq To16_def)
  ultimately show ?thesis
    by (simp add: hostCIDR_def string_of_ip_nonempty ParseIP_string hostMaskSuffix_def)
qed

lemma parse_net_host:
  "\<exists>h. parse_net (string_of_ip x @ hostMaskSuffix x) = Some h \<and> (\<forall>y. Contains h y \<longleftrightarrow> To16 y = To16 x)"
proof (cases "To4 x")
  case (Some a)
  have "a AND cidr_mask 32 = a" by (simp add: cidr_mask_def)
  moreover have "itoa 32 = ''32''" by (simp add: go_eval)
  ultimately have "parse_net (string_of_ip x @ hostMaskSuffix x) = Some \<lparr>net_IP = IP4 a, net_Mask = CIDRMask 32 32\<rparr>"
    using ParseCIDR_ip4 [of 32 a] Some by (simp add: parse_net_def string_of_ip_def hostMaskSuffix_def)
  moreover have "Contains \<lparr>net_IP = IP4 a, net_Mask = CIDRMask 32 32\<rparr> y \<longleftrightarrow> To16 y = To16 x" for y
  proof -
    have "Contains \<lparr>net_IP = IP4 a, net_Mask = CIDRMask 32 32\<rparr> y \<longleftrightarrow> To4 y = Some a"
      by (subst Contains_NN4 [of _ a 32]) (auto simp: networkNumberAndMask_def)
    then show ?thesis using Some To16_To4 To4_To16 by metis
  qed
  ultimately show ?thesis by blast
next
  case None
  then obtain a where a: "x = IP16 a" by (cases x) auto
  have "a AND cidr_mask 128 = a" by (simp add: cidr_mask_def)
  moreover have "itoa 128 = ''128''" by (simp add: go_eval)
  ultimately have "parse_net (string_of_ip x @ hostMaskSuffix x) = Some \<lparr>net_IP = IP16 a, net_Mask = CIDRMask 128 128\<rparr>"
    using ParseCIDR_ip16 [of 128 a] None a by (simp add: parse_net_def string_of_ip_def hostMaskSuffix_def)
  moreover have "Contains \<lparr>net_IP = IP16 a, net_Mask = CIDRMask 128 128\<rparr> y \<longleftrightarrow> To16 y = To16 x" for y
  proof -
    have "Contains \<lparr>net_IP = IP16 a, net_Mask = CIDRMask 128 128\<rparr> y \<longleftrightarrow> To4 y = None \<and> y = IP16 a"
      using None a by (subst Contains_NN16 [of _ a 128]) (auto simp: networkNumberAndMask_def)
    then show ?thesis using None a To4_To16 [of y] by (cases y) (auto simp: To16_def)
  qed
  ultimately show ?thesis by blast
qed

text \<open>C24. Validation and allocation compose: when the edge range passes
  \<^verbatim>\<open>ValidateEdgeCIDR\<close>, no address assigned to a device lies in a reserved range or
  in a range that is never routed into the mesh.\<close>

theorem edge_addresses_isolated:
  assumes "ValidateEdgeCIDR cidr reserved = Inr ()" "parse_net (trim_space cidr) = Some n" "pool_plain n"
    and "distinct (map dc_Key claims)" "AllocateDeviceIPs cidr claims = Inr out" "out k = Some s"
  shows "\<exists>a. s = string_of_ip a \<and> Contains n a \<and> (\<forall>r \<in> set (reserved_nets reserved @ dangerousNets). \<not> Contains r a)"
proof -
  obtain x where x: "ParseCIDR (trim_space cidr) = Inr (x, n)" using assms(2) by (auto simp: parse_net_ParseCIDR)
  note A = AllocateDeviceIPs_assigns [OF x assms(3,4,5)]
  have "k \<in> dc_Key ` set claims" using A(1) assms(6) by blast
  then obtain a where a: "s = string_of_ip a" "Contains n a"
    using A(3) assms(6) by (fastforce simp: host_of_def)
  have wf: "wf_net n" using parse_net_wf [OF assms(2)] .
  have res: "wf_net r" if "r \<in> set (reserved_nets reserved)" for r
  proof -
    obtain t where "(if trim_space t = '''' then None
        else case ParseCIDR (trim_space t) of Inr (_, rn) \<Rightarrow> Some rn | Inl _ \<Rightarrow> None) = Some r"
      using \<open>r \<in> set (reserved_nets reserved)\<close> unfolding reserved_nets_def set_map_filter_conv by blast
    then show ?thesis
      by (cases "ParseCIDR (trim_space t)") (auto split: if_splits prod.splits dest: ParseCIDR_wf)
  qed
  have "\<not> OverlapsAny n (reserved_nets reserved)" "\<not> OverlapsAny n dangerousNets"
    using assms(1) x by (auto simp: ValidateEdgeCIDR_def IsDangerousCIDR_def Let_def split: if_splits)
  then have "\<forall>r \<in> set (reserved_nets reserved @ dangerousNets). \<not> Contains r a"
    using a(2) OverlapsAny_common [OF wf] res dangerousNets_wf by auto
  then show ?thesis using a by blast
qed

text \<open>C25. No device can send from the address of another: the peers that the terminator
  plans for two devices from their assigned addresses have one host route each, and
  no address is allowed to both.\<close>

theorem device_peers_spoof_free:
  assumes "ParseCIDR (trim_space cidr) = Inr (x, n)" "pool_plain n"
    and "distinct (map dc_Key claims)" "AllocateDeviceIPs cidr claims = Inr out"
    and "out k = Some s" "out k' = Some s'" "k \<noteq> k'"
    and "PlanDevicePeer parseKey k s = Inr p" "PlanDevicePeer parseKey k' s' = Inr p'"
  shows "\<exists>q q' m m'. dp_AllowedIPs p = [q] \<and> dp_AllowedIPs p' = [q'] \<and> parse_net q = Some m \<and> parse_net q' = Some m'
    \<and> \<not> (\<exists>a. Contains m a \<and> Contains m' a)"
proof -
  note A = AllocateDeviceIPs_assigns [OF assms(1-4)]
  have "k \<in> dc_Key ` set claims" "k' \<in> dc_Key ` set claims" using A(1) assms(5,6) by blast+
  then have "host_of n s" "host_of n s'" using A(3) assms(5,6) by fastforce+
  then obtain w w' where w: "s = string_of_ip w" "s' = string_of_ip w'" by (auto simp: host_of_def)
  have "s \<noteq> s'" using A(2) assms(5-7) by (metis domI inj_onD)
  then have "To16 w \<noteq> To16 w'" using w string_of_ip_eq by simp
  moreover have "dp_AllowedIPs p = [string_of_ip w @ hostMaskSuffix w]" "dp_AllowedIPs p' = [string_of_ip w' @ hostMaskSuffix w']"
    using assms(8,9) w by (auto simp: PlanDevicePeer_def hostCIDR_string split: sum.splits)
  ultimately show ?thesis using parse_net_host [of w] parse_net_host [of w'] by metis
qed

lemma trim_idem: "trim q (trim q s) = trim q s"
proof (cases "trim q s = []")
  case False
  have "dropWhile q xs = xs" if "xs \<noteq> []" "\<not> q (hd xs)" for xs using that by (cases xs) auto
  then have "dropWhile q (trim q s) = trim q s" "dropWhile q (rev (trim q s)) = rev (trim q s)"
    using False trim_hd [OF False] trim_last [OF False] by (simp_all add: hd_rev)
  then show ?thesis by (simp add: trim_def [of q "trim q s"] trim_right_def [of q "trim q s"])
next
  case True
  then show ?thesis by (simp only: trim_def trim_right_def dropWhile.simps rev.simps)
qed

lemma validate_routes_safe:
  "validate_routes cs = Inr u \<Longrightarrow> c \<in> set cs \<Longrightarrow> \<exists>n. parse_net c = Some n \<and> \<not> IsDangerousCIDR (Some n)"
  by (induction cs) (auto simp: parse_net_def split: sum.splits prod.splits if_splits)

text \<open>C34. The two halves of an enrollment agree: the profile rendered for a device carries
  as its interface address exactly the one route the terminator allows the device, and
  every route it advertises was asked for, parses and is safe to route into the mesh.\<close>

theorem BuildDeviceProfile_agrees:
  assumes "BuildDeviceProfile parseKey inp = Inr p"
  shows "PlanDevicePeer parseKey (pf_PublicKey p) (in_Address inp)
      = Inr \<lparr>dp_PublicKey = pf_PublicKey p, dp_AllowedIPs = [pf_Address p]\<rparr>
    \<and> set (ap_RouteCIDRs (pf_Access p)) = set (in_RouteCIDRs inp) - {''''}
    \<and> sorted (ap_RouteCIDRs (pf_Access p)) \<and> distinct (ap_RouteCIDRs (pf_Access p))
    \<and> (\<forall>c \<in> set (ap_RouteCIDRs (pf_Access p)). \<exists>n. parse_net c = Some n \<and> \<not> IsDangerousCIDR (Some n))"
proof -
  obtain addr where addr: "hostCIDR (trim_space (in_Address inp)) = Inr addr"
    using assms by (auto simp: BuildDeviceProfile_def split: sum.splits)
  obtain u where p: "DeviceProfile_Validate parseKey p = Inr u" "pf_Address p = addr"
    "ap_RouteCIDRs (pf_Access p) = dedupeSortedNonEmpty (in_RouteCIDRs inp)"
    using assms addr by (auto simp: BuildDeviceProfile_def BuildAccessProfile_def Let_def split: sum.splits)
  have "hostCIDR (in_Address inp) = Inr addr"
    using addr by (simp add: hostCIDR_def trim_space_def trim_idem)
  moreover obtain v where "parseKey (pf_PublicKey p) = Inr v" "validate_routes (ap_RouteCIDRs (pf_Access p)) = Inr u"
    using p(1) by (auto simp: DeviceProfile_Validate_def split: if_splits sum.splits)
  moreover from this have "\<forall>c \<in> set (ap_RouteCIDRs (pf_Access p)). \<exists>n. parse_net c = Some n \<and> \<not> IsDangerousCIDR (Some n)"
    using validate_routes_safe by blast
  moreover have "set (ap_RouteCIDRs (pf_Access p)) = set (in_RouteCIDRs inp) - {''''}"
    "sorted (ap_RouteCIDRs (pf_Access p))" "distinct (ap_RouteCIDRs (pf_Access p))"
    unfolding p(3) by (auto simp: dedupeSortedNonEmpty_def)
  ultimately show ?thesis using p(2) by (simp add: PlanDevicePeer_def)
qed

definition edge_input :: DeviceProfileInput where
  "edge_input = \<lparr>in_DeviceID = ''d'', in_PublicKey = '' k1'', in_Address = '' 10.0.0.1'', in_EdgeEndpoint = ''e:1'',
     in_PeerPublicKey = ''t'', in_RouteCIDRs = [''10.9.0.0/16'', '''', ''10.9.0.0/16''],
     in_DNS = \<lparr>dn_Addr = '''', dn_SearchDomains = []\<rparr>\<rparr>"

definition accept_key :: "string \<Rightarrow> string result" where
  "accept_key k = (if k = '''' then Inl ''wgtypes: incorrect key size: 0'' else Inr k)"

lemma edge_input_accepted: "\<exists>p. BuildDeviceProfile accept_key edge_input = Inr p"
  by (simp add: BuildDeviceProfile_def edge_input_def DeviceProfile_Validate_def accept_key_def edge_eval ProfileVersion_def
      SplitHostPort_def BuildAccessProfile_def dedupeSortedNonEmpty_def IsDangerousCIDR_def dedup_first_def go_eval)

theorem BuildDeviceProfile_agrees_witness:
  "\<exists>p. BuildDeviceProfile accept_key edge_input = Inr p \<and> set (ap_RouteCIDRs (pf_Access p)) = {''10.9.0.0/16''}"
proof -
  obtain p where p: "BuildDeviceProfile accept_key edge_input = Inr p" using edge_input_accepted by blast
  have "set (in_RouteCIDRs edge_input) - {''''} = {''10.9.0.0/16''}" by (auto simp: edge_input_def)
  then show ?thesis using BuildDeviceProfile_agrees [OF p] p by auto
qed

lemma edge_range_valid: "ValidateEdgeCIDR ''10.0.0.0/30'' [''10.9.0.0/16'', ''bad''] = Inr ()"
  by (simp add: ValidateEdgeCIDR_def reserved_nets_def List.map_filter_simps IsDangerousCIDR_def go_eval)

lemma edge_range_trim: "trim_space ''10.0.0.0/30'' = ''10.0.0.0/30''"
  by (simp add: trim_space_def trim_def trim_right_def is_space_def)

theorem edge_addresses_isolated_witness:
  "\<exists>out s a. AllocateDeviceIPs ''10.0.0.0/30'' edge_claims = Inr out \<and> out ''k2'' = Some s \<and> s = string_of_ip a
     \<and> (\<forall>r \<in> set (reserved_nets [''10.9.0.0/16'', ''bad''] @ dangerousNets). \<not> Contains r a)"
proof -
  let ?n = "\<lparr>net_IP = IP4 0xA000000, net_Mask = CIDRMask 30 32\<rparr>"
  obtain out where out: "AllocateDeviceIPs ''10.0.0.0/30'' edge_claims = Inr out"
    using edge_allocates by blast
  have n: "parse_net (trim_space ''10.0.0.0/30'') = Some ?n" "pool_plain ?n" "distinct (map dc_Key edge_claims)"
    by (simp_all add: parse_net_def edge_range_trim shop_pool pool_plain_def edge_claims_def)
  have p: "ParseCIDR (trim_space ''10.0.0.0/30'') = Inr (IP16 (v4_in_v6 0xA000000), ?n)"
    by (simp add: edge_range_trim shop_pool)
  have "''k2'' \<in> dom out"
    unfolding AllocateDeviceIPs_assigns(1) [OF p n(2,3) out] by (simp add: edge_claims_def)
  then obtain s where s: "out ''k2'' = Some s" by blast
  show ?thesis using edge_addresses_isolated [OF edge_range_valid n out s] out s by blast
qed

theorem device_peers_spoof_free_witness:
  "\<exists>out s s' p p'. AllocateDeviceIPs ''10.0.0.0/30'' edge_claims = Inr out \<and> out ''k1'' = Some s \<and> out ''k2'' = Some s'
     \<and> PlanDevicePeer accept_key ''k1'' s = Inr p \<and> PlanDevicePeer accept_key ''k2'' s' = Inr p'
     \<and> (\<exists>q q' m m'. dp_AllowedIPs p = [q] \<and> dp_AllowedIPs p' = [q'] \<and> parse_net q = Some m \<and> parse_net q' = Some m'
          \<and> \<not> (\<exists>a. Contains m a \<and> Contains m' a))"
proof -
  let ?n = "\<lparr>net_IP = IP4 0xA000000, net_Mask = CIDRMask 30 32\<rparr>"
  obtain out where out: "AllocateDeviceIPs ''10.0.0.0/30'' edge_claims = Inr out"
    using edge_allocates by blast
  have p: "ParseCIDR (trim_space ''10.0.0.0/30'') = Inr (IP16 (v4_in_v6 0xA000000), ?n)"
    and d: "distinct (map dc_Key edge_claims)" and plain: "pool_plain ?n"
    by (simp_all add: edge_range_trim shop_pool edge_claims_def pool_plain_def)
  note A = AllocateDeviceIPs_assigns [OF p plain d out]
  have "''k1'' \<in> dom out" "''k2'' \<in> dom out" unfolding A(1) by (simp_all add: edge_claims_def)
  then obtain s s' where s: "out ''k1'' = Some s" "out ''k2'' = Some s'" by blast
  have "host_of ?n s" "host_of ?n s'" using A(3) s by (fastforce simp: edge_claims_def)+
  then obtain w w' where "s = string_of_ip w" "s' = string_of_ip w'" by (auto simp: host_of_def)
  then obtain q q' where q: "PlanDevicePeer accept_key ''k1'' s = Inr q" "PlanDevicePeer accept_key ''k2'' s' = Inr q'"
    by (simp add: PlanDevicePeer_def accept_key_def hostCIDR_string)
  have "''k1'' \<noteq> ''k2''" by simp
  from device_peers_spoof_free [OF p plain d out s this q] show ?thesis using out s q by blast
qed

end
