(* ===== verification/Netlink.thy ===== *)
theory Netlink
  imports Runs Go_Net
begin

text \<open>
  The interfaces to the kernel's network configuration that the peer data planes
  program: \<^verbatim>\<open>vishvananda/netlink\<close> for links, addresses and routes and \<^verbatim>\<open>wgctrl\<close> for
  the WireGuard device. Both are parameters of the managers, records of operations
  on an abstract state of the host that may fail at any call. The locale
  \<^verbatim>\<open>host_network\<close> states their documented behaviour on a view of that state; an
  in-memory host with a schedule of faults satisfies it.
\<close>

section \<open>Handles\<close>

text \<open>The managers tell only \<^verbatim>\<open>netlink.LinkNotFoundError\<close> from other errors.\<close>

datatype nl_error = LinkNotFoundError go_error | OtherError go_error

fun nl_text :: "nl_error \<Rightarrow> go_error" where
  "nl_text (LinkNotFoundError e) = e"
| "nl_text (OtherError e) = e"

record Link =
  li_Index :: nat
  li_MTU :: int
  li_Up :: bool

record NlRoute =
  nr_Dst :: IPNet
  nr_Gw :: "ip option"
  nr_LinkIndex :: nat
  nr_OnLink :: bool
  nr_ScopeLink :: bool

record ('k, 'u) PeerConfig =
  pc_PublicKey :: 'k
  pc_Remove :: bool
  pc_Endpoint :: "'u option"
  pc_ReplaceAllowedIPs :: bool
  pc_AllowedIPs :: "IPNet list"
  pc_Keepalive :: "int option"

record ('k, 'u) WgConfig =
  wc_PrivateKey :: "'k option"
  wc_ListenPort :: "int option"
  wc_ReplacePeers :: bool
  wc_Peers :: "('k, 'u) PeerConfig list"

text \<open>What \<^verbatim>\<open>wgctrl\<close> reports of a peer: its key and the time of the last handshake in
  Unix seconds, absent for the zero time.\<close>

record 'k PeerState =
  ps_PublicKey :: 'k
  ps_LastHandshake :: "int option"

record ('s, 'k, 'u) host =
  h_LinkByName :: "string \<Rightarrow> 's \<Rightarrow> (nl_error + Link) \<times> 's"
  h_LinkAdd :: "string \<Rightarrow> 's \<Rightarrow> unit result \<times> 's"
  h_LinkSetMTU :: "Link \<Rightarrow> int \<Rightarrow> 's \<Rightarrow> unit result \<times> 's"
  h_LinkSetUp :: "Link \<Rightarrow> 's \<Rightarrow> unit result \<times> 's"
  h_ParseAddr :: "string \<Rightarrow> IPNet result"
  h_AddrReplace :: "Link \<Rightarrow> IPNet \<Rightarrow> 's \<Rightarrow> unit result \<times> 's"
  h_AddrList :: "Link \<Rightarrow> 's \<Rightarrow> ip option list result \<times> 's"
  h_RouteReplace :: "NlRoute \<Rightarrow> 's \<Rightarrow> unit result \<times> 's"
  h_RouteDel :: "NlRoute \<Rightarrow> 's \<Rightarrow> unit result \<times> 's"
  h_ConfigureDevice :: "string \<Rightarrow> ('k, 'u) WgConfig \<Rightarrow> 's \<Rightarrow> (nl_error + unit) \<times> 's"
  h_Device :: "string \<Rightarrow> 's \<Rightarrow> 'k PeerState list result \<times> 's"

section \<open>What the kernel promises\<close>

text \<open>The view: routes by destination with gateway and output link, and the allowed
  addresses of the peers of the device.\<close>

type_synonym route_entry = "ip option \<times> nat"

record 'k netview =
  v_routes :: "IPNet \<rightharpoonup> route_entry"
  v_peers :: "'k \<rightharpoonup> IPNet list"

definition nl_matches :: "NlRoute \<Rightarrow> route_entry \<Rightarrow> bool" where
  "nl_matches r e \<longleftrightarrow> (nr_Gw r = None \<or> nr_Gw r = fst e) \<and> (nr_LinkIndex r = 0 \<or> nr_LinkIndex r = snd e)"

text \<open>Cryptokey routing: an address that a peer is given is taken from the others.\<close>

definition set_peer :: "'k \<Rightarrow> IPNet list \<Rightarrow> ('k \<rightharpoonup> IPNet list) \<Rightarrow> ('k \<rightharpoonup> IPNet list)" where
  "set_peer k nets peers = (\<lambda>j. if j = k then Some nets
     else map_option (filter (\<lambda>n. n \<notin> set nets)) (peers j))"

fun apply_peers :: "('k, 'u) PeerConfig list \<Rightarrow> ('k \<rightharpoonup> IPNet list) \<Rightarrow> ('k \<rightharpoonup> IPNet list)" where
  "apply_peers [] peers = peers"
| "apply_peers (c # cs) peers = apply_peers cs
     (if pc_Remove c then peers(pc_PublicKey c := None)
      else set_peer (pc_PublicKey c)
        (if pc_ReplaceAllowedIPs c then pc_AllowedIPs c
         else (case peers (pc_PublicKey c) of None \<Rightarrow> [] | Some old \<Rightarrow> old) @ pc_AllowedIPs c) peers)"

text \<open>The laws: interface indexes are positive; calls that only concern links and addresses change neither routes nor
  peers; a failed call changes nothing; \<^verbatim>\<open>RouteReplace\<close> adds or overwrites the route
  of its destination; \<^verbatim>\<open>RouteDel\<close> removes a matching route and reports \<^verbatim>\<open>ESRCH\<close> only
  when there is none; \<^verbatim>\<open>ConfigureDevice\<close> applies the peer configurations in order.\<close>

locale host_network =
  fixes host :: "('s, 'k, 'u) host" and view :: "'s \<Rightarrow> 'k netview"
  assumes LinkByName_law: "h_LinkByName host name s = (rl, s') \<Longrightarrow>
      view s' = view s \<and> (\<forall>link. rl = Inr link \<longrightarrow> 0 < li_Index link)"
    and LinkAdd_law: "query_law view (h_LinkAdd host name) (\<lambda>_ _. True)"
    and LinkSetMTU_law: "query_law view (h_LinkSetMTU host l m) (\<lambda>_ _. True)"
    and LinkSetUp_law: "query_law view (h_LinkSetUp host l) (\<lambda>_ _. True)"
    and AddrReplace_law: "query_law view (h_AddrReplace host l a) (\<lambda>_ _. True)"
    and RouteReplace_law: "command_law view (h_RouteReplace host rt)
      (\<lambda>v v'. \<exists>l. (nr_LinkIndex rt \<noteq> 0 \<longrightarrow> l = nr_LinkIndex rt) \<and>
         v' = v\<lparr>v_routes := (v_routes v)(nr_Dst rt \<mapsto> (nr_Gw rt, l))\<rparr>)"
    and RouteDel_law: "h_RouteDel host rt s = (r, s') \<Longrightarrow> (case r of
        Inl e \<Rightarrow> view s' = view s \<and> (e = ''no such process'' \<longrightarrow>
                  (\<forall>x. v_routes (view s) (nr_Dst rt) = Some x \<longrightarrow> \<not> nl_matches rt x))
      | Inr _ \<Rightarrow> (\<exists>x. v_routes (view s) (nr_Dst rt) = Some x \<and> nl_matches rt x) \<and>
                 view s' = (view s)\<lparr>v_routes := (v_routes (view s))(nr_Dst rt := None)\<rparr>)"
    and ConfigureDevice_law: "h_ConfigureDevice host name cfg s = (rc, s') \<Longrightarrow> (case rc of
        Inl e \<Rightarrow> view s' = view s
      | Inr _ \<Rightarrow> \<not> wc_ReplacePeers cfg \<longrightarrow>
          view s' = (view s)\<lparr>v_peers := apply_peers (wc_Peers cfg) (v_peers (view s))\<rparr>)"
    and Device_law: "query_law view (h_Device host name) (\<lambda>ps v. ps_PublicKey ` set ps = dom (v_peers v))"

section \<open>An in-memory host with faults\<close>

record memhost =
  mh_link :: "Link option"
  mh_routes :: "(IPNet \<times> route_entry) list"
  mh_peers :: "(string \<times> IPNet list) list"
  mh_faults :: "bool list"

definition mh_view :: "memhost \<Rightarrow> string netview" where
  "mh_view m = \<lparr>v_routes = map_of (mh_routes m), v_peers = map_of (mh_peers m)\<rparr>"

text \<open>One call: the next entry of the schedule says whether it fails.\<close>

definition mh_step :: "(memhost \<Rightarrow> 'a result \<times> memhost) \<Rightarrow> memhost \<Rightarrow> 'a result \<times> memhost" where
  "mh_step f m = (let m' = m\<lparr>mh_faults := tl (mh_faults m)\<rparr> in
     if mh_faults m \<noteq> [] \<and> hd (mh_faults m) then (Inl ''operation not permitted'', m') else f m')"

definition mh_nl :: "'a result \<times> memhost \<Rightarrow> (nl_error + 'a) \<times> memhost" where
  "mh_nl x = (case x of (Inl e, m) \<Rightarrow> (Inl (OtherError e), m) | (Inr a, m) \<Rightarrow> (Inr a, m))"

definition mh_set_peer :: "string \<Rightarrow> IPNet list \<Rightarrow> (string \<times> IPNet list) list \<Rightarrow> (string \<times> IPNet list) list" where
  "mh_set_peer k nets ps = (k, nets) # map (\<lambda>(j, ns). (j, filter (\<lambda>n. n \<notin> set nets) ns)) (filter (\<lambda>(j, _). j \<noteq> k) ps)"

fun mh_apply :: "(string, 'u) PeerConfig list \<Rightarrow> (string \<times> IPNet list) list \<Rightarrow> (string \<times> IPNet list) list" where
  "mh_apply [] ps = ps"
| "mh_apply (c # cs) ps = mh_apply cs
     (if pc_Remove c then filter (\<lambda>(j, _). j \<noteq> pc_PublicKey c) ps
      else mh_set_peer (pc_PublicKey c)
        (if pc_ReplaceAllowedIPs c then pc_AllowedIPs c
         else (case map_of ps (pc_PublicKey c) of None \<Rightarrow> [] | Some old \<Rightarrow> old) @ pc_AllowedIPs c) ps)"

definition mem_host :: "(memhost, string, string) host" where
  "mem_host = \<lparr>
     h_LinkByName = (\<lambda>name m. case mh_link m of
        None \<Rightarrow> (Inl (LinkNotFoundError ''Link not found''), m)
      | Some l \<Rightarrow> mh_nl (mh_step (\<lambda>m. (Inr (l\<lparr>li_Index := 7\<rparr>), m)) m)),
     h_LinkAdd = (\<lambda>name. mh_step (\<lambda>m. (Inr (), m\<lparr>mh_link := Some \<lparr>li_Index = 7, li_MTU = 1420, li_Up = False\<rparr>\<rparr>))),
     h_LinkSetMTU = (\<lambda>l mtu. mh_step (\<lambda>m. (Inr (), m\<lparr>mh_link := map_option (\<lambda>l. l\<lparr>li_MTU := mtu\<rparr>) (mh_link m)\<rparr>))),
     h_LinkSetUp = (\<lambda>l. mh_step (\<lambda>m. (Inr (), m\<lparr>mh_link := map_option (\<lambda>l. l\<lparr>li_Up := True\<rparr>) (mh_link m)\<rparr>))),
     h_ParseAddr = (\<lambda>s. case ParseCIDR s of Inl e \<Rightarrow> Inl e | Inr (x, n) \<Rightarrow> Inr \<lparr>net_IP = x, net_Mask = net_Mask n\<rparr>),
     h_AddrReplace = (\<lambda>l a. mh_step (\<lambda>m. (Inr (), m))),
     h_AddrList = (\<lambda>l. mh_step (\<lambda>m. (Inr [], m))),
     h_RouteReplace = (\<lambda>rt. mh_step (\<lambda>m. (Inr (), m\<lparr>mh_routes := (nr_Dst rt, (nr_Gw rt, nr_LinkIndex rt)) # mh_routes m\<rparr>))),
     h_RouteDel = (\<lambda>rt. mh_step (\<lambda>m. case map_of (mh_routes m) (nr_Dst rt) of
        None \<Rightarrow> (Inl ''no such process'', m)
      | Some x \<Rightarrow> if nl_matches rt x then (Inr (), m\<lparr>mh_routes := filter (\<lambda>(d, _). d \<noteq> nr_Dst rt) (mh_routes m)\<rparr>)
                  else (Inl ''no such process'', m))),
     h_ConfigureDevice = (\<lambda>name cfg m. mh_nl (mh_step (\<lambda>m. (Inr (), m\<lparr>mh_peers := mh_apply (wc_Peers cfg) (mh_peers m)\<rparr>)) m)),
     h_Device = (\<lambda>name. mh_step (\<lambda>m. (Inr (map (\<lambda>(k, _). \<lparr>ps_PublicKey = k, ps_LastHandshake = None\<rparr>) (mh_peers m)), m)))\<rparr>"

lemma mh_view_faults [simp]: "mh_view (m\<lparr>mh_faults := fs\<rparr>) = mh_view m"
  by (simp add: mh_view_def)

lemma mh_view_link [simp]: "mh_view (m\<lparr>mh_link := l\<rparr>) = mh_view m"
  by (simp add: mh_view_def)

lemma mh_step_cases:
  assumes "mh_step f m = (r, m')"
  shows "(\<exists>e. r = Inl e \<and> e \<noteq> ''no such process'' \<and> mh_view m' = mh_view m) \<or> (\<exists>m0. mh_view m0 = mh_view m \<and> f m0 = (r, m'))"
  using assms by (auto simp: mh_step_def Let_def split: if_splits)

lemma map_of_filter_neq: "map_of (filter (\<lambda>(j, _). j \<noteq> k) ps) = (map_of ps)(k := None)"
  by (induction ps) auto

lemma map_of_map_snd: "map_of (map (\<lambda>(j, ns). (j, f ns)) ps) j = map_option f (map_of ps j)"
  by (induction ps) auto

lemma mh_set_peer_view: "map_of (mh_set_peer k nets ps) = set_peer k nets (map_of ps)"
  by (auto simp: fun_eq_iff mh_set_peer_def set_peer_def map_of_map_snd map_of_filter_neq)

lemma mh_apply_view: "map_of (mh_apply cs ps) = apply_peers cs (map_of ps)"
  by (induction cs ps rule: mh_apply.induct) (simp_all add: mh_set_peer_view map_of_filter_neq fun_upd_def)

interpretation mem_net: host_network mem_host mh_view
proof unfold_locales
  fix rt s r s' assume "h_RouteDel mem_host rt s = (r, s')"
  then have "mh_step (\<lambda>m. case map_of (mh_routes m) (nr_Dst rt) of
        None \<Rightarrow> (Inl ''no such process'', m)
      | Some x \<Rightarrow> if nl_matches rt x then (Inr (), m\<lparr>mh_routes := filter (\<lambda>(d, _). d \<noteq> nr_Dst rt) (mh_routes m)\<rparr>)
                  else (Inl ''no such process'', m)) s = (r, s')" by (simp add: mem_host_def)
  from mh_step_cases [OF this] show "case r of
        Inl e \<Rightarrow> mh_view s' = mh_view s \<and> (e = ''no such process'' \<longrightarrow>
                  (\<forall>x. v_routes (mh_view s) (nr_Dst rt) = Some x \<longrightarrow> \<not> nl_matches rt x))
      | Inr _ \<Rightarrow> (\<exists>x. v_routes (mh_view s) (nr_Dst rt) = Some x \<and> nl_matches rt x) \<and>
                 mh_view s' = (mh_view s)\<lparr>v_routes := (v_routes (mh_view s))(nr_Dst rt := None)\<rparr>"
  proof (elim disjE exE conjE)
    fix m0 assume v: "mh_view m0 = mh_view s" and run: "(case map_of (mh_routes m0) (nr_Dst rt) of
        None \<Rightarrow> (Inl ''no such process'', m0)
      | Some x \<Rightarrow> if nl_matches rt x then (Inr (), m0\<lparr>mh_routes := filter (\<lambda>(d, _). d \<noteq> nr_Dst rt) (mh_routes m0)\<rparr>)
                  else (Inl ''no such process'', m0)) = (r, s')"
    show ?thesis
    proof (cases "map_of (mh_routes m0) (nr_Dst rt)")
      case (Some x)
      then show ?thesis using v run
        by (cases "nl_matches rt x") (auto simp: mh_view_def map_of_filter_neq fun_upd_def)
    qed (use v run in \<open>auto simp: mh_view_def\<close>)
  qed auto
next
  fix name :: string and cfg :: "(string, string) WgConfig" and s r s'
  assume "h_ConfigureDevice mem_host name cfg s = (r, s')"
  then show "case r of Inl e \<Rightarrow> mh_view s' = mh_view s
      | Inr _ \<Rightarrow> \<not> wc_ReplacePeers cfg \<longrightarrow>
          mh_view s' = (mh_view s)\<lparr>v_peers := apply_peers (wc_Peers cfg) (v_peers (mh_view s))\<rparr>"
    by (auto simp: mem_host_def mh_nl_def mh_step_def Let_def mh_view_def mh_apply_view split: prod.splits sum.splits if_splits)
next
  fix name s r s' assume "h_LinkByName mem_host name s = (r, s')"
  then show "mh_view s' = mh_view s \<and> (\<forall>link. r = Inr link \<longrightarrow> 0 < li_Index link)"
    by (auto simp: mem_host_def mh_nl_def mh_step_def Let_def split: option.splits sum.splits if_splits)
next
  fix rt show "command_law mh_view (h_RouteReplace mem_host rt)
      (\<lambda>v v'. \<exists>l. (nr_LinkIndex rt \<noteq> 0 \<longrightarrow> l = nr_LinkIndex rt) \<and>
         v' = v\<lparr>v_routes := (v_routes v)(nr_Dst rt \<mapsto> (nr_Gw rt, l))\<rparr>)"
    by (auto simp: command_law_def mem_host_def mh_step_def Let_def mh_view_def split: sum.splits if_splits)
next
  fix name show "query_law mh_view (h_Device mem_host name) (\<lambda>ps v. ps_PublicKey ` set ps = dom (v_peers v))"
    by (force simp: query_law_def mem_host_def mh_step_def Let_def mh_view_def dom_map_of_conv_image_fst split: if_splits)
qed (auto simp: query_law_def mem_host_def mh_step_def Let_def split: if_splits)

end
