(* ===== verification/Peer_Planes.thy ===== *)
theory Peer_Planes
  imports Netlink
begin

text \<open>
  The two implementations of the interface \<^verbatim>\<open>PeerDataPlane\<close> of the peer controller:
  \<^verbatim>\<open>pkg/routed\<close>, which steers the ranges of a peer at an existing overlay, and
  \<^verbatim>\<open>pkg/wg\<close>, which owns a WireGuard device. Both are runs over the network of the
  host; the record of the routes of each peer is part of the state.
\<close>

section \<open>Calls from a manager\<close>

text \<open>A call on the host part of a manager's state.\<close>

definition lift_call :: "('m \<Rightarrow> 's) \<Rightarrow> ('s \<Rightarrow> 'm \<Rightarrow> 'm) \<Rightarrow> ('s \<Rightarrow> 'a \<times> 's) \<Rightarrow> 'm \<Rightarrow> 'a \<times> 'm" where
  "lift_call get put f m = (case f (get m) of (r, h) \<Rightarrow> (r, put h m))"

text \<open>A call whose error is inspected by its type.\<close>

definition call_nl :: "('s \<Rightarrow> (nl_error + 'a) \<times> 's) \<Rightarrow> ('s, nl_error + 'a) run" where
  "call_nl f = call (\<lambda>s. case f s of (r, s') \<Rightarrow> (Inr r, s'))"

text \<open>Both managers install routes one by one and withdraw what the call added when one
  fails.\<close>

fun install_loop :: "('x \<Rightarrow> ('m, unit) run) \<Rightarrow> ('y list \<Rightarrow> ('m, unit) run) \<Rightarrow> ('x \<Rightarrow> 'y) \<Rightarrow> 'x list \<Rightarrow> 'y list \<Rightarrow> ('m, 'y list) run" where
  "install_loop put undo name [] installed = ret installed"
| "install_loop put undo name (x # xs) installed =
     seq (on_error (put x) (\<lambda>e. seq (undo installed) (failing e)))
       (install_loop put undo name xs (installed @ [name x]))"

section \<open>Routes over an existing overlay\<close>

record Route =
  rt_Dest :: string
  rt_Via :: string

fun plan_routes_loop :: "ip \<Rightarrow> string \<Rightarrow> string list \<Rightarrow> Route list \<Rightarrow> Route list result" where
  "plan_routes_loop viaIP via [] out = Inr out"
| "plan_routes_loop viaIP via (c # cs) out =
     (if c = '''' then plan_routes_loop viaIP via cs out
      else case ParseCIDR c of
        Inl e \<Rightarrow> Inl (''invalid routed CIDR '' @ quote c @ '': '' @ e)
      | Inr (_, ipnet) \<Rightarrow>
          if (To4 (net_IP ipnet) \<noteq> None) \<noteq> (To4 viaIP \<noteq> None)
          then Inl (''address family mismatch: CIDR '' @ string_of_net ipnet @ '' via '' @ via)
          else if string_of_net ipnet \<in> rt_Dest ` set out then plan_routes_loop viaIP via cs out
          else plan_routes_loop viaIP via cs (out @ [\<lparr>rt_Dest = string_of_net ipnet, rt_Via = string_of_ip viaIP\<rparr>]))"

definition PlanRoutes :: "string list \<Rightarrow> string \<Rightarrow> Route list result" where
  "PlanRoutes allowedIPs via = (case ParseIP via of
      None \<Rightarrow> Inl (''overlay next-hop '' @ quote via @ '' is not a valid IP address'')
    | Some viaIP \<Rightarrow>
        (case plan_routes_loop viaIP via allowedIPs [] of
           Inl e \<Rightarrow> Inl e
         | Inr out \<Rightarrow> Inr (sort_key rt_Dest out)))"

definition hostOnly :: "string \<Rightarrow> string" where
  "hostOnly endpoint = (case SplitHostPort endpoint of Inr (host, _) \<Rightarrow> host | Inl _ \<Rightarrow> endpoint)"

text \<open>\<^verbatim>\<open>net.IP.IsGlobalUnicast\<close> and \<^verbatim>\<open>net.IP.IsLinkLocalUnicast\<close>.\<close>

definition IsLinkLocalUnicast :: "ip \<Rightarrow> bool" where
  "IsLinkLocalUnicast x = (case To4 x of
      Some a \<Rightarrow> drop_bit 16 a = 0xA9FE
    | None \<Rightarrow> drop_bit 118 (To16 x) = 0x3FA)"

definition IsGlobalUnicast :: "ip \<Rightarrow> bool" where
  "IsGlobalUnicast x \<longleftrightarrow>
     (case To4 x of
        Some a \<Rightarrow> a \<noteq> 0xFFFFFFFF \<and> a \<noteq> 0 \<and> drop_bit 24 a \<noteq> 127 \<and> drop_bit 28 a \<noteq> 0xE
      | None \<Rightarrow> To16 x \<noteq> 0 \<and> To16 x \<noteq> 1 \<and> drop_bit 120 (To16 x) \<noteq> 0xFF)
     \<and> \<not> IsLinkLocalUnicast x"

fun select_overlay :: "bool \<Rightarrow> ip option list \<Rightarrow> string \<Rightarrow> string" where
  "select_overlay preferV6 [] fallback = fallback"
| "select_overlay preferV6 (None # as) fallback = select_overlay preferV6 as fallback"
| "select_overlay preferV6 (Some x # as) fallback =
     (if \<not> IsGlobalUnicast x \<or> IsLinkLocalUnicast x then select_overlay preferV6 as fallback
      else if (To4 x = None) = preferV6 then string_of_ip x
      else select_overlay preferV6 as (if fallback = '''' then string_of_ip x else fallback))"

definition SelectOverlayIP :: "ip option list \<Rightarrow> bool \<Rightarrow> string result" where
  "SelectOverlayIP addrs preferV6 = (let s = select_overlay preferV6 addrs '''' in
     if s \<noteq> '''' then Inr s
     else Inl (''no global-unicast address found among '' @ itoa (length addrs) @ '' interface addresses''))"

definition DiscoverOverlayIP :: "('s, 'k, 'u) host \<Rightarrow> string \<Rightarrow> ('s, string) run" where
  "DiscoverOverlayIP host iface =
     bind_run (call_nl (h_LinkByName host iface)) (\<lambda>r. case r of
       Inl e \<Rightarrow> failing (''routed: overlay interface '' @ quote iface @ '': '' @ nl_text e)
     | Inr link \<Rightarrow>
         bind_run (errorf (''routed: listing '' @ quote iface @ '' addresses'') (call (h_AddrList host link))) (\<lambda>addrs.
           case SelectOverlayIP addrs False of Inl e \<Rightarrow> failing e | Inr s \<Rightarrow> ret s))"

record 's routeOps =
  ro_Replace :: "Route \<Rightarrow> 's \<Rightarrow> unit result \<times> 's"
  ro_Delete :: "Route \<Rightarrow> 's \<Rightarrow> unit result \<times> 's"

definition isNoSuchRoute :: "go_error \<Rightarrow> bool" where
  "isNoSuchRoute e \<longleftrightarrow> e = ''no such process''"

definition netlink_route :: "nat \<Rightarrow> Route \<Rightarrow> NlRoute result" where
  "netlink_route linkIndex r = (case ParseCIDR (rt_Dest r) of
      Inl e \<Rightarrow> Inl e
    | Inr (_, dst) \<Rightarrow> Inr \<lparr>nr_Dst = dst, nr_Gw = ParseIP (rt_Via r), nr_LinkIndex = linkIndex,
        nr_OnLink = (linkIndex \<noteq> 0), nr_ScopeLink = False\<rparr>)"

definition netlinkOps_Replace :: "('s, 'k, 'u) host \<Rightarrow> nat \<Rightarrow> Route \<Rightarrow> 's \<Rightarrow> unit result \<times> 's" where
  "netlinkOps_Replace host linkIndex r s = (case netlink_route linkIndex r of
      Inl e \<Rightarrow> (Inl e, s) | Inr nr \<Rightarrow> h_RouteReplace host nr s)"

definition netlinkOps_Delete :: "('s, 'k, 'u) host \<Rightarrow> nat \<Rightarrow> Route \<Rightarrow> 's \<Rightarrow> unit result \<times> 's" where
  "netlinkOps_Delete host linkIndex r s = (case netlink_route linkIndex r of
      Inl e \<Rightarrow> (Inl e, s)
    | Inr nr \<Rightarrow> (case h_RouteDel host nr s of
         (Inl e, s') \<Rightarrow> if isNoSuchRoute e then (Inr (), s') else (Inl e, s')
       | (Inr _, s') \<Rightarrow> (Inr (), s')))"

definition netlinkOps :: "('s, 'k, 'u) host \<Rightarrow> nat \<Rightarrow> 's routeOps" where
  "netlinkOps host linkIndex = \<lparr>ro_Replace = netlinkOps_Replace host linkIndex, ro_Delete = netlinkOps_Delete host linkIndex\<rparr>"

definition newNetlinkOps :: "('s, 'k, 'u) host \<Rightarrow> string \<Rightarrow> ('s, nat) run" where
  "newNetlinkOps host overlayIface =
     (if overlayIface = '''' then ret 0
      else bind_run (call_nl (h_LinkByName host overlayIface)) (\<lambda>r. case r of
         Inl e \<Rightarrow> failing (''routed: overlay interface '' @ quote overlayIface @ '' not found: '' @ nl_text e)
       | Inr link \<Rightarrow> ret (li_Index link)))"

record 's routed =
  rm_peerRoutes :: "string \<rightharpoonup> Route list"
  rm_host :: 's

definition routed_NewManager :: "('s, 'k, 'u) host \<Rightarrow> string \<Rightarrow> 's \<Rightarrow> ('s routeOps \<times> 's routed) result" where
  "routed_NewManager host overlayIface s = (case outcome (newNetlinkOps host overlayIface) s of
      (Inl e, _) \<Rightarrow> Inl e
    | (Inr idx, s') \<Rightarrow> Inr (netlinkOps host idx, \<lparr>rm_peerRoutes = Map.empty, rm_host = s'\<rparr>))"

abbreviation on_routes :: "('s \<Rightarrow> 'a \<times> 's) \<Rightarrow> 's routed \<Rightarrow> 'a \<times> 's routed" where
  "on_routes \<equiv> lift_call rm_host (\<lambda>h m. m\<lparr>rm_host := h\<rparr>)"

definition peer_routes :: "string \<Rightarrow> 's routed \<Rightarrow> Route list" where
  "peer_routes peerKey m = (case rm_peerRoutes m peerKey of None \<Rightarrow> [] | Some rs \<Rightarrow> rs)"

definition deleteRoutes :: "'s routeOps \<Rightarrow> Route list \<Rightarrow> ('s routed, unit) run" where
  "deleteRoutes ops = for_each (\<lambda>r. attempt (call (on_routes (ro_Delete ops r))))"

definition containsRoute :: "Route list \<Rightarrow> Route \<Rightarrow> bool" where
  "containsRoute rs want \<longleftrightarrow> want \<in> set rs"

definition install_route :: "'s routeOps \<Rightarrow> Route \<Rightarrow> ('s routed, unit) run" where
  "install_route ops r = errorf (''routed: installing route '' @ rt_Dest r @ '' via '' @ rt_Via r) (call (on_routes (ro_Replace ops r)))"

definition withdraw_stale :: "'s routeOps \<Rightarrow> Route list \<Rightarrow> Route list \<Rightarrow> ('s routed, unit) run" where
  "withdraw_stale ops desired = for_each (\<lambda>old.
     if \<not> containsRoute desired old then attempt (call (on_routes (ro_Delete ops old))) else ret ())"

definition routed_ConfigurePeer :: "'s routeOps \<Rightarrow> string \<Rightarrow> string \<Rightarrow> string list \<Rightarrow> ('s routed, unit) run" where
  "routed_ConfigurePeer ops peerKey endpoint allowedIPs =
     (case PlanRoutes allowedIPs (hostOnly endpoint) of
        Inl e \<Rightarrow> failing (''routed: peer '' @ peerKey @ '': '' @ e)
      | Inr desired \<Rightarrow>
          bind_run (install_loop (install_route ops) (deleteRoutes ops) id desired []) (\<lambda>installed.
            seq (bind_run (gets (peer_routes peerKey)) (withdraw_stale ops desired))
              (modify (\<lambda>m. m\<lparr>rm_peerRoutes := (rm_peerRoutes m)(peerKey \<mapsto> installed)\<rparr>))))"

definition routed_RemovePeer :: "'s routeOps \<Rightarrow> string \<Rightarrow> ('s routed, unit) run" where
  "routed_RemovePeer ops peerKey =
     seq (bind_run (gets (peer_routes peerKey)) (deleteRoutes ops))
       (modify (\<lambda>m. m\<lparr>rm_peerRoutes := (rm_peerRoutes m)(peerKey := None)\<rparr>))"

definition routed_PeerHandshake :: "string \<Rightarrow> ('s routed, int) run" where
  "routed_PeerHandshake peerKey = ret 0"

section \<open>The WireGuard device\<close>

definition DefaultInterfaceName :: string where "DefaultInterfaceName = ''dwx-mesh0''"
definition DefaultListenPort :: int where "DefaultListenPort = 51820"
definition persistentKeepalive :: int where "persistentKeepalive = 25 * 1000000000"

record 's WireGuardManager =
  wm_ifaceName :: string
  wm_listenPort :: int
  wm_keepalive :: int
  wm_mtu :: int
  wm_addrs :: "string list"
  wm_peerRoutes :: "string \<rightharpoonup> string list"
  wm_host :: 's

definition WithListenPort :: "int \<Rightarrow> 's WireGuardManager \<Rightarrow> 's WireGuardManager" where
  "WithListenPort port m = (if port > 0 then m\<lparr>wm_listenPort := port\<rparr> else m)"

definition WithKeepalive :: "int \<Rightarrow> 's WireGuardManager \<Rightarrow> 's WireGuardManager" where
  "WithKeepalive d m = (if d > 0 then m\<lparr>wm_keepalive := d\<rparr> else m)"

definition WithMTU :: "int \<Rightarrow> 's WireGuardManager \<Rightarrow> 's WireGuardManager" where
  "WithMTU mtu m = (if mtu > 0 then m\<lparr>wm_mtu := mtu\<rparr> else m)"

definition WithAddress :: "string list \<Rightarrow> 's WireGuardManager \<Rightarrow> 's WireGuardManager" where
  "WithAddress addrs m = m\<lparr>wm_addrs := wm_addrs m @ filter (\<lambda>a. a \<noteq> '''') (map trim_space addrs)\<rparr>"

text \<open>\<^verbatim>\<open>wgctrl.New\<close> is the parameter \<open>open_client\<close>.\<close>

definition NewWireGuardManager ::
  "('s \<Rightarrow> unit result \<times> 's) \<Rightarrow> string \<Rightarrow> ('s WireGuardManager \<Rightarrow> 's WireGuardManager) list \<Rightarrow> 's \<Rightarrow> 's WireGuardManager result" where
  "NewWireGuardManager open_client ifaceName opts s = (case open_client s of
      (Inl e, _) \<Rightarrow> Inl (''wg: opening wgctrl client (is the wireguard kernel module loaded?): '' @ e)
    | (Inr _, s') \<Rightarrow> Inr (fold (\<lambda>opt m. opt m) opts
        \<lparr>wm_ifaceName = (if ifaceName = '''' then DefaultInterfaceName else ifaceName),
         wm_listenPort = DefaultListenPort, wm_keepalive = persistentKeepalive, wm_mtu = 0, wm_addrs = [],
         wm_peerRoutes = Map.empty, wm_host = s'\<rparr>))"

abbreviation on_wg :: "('s \<Rightarrow> 'a \<times> 's) \<Rightarrow> 's WireGuardManager \<Rightarrow> 'a \<times> 's WireGuardManager" where
  "on_wg \<equiv> lift_call wm_host (\<lambda>h m. m\<lparr>wm_host := h\<rparr>)"

definition wg_shortKey :: "string \<Rightarrow> string" where
  "wg_shortKey k = (if length k \<le> 8 then k
     else take 8 k @ [char_of (226 :: nat), char_of (128 :: nat), char_of (166 :: nat)])"

definition isLinkNotFound :: "nl_error \<Rightarrow> bool" where
  "isLinkNotFound e = (case e of LinkNotFoundError _ \<Rightarrow> True | OtherError _ \<Rightarrow> False)"

fun parseCIDRs :: "string list \<Rightarrow> IPNet list result" where
  "parseCIDRs [] = Inr []"
| "parseCIDRs (c # cs) = (case ParseCIDR c of
      Inl e \<Rightarrow> Inl (''invalid CIDR '' @ quote c @ '': '' @ e)
    | Inr (_, ipnet) \<Rightarrow> (case parseCIDRs cs of Inl e \<Rightarrow> Inl e | Inr ns \<Rightarrow> Inr (ipnet # ns)))"

definition ensureLinkLocked :: "('s, 'k, 'u) host \<Rightarrow> string \<Rightarrow> ('s WireGuardManager, Link) run" where
  "ensureLinkLocked host name =
     bind_run (call_nl (on_wg (h_LinkByName host name))) (\<lambda>r. case r of
       Inr link \<Rightarrow> ret link
     | Inl err \<Rightarrow>
         if \<not> isLinkNotFound err then failing (''wg: looking up link '' @ quote name @ '': '' @ nl_text err)
         else seq (errorf (''wg: creating wireguard link '' @ quote name) (call (on_wg (h_LinkAdd host name))))
           (bind_run (call_nl (on_wg (h_LinkByName host name))) (\<lambda>r. case r of
              Inr link \<Rightarrow> ret link
            | Inl err \<Rightarrow> failing (''wg: re-reading freshly created link '' @ quote name @ '': '' @ nl_text err))))"

definition wg_link_route :: "nat \<Rightarrow> IPNet \<Rightarrow> NlRoute" where
  "wg_link_route idx n = \<lparr>nr_Dst = n, nr_Gw = None, nr_LinkIndex = idx, nr_OnLink = False, nr_ScopeLink = True\<rparr>"

definition rollbackRoutesLocked :: "('s, 'k, 'u) host \<Rightarrow> nat \<Rightarrow> string list \<Rightarrow> ('s WireGuardManager, unit) run" where
  "rollbackRoutesLocked host linkIndex = for_each (\<lambda>c. case ParseCIDR c of
      Inl _ \<Rightarrow> ret ()
    | Inr (_, ipnet) \<Rightarrow> attempt (call (on_wg (h_RouteDel host (wg_link_route linkIndex ipnet)))))"

definition staleRoutes :: "string list \<Rightarrow> string list \<Rightarrow> string list" where
  "staleRoutes old current = filter (\<lambda>c. c \<notin> set current) old"

definition wg_recorded :: "string \<Rightarrow> 's WireGuardManager \<Rightarrow> string list" where
  "wg_recorded peerKey m = (case wm_peerRoutes m peerKey of None \<Rightarrow> [] | Some cs \<Rightarrow> cs)"

definition configure_device ::
  "('s, 'k, 'u) host \<Rightarrow> string \<Rightarrow> ('k, 'u) WgConfig \<Rightarrow> ('s WireGuardManager, nl_error + unit) run" where
  "configure_device host name cfg = call_nl (on_wg (h_ConfigureDevice host name cfg))"

definition wg_install :: "('s, 'k, 'u) host \<Rightarrow> string \<Rightarrow> nat \<Rightarrow> IPNet \<Rightarrow> ('s WireGuardManager, unit) run" where
  "wg_install host name idx n = errorf (''wg: installing route '' @ string_of_net n @ '' -> '' @ name)
     (call (on_wg (h_RouteReplace host (wg_link_route idx n))))"

fun assign_addrs :: "('s, 'k, 'u) host \<Rightarrow> string \<Rightarrow> Link \<Rightarrow> string list \<Rightarrow> ('s WireGuardManager, unit) run" where
  "assign_addrs host name link [] = ret ()"
| "assign_addrs host name link (a # as) = (case h_ParseAddr host a of
      Inl e \<Rightarrow> failing (''wg: parsing device address '' @ quote a @ '': invalid address '' @ quote a @
                 '' (want CIDR form, e.g. 10.244.255.254/32): '' @ e)
    | Inr addr \<Rightarrow> seq (errorf (''wg: assigning address '' @ a @ '' to '' @ quote name) (call (on_wg (h_AddrReplace host link addr))))
        (assign_addrs host name link as))"

text \<open>\<^verbatim>\<open>wgtypes.ParseKey\<close> and the resolver behind \<^verbatim>\<open>net.ResolveUDPAddr\<close> are the parameters
  \<open>parseKey\<close> and \<open>resolveUDP\<close>.\<close>

definition SyncInterface ::
  "('s, 'k, 'u) host \<Rightarrow> (string \<Rightarrow> 'k result) \<Rightarrow> string \<Rightarrow> ('s WireGuardManager, unit) run" where
  "SyncInterface host parseKey privateKey = (case parseKey privateKey of
      Inl e \<Rightarrow> failing (''wg: parsing node private key: '' @ e)
    | Inr key \<Rightarrow>
        bind_run (gets id) (\<lambda>m. bind_run (ensureLinkLocked host (wm_ifaceName m)) (\<lambda>link.
          seq (if wm_mtu m > 0 \<and> li_MTU link \<noteq> wm_mtu m
               then errorf (''wg: setting link '' @ quote (wm_ifaceName m) @ '' MTU to '' @ itoa_int (wm_mtu m))
                      (call (on_wg (h_LinkSetMTU host link (wm_mtu m))))
               else ret ())
         (bind_run (configure_device host (wm_ifaceName m)
             \<lparr>wc_PrivateKey = Some key, wc_ListenPort = Some (wm_listenPort m), wc_ReplacePeers = False, wc_Peers = []\<rparr>) (\<lambda>r. case r of
            Inl err \<Rightarrow> failing (''wg: configuring device '' @ quote (wm_ifaceName m) @ '' (key/port): '' @ nl_text err)
          | Inr _ \<Rightarrow>
              seq (if \<not> li_Up link
                   then errorf (''wg: setting link '' @ quote (wm_ifaceName m) @ '' up'') (call (on_wg (h_LinkSetUp host link)))
                   else ret ())
                (assign_addrs host (wm_ifaceName m) link (wm_addrs m)))))))"

definition peer_upsert :: "'k \<Rightarrow> 'u option \<Rightarrow> IPNet list \<Rightarrow> int \<Rightarrow> ('k, 'u) WgConfig" where
  "peer_upsert key endpoint nets keepalive = \<lparr>wc_PrivateKey = None, wc_ListenPort = None, wc_ReplacePeers = False,
     wc_Peers = [\<lparr>pc_PublicKey = key, pc_Remove = False, pc_Endpoint = endpoint, pc_ReplaceAllowedIPs = True,
                  pc_AllowedIPs = nets, pc_Keepalive = Some keepalive\<rparr>]\<rparr>"

definition peer_drop :: "'k \<Rightarrow> ('k, 'u) WgConfig" where
  "peer_drop key = \<lparr>wc_PrivateKey = None, wc_ListenPort = None, wc_ReplacePeers = False,
     wc_Peers = [\<lparr>pc_PublicKey = key, pc_Remove = True, pc_Endpoint = None, pc_ReplaceAllowedIPs = False,
                  pc_AllowedIPs = [], pc_Keepalive = None\<rparr>]\<rparr>"

definition resolve_endpoint :: "(string \<Rightarrow> 'u result) \<Rightarrow> string \<Rightarrow> 'u option result" where
  "resolve_endpoint resolveUDP endpoint =
     (if endpoint = '''' then Inr None
      else case resolveUDP endpoint of
        Inl e \<Rightarrow> Inl (''wg: resolving peer endpoint '' @ quote endpoint @ '': '' @ e)
      | Inr u \<Rightarrow> Inr (Some u))"

definition wg_program ::
  "('s, 'k, 'u) host \<Rightarrow> string \<Rightarrow> 'k \<Rightarrow> 'u option \<Rightarrow> IPNet list \<Rightarrow> ('s WireGuardManager, unit) run" where
  "wg_program host peerKey key udpEndpoint nets =
     bind_run (gets id) (\<lambda>m. bind_run (ensureLinkLocked host (wm_ifaceName m)) (\<lambda>link.
       bind_run (configure_device host (wm_ifaceName m) (peer_upsert key udpEndpoint nets (wm_keepalive m))) (\<lambda>r. case r of
         Inl err \<Rightarrow> failing (''wg: programming peer '' @ wg_shortKey peerKey @ '': '' @ nl_text err)
       | Inr _ \<Rightarrow>
           bind_run (install_loop (wg_install host (wm_ifaceName m) (li_Index link))
               (rollbackRoutesLocked host (li_Index link)) string_of_net nets []) (\<lambda>installed.
             seq (bind_run (gets (wg_recorded peerKey)) (\<lambda>old. rollbackRoutesLocked host (li_Index link) (staleRoutes old installed)))
               (modify (\<lambda>m. m\<lparr>wm_peerRoutes := (wm_peerRoutes m)(peerKey \<mapsto> installed)\<rparr>))))))"

definition wg_ConfigurePeer ::
  "('s, 'k, 'u) host \<Rightarrow> (string \<Rightarrow> 'k result) \<Rightarrow> (string \<Rightarrow> 'u result) \<Rightarrow> string \<Rightarrow> string \<Rightarrow> string list \<Rightarrow>
   ('s WireGuardManager, unit) run" where
  "wg_ConfigurePeer host parseKey resolveUDP peerKey endpoint allowedIPs = (case parseKey peerKey of
      Inl e \<Rightarrow> failing (''wg: parsing peer public key: '' @ e)
    | Inr key \<Rightarrow> (case parseCIDRs allowedIPs of
        Inl e \<Rightarrow> failing (''wg: peer '' @ wg_shortKey peerKey @ '': '' @ e)
      | Inr nets \<Rightarrow> (case resolve_endpoint resolveUDP endpoint of
          Inl e \<Rightarrow> failing e
        | Inr udpEndpoint \<Rightarrow> wg_program host peerKey key udpEndpoint nets)))"

definition forget_peer :: "string \<Rightarrow> ('s WireGuardManager, unit) run" where
  "forget_peer peerKey = modify (\<lambda>m. m\<lparr>wm_peerRoutes := (wm_peerRoutes m)(peerKey := None)\<rparr>)"

definition wg_RemovePeer ::
  "('s, 'k, 'u) host \<Rightarrow> (string \<Rightarrow> 'k result) \<Rightarrow> string \<Rightarrow> ('s WireGuardManager, unit) run" where
  "wg_RemovePeer host parseKey peerKey = (case parseKey peerKey of
      Inl e \<Rightarrow> failing (''wg: parsing peer public key for removal: '' @ e)
    | Inr key \<Rightarrow>
        bind_run (gets id) (\<lambda>m. bind_run (configure_device host (wm_ifaceName m) (peer_drop key)) (\<lambda>r. case r of
          Inl err \<Rightarrow>
            if isLinkNotFound err then forget_peer peerKey
            else failing (''wg: removing peer '' @ wg_shortKey peerKey @ '' from device: '' @ nl_text err)
        | Inr _ \<Rightarrow>
            seq (case wm_peerRoutes m peerKey of
                   None \<Rightarrow> ret ()
                 | Some cidrs \<Rightarrow> bind_run (call_nl (on_wg (h_LinkByName host (wm_ifaceName m)))) (\<lambda>r. case r of
                     Inr link \<Rightarrow> rollbackRoutesLocked host (li_Index link) cidrs
                   | Inl lerr \<Rightarrow> if \<not> isLinkNotFound lerr
                       then failing (''wg: looking up link for route cleanup: '' @ nl_text lerr) else ret ()))
              (forget_peer peerKey))))"

definition wg_PeerHandshake ::
  "('s, 'k, 'u) host \<Rightarrow> (string \<Rightarrow> 'k result) \<Rightarrow> string \<Rightarrow> ('s WireGuardManager, int) run" where
  "wg_PeerHandshake host parseKey peerKey = (case parseKey peerKey of
      Inl e \<Rightarrow> failing (''wg: parsing peer public key: '' @ e)
    | Inr key \<Rightarrow>
        bind_run (gets wm_ifaceName) (\<lambda>name.
          bind_run (errorf (''wg: reading device '' @ quote name) (call (on_wg (h_Device host name)))) (\<lambda>peers.
            ret (case find (\<lambda>p. ps_PublicKey p = key) peers of
                   None \<Rightarrow> 0
                 | Some p \<Rightarrow> (case ps_LastHandshake p of None \<Rightarrow> 0 | Some t \<Rightarrow> t)))))"

section \<open>What a route table promises\<close>

text \<open>Removing the route of a destination when it fits the description \<^verbatim>\<open>r\<close>.\<close>

definition drop_fit :: "(Route \<Rightarrow> 'e \<Rightarrow> bool) \<Rightarrow> Route \<Rightarrow> IPNet \<Rightarrow> (IPNet \<rightharpoonup> 'e) \<Rightarrow> (IPNet \<rightharpoonup> 'e)" where
  "drop_fit fits r n T = (case T n of Some e \<Rightarrow> if fits r e then T(n := None) else T | None \<Rightarrow> T)"

definition describes :: "(Route \<Rightarrow> 'e \<Rightarrow> bool) \<Rightarrow> Route \<Rightarrow> IPNet \<Rightarrow> 'e \<Rightarrow> bool" where
  "describes fits r n e \<longleftrightarrow> parse_net (rt_Dest r) = Some n \<and> fits r e"

lemma drop_fit_eq:
  assumes "parse_net (rt_Dest r) = Some n"
  shows "drop_fit fits r n T n' = Some e \<longleftrightarrow> T n' = Some e \<and> \<not> describes fits r n' e"
  using assms by (auto simp: drop_fit_def describes_def split: option.splits)

locale route_table =
  fixes ops :: "'s routeOps" and tbl :: "'s \<Rightarrow> IPNet \<rightharpoonup> 'e" and fits :: "Route \<Rightarrow> 'e \<Rightarrow> bool"
  assumes Replace_law: "command_law tbl (ro_Replace ops r)
      (\<lambda>T T'. \<exists>n e. describes fits r n e \<and> T' = T(n \<mapsto> e))"
    and Delete_law: "command_law tbl (ro_Delete ops r)
      (\<lambda>T T'. \<exists>n. parse_net (rt_Dest r) = Some n \<and> T' = drop_fit fits r n T)"
begin

abbreviation tab :: "'s routed \<Rightarrow> IPNet \<rightharpoonup> 'e" where
  "tab m \<equiv> tbl (rm_host m)"

text \<open>A withdrawal succeeds or fails and is logged.\<close>

lemma withdraw_outcome:
  assumes "outcome (attempt (call (on_routes (ro_Delete ops r)))) m = (x, m')"
  shows "x = Inr ()" "rm_peerRoutes m' = rm_peerRoutes m"
    "tab m' = tab m \<or> (\<exists>n. parse_net (rt_Dest r) = Some n \<and> tab m' = drop_fit fits r n (tab m))"
proof -
  obtain u h where d: "ro_Delete ops r (rm_host m) = (u, h)" by fastforce
  show "x = Inr ()" "rm_peerRoutes m' = rm_peerRoutes m"
    using assms d by (auto simp: run_simps lift_call_def)
  have "m' = m\<lparr>rm_host := h\<rparr>" using assms d by (auto simp: run_simps lift_call_def)
  then show "tab m' = tab m \<or> (\<exists>n. parse_net (rt_Dest r) = Some n \<and> tab m' = drop_fit fits r n (tab m))"
    using command_lawD [OF Delete_law d] by (cases u) auto
qed

end

text \<open>A handle whose withdrawals do not fail.\<close>

definition deletes_succeed :: "'s routeOps \<Rightarrow> bool" where
  "deletes_succeed ops \<longleftrightarrow> (\<forall>r s. parse_net (rt_Dest r) \<noteq> None \<longrightarrow> (\<exists>s'. ro_Delete ops r s = (Inr (), s')))"

context route_table begin

lemma withdraw_succeeds:
  assumes "deletes_succeed ops" "parse_net (rt_Dest r) = Some n"
    "outcome (attempt (call (on_routes (ro_Delete ops r)))) m = (x, m')"
  shows "rm_peerRoutes m' = rm_peerRoutes m" "tab m' n' = Some e \<longleftrightarrow> tab m n' = Some e \<and> \<not> describes fits r n' e"
proof -
  show "rm_peerRoutes m' = rm_peerRoutes m" using withdraw_outcome(2) [OF assms(3)] .
  obtain h where d: "ro_Delete ops r (rm_host m) = (Inr (), h)"
    using assms(1,2) unfolding deletes_succeed_def by blast
  then have "m' = m\<lparr>rm_host := h\<rparr>" using assms(3) by (auto simp: run_simps lift_call_def)
  then show "tab m' n' = Some e \<longleftrightarrow> tab m n' = Some e \<and> \<not> describes fits r n' e"
    using command_lawD(2) [OF Delete_law d] drop_fit_eq by fastforce
qed

lemma withdraw_all:
  assumes "deletes_succeed ops" "\<forall>r\<in>set rs. parse_net (rt_Dest r) \<noteq> None"
    "outcome (for_each (\<lambda>r. if P r then attempt (call (on_routes (ro_Delete ops r))) else ret ()) rs) m = (x, m')"
  shows "x = Inr () \<and> rm_peerRoutes m' = rm_peerRoutes m \<and>
    (\<forall>n e. tab m' n = Some e \<longleftrightarrow> tab m n = Some e \<and> \<not> (\<exists>r\<in>set rs. P r \<and> describes fits r n e))"
  using assms(2,3)
proof (induction rs arbitrary: m)
  case (Cons r rs)
  show ?case
  proof (cases "P r")
    case True
    obtain y m1 where one: "outcome (attempt (call (on_routes (ro_Delete ops r)))) m = (y, m1)" by fastforce
    then have y: "y = Inr ()" using withdraw_outcome(1) by blast
    obtain n where n: "parse_net (rt_Dest r) = Some n" using Cons.prems(1) by auto
    have "outcome (for_each (\<lambda>r. if P r then attempt (call (on_routes (ro_Delete ops r))) else ret ()) rs) m1 = (x, m')"
      using Cons.prems(2) True one y by (simp add: outcome_seq)
    from Cons.IH [OF _ this] Cons.prems(1) withdraw_succeeds [OF assms(1) n one] True show ?thesis by auto
  next
    case False
    then show ?thesis using Cons by (simp add: outcome_seq outcome_ret)
  qed
qed (simp add: outcome_ret)

lemma deleteRoutes_all:
  assumes "deletes_succeed ops" "\<forall>r\<in>set rs. parse_net (rt_Dest r) \<noteq> None"
    "outcome (deleteRoutes ops rs) m = (x, m')"
  shows "x = Inr () \<and> rm_peerRoutes m' = rm_peerRoutes m \<and>
    (\<forall>n e. tab m' n = Some e \<longleftrightarrow> tab m n = Some e \<and> \<not> (\<exists>r\<in>set rs. describes fits r n e))"
  using withdraw_all [OF assms(1,2), where P = "\<lambda>_. True"] assms(3) unfolding deleteRoutes_def by simp

lemma install_route_outcome:
  assumes "outcome (install_route ops r) m = (x, m')"
  shows "rm_peerRoutes m' = rm_peerRoutes m"
    "x = Inl err \<Longrightarrow> tab m' = tab m" "x = Inr u \<Longrightarrow> \<exists>n e. describes fits r n e \<and> tab m' = (tab m)(n \<mapsto> e)"
proof -
  obtain y h where d: "ro_Replace ops r (rm_host m) = (y, h)" by fastforce
  then have m': "m' = m\<lparr>rm_host := h\<rparr>" "x = Inl err \<Longrightarrow> \<exists>e. y = Inl e" "x = Inr u \<Longrightarrow> y = Inr ()" for err u
    using assms by (auto simp: install_route_def run_simps lift_call_def split: sum.splits)
  show "rm_peerRoutes m' = rm_peerRoutes m" using m'(1) by simp
  show "x = Inl err \<Longrightarrow> tab m' = tab m" "x = Inr u \<Longrightarrow> \<exists>n e. describes fits r n e \<and> tab m' = (tab m)(n \<mapsto> e)"
    using command_lawD [OF Replace_law d] m' by auto
qed

text \<open>Installing: either everything is there, or what the call added is gone again.\<close>

lemma install_loop_outcome:
  assumes "deletes_succeed ops" "\<forall>r\<in>set (inst @ rs). parse_net (rt_Dest r) \<noteq> None"
    and "\<And>n e. tab m n = Some e \<Longrightarrow> (\<exists>r\<in>set inst. describes fits r n e) \<or> T0 n = Some e"
    and "outcome (install_loop (install_route ops) (deleteRoutes ops) id rs inst) m = (x, m')"
  shows "rm_peerRoutes m' = rm_peerRoutes m \<and>
    (case x of Inl _ \<Rightarrow> (\<forall>n e. tab m' n = Some e \<longrightarrow> T0 n = Some e)
     | Inr i \<Rightarrow> i = inst @ rs \<and> (\<forall>n e. tab m' n = Some e \<longrightarrow> (\<exists>r\<in>set (inst @ rs). describes fits r n e) \<or> T0 n = Some e))"
  using assms(2-4)
proof (induction rs arbitrary: inst m)
  case Nil
  then show ?case by (auto simp: run_simps)
next
  case (Cons r rs)
  obtain y m1 where one: "outcome (install_route ops r) m = (y, m1)" by fastforce
  note io = install_route_outcome [OF one]
  show ?case
  proof (cases y)
    case (Inl e)
    obtain z m2 where undo: "outcome (deleteRoutes ops inst) m1 = (z, m2)" by fastforce
    have del: "z = Inr () \<and> rm_peerRoutes m2 = rm_peerRoutes m1 \<and>
      (\<forall>n e. tab m2 n = Some e \<longleftrightarrow> tab m1 n = Some e \<and> \<not> (\<exists>r\<in>set inst. describes fits r n e))"
      using deleteRoutes_all [OF assms(1) _ undo] Cons.prems(1) by simp
    then have "x = Inl e" "m' = m2" using Cons.prems(3) one undo Inl by (auto simp: run_simps)
    then show ?thesis using del io Inl Cons.prems(2) by simp blast
  next
    case (Inr u)
    obtain n e where ne: "describes fits r n e" "tab m1 = (tab m)(n \<mapsto> e)" using io(3) [OF Inr] by blast
    have run: "outcome (install_loop (install_route ops) (deleteRoutes ops) id rs (inst @ [r])) m1 = (x, m')"
      using Cons.prems(3) one Inr by (simp add: run_simps id_def)
    have J: "tab m1 n' = Some e' \<Longrightarrow> (\<exists>r\<in>set (inst @ [r]). describes fits r n' e') \<or> T0 n' = Some e'" for n' e'
      using Cons.prems(2) [of n' e'] ne by (auto split: if_splits)
    show ?thesis using Cons.IH [OF _ J run] Cons.prems(1) io(1) by (cases x) simp_all
  qed
qed

end

text \<open>The plan of routes: canonical destinations that parse, each once.\<close>

lemma string_of_net_cong: "networkNumberAndMask n = networkNumberAndMask m \<Longrightarrow> string_of_net n = string_of_net m"
  by (simp add: string_of_net_def)

lemma canonical_dest:
  assumes "ParseCIDR c = Inr (x, n)"
  shows "\<exists>n'. parse_net (string_of_net n) = Some n' \<and> string_of_net n' = string_of_net n"
  using parse_string_of_net [OF ParseCIDR_wf [OF assms]] string_of_net_cong by blast

lemma plan_routes_loop_sound:
  assumes "plan_routes_loop viaIP via cs out = Inr out'"
  shows "rt_Dest ` set out' = rt_Dest ` set out \<union> {string_of_net n | c x n. c \<in> set cs \<and> c \<noteq> '''' \<and> ParseCIDR c = Inr (x, n)}
    \<and> (\<forall>r\<in>set out'. r \<in> set out \<or> rt_Via r = string_of_ip viaIP)
    \<and> (distinct (map rt_Dest out) \<longrightarrow> distinct (map rt_Dest out'))"
  using assms
proof (induction viaIP via cs out rule: plan_routes_loop.induct)
  case (2 viaIP via c cs out)
  let ?D = "\<lambda>cs. {string_of_net n | c x n. c \<in> set cs \<and> c \<noteq> '''' \<and> ParseCIDR c = Inr (x, n)}"
  show ?case
  proof (cases "c = ''''")
    case True
    then have "?D (c # cs) = ?D cs" by auto
    then show ?thesis using 2(1) [OF True] 2(4) True by simp
  next
    case False
    then obtain x n where n: "ParseCIDR c = Inr (x, n)" "(To4 (net_IP n) \<noteq> None) = (To4 viaIP \<noteq> None)"
      using 2(4) by (auto split: if_splits sum.splits)
    have D: "?D (c # cs) = insert (string_of_net n) (?D cs)" using n(1) False by (auto 4 3)
    show ?thesis
    proof (cases "string_of_net n \<in> rt_Dest ` set out")
      case True
      have "plan_routes_loop viaIP via cs out = Inr out'" using 2(4) n False True by (auto split: if_splits)
      from 2(2) [OF False n(1) refl _ True this] show ?thesis unfolding D using n(2) True by auto
    next
      case new: False
      have "plan_routes_loop viaIP via cs (out @ [\<lparr>rt_Dest = string_of_net n, rt_Via = string_of_ip viaIP\<rparr>]) = Inr out'"
        using 2(4) n False new by (auto split: if_splits)
      from 2(3) [OF False n(1) refl _ new this] show ?thesis unfolding D using n(2) new by auto
    qed
  qed
qed simp

text \<open>What a successful plan contains: the canonical text of every non-empty range, once,
  with the next hop.\<close>

lemma PlanRoutes_sound:
  assumes "PlanRoutes cs via = Inr rs"
  shows "rt_Dest ` set rs = {string_of_net n | c x n. c \<in> set cs \<and> c \<noteq> '''' \<and> ParseCIDR c = Inr (x, n)}"
    "\<exists>x. ParseIP via = Some x \<and> (\<forall>r\<in>set rs. rt_Via r = string_of_ip x)" "distinct (map rt_Dest rs)" "sorted (map rt_Dest rs)"
proof -
  obtain x out where x: "ParseIP via = Some x" "plan_routes_loop x via cs [] = Inr out" "rs = sort_key rt_Dest out"
    using assms by (auto simp: PlanRoutes_def split: option.splits sum.splits)
  note L = plan_routes_loop_sound [OF x(2), simplified]
  show "rt_Dest ` set rs = {string_of_net n | c x n. c \<in> set cs \<and> c \<noteq> '''' \<and> ParseCIDR c = Inr (x, n)}"
    using L x(3) by simp
  show "\<exists>x. ParseIP via = Some x \<and> (\<forall>r\<in>set rs. rt_Via r = string_of_ip x)" using L x by simp
  show "distinct (map rt_Dest rs)" "sorted (map rt_Dest rs)" using L x(3) by (simp_all add: distinct_map)
qed

lemma PlanRoutes_parse:
  assumes "PlanRoutes cs via = Inr rs" "r \<in> set rs"
  shows "\<exists>n. parse_net (rt_Dest r) = Some n \<and> rt_Dest r = string_of_net n"
proof -
  have "rt_Dest r \<in> {string_of_net n | c x n. c \<in> set cs \<and> c \<noteq> '''' \<and> ParseCIDR c = Inr (x, n)}"
    using PlanRoutes_sound(1) [OF assms(1)] assms(2) by blast
  then show ?thesis using canonical_dest by fastforce
qed

text \<open>The states a manager can reach: it starts without records and serves any sequence
  of calls, whatever their results.\<close>

inductive routed_reach :: "'s routeOps \<Rightarrow> 's routed \<Rightarrow> 's routed \<Rightarrow> bool" for ops m0 where
  start: "rm_peerRoutes m0 = Map.empty \<Longrightarrow> routed_reach ops m0 m0"
| configure: "routed_reach ops m0 m \<Longrightarrow> outcome (routed_ConfigurePeer ops k endpoint cs) m = (x, m') \<Longrightarrow> routed_reach ops m0 m'"
| remove: "routed_reach ops m0 m \<Longrightarrow> outcome (routed_RemovePeer ops k) m = (x, m') \<Longrightarrow> routed_reach ops m0 m'"

lemma peer_routes_upd: "peer_routes k (m\<lparr>rm_peerRoutes := (rm_peerRoutes m)(j := v)\<rparr>) =
  (if k = j then (case v of None \<Rightarrow> [] | Some rs \<Rightarrow> rs) else peer_routes k m)"
  by (simp add: peer_routes_def)

lemma peer_routes_cong: "rm_peerRoutes m' = rm_peerRoutes m \<Longrightarrow> peer_routes k m' = peer_routes k m"
  by (simp add: peer_routes_def)

context route_table begin

text \<open>Every route in the table was there at the start or is recorded for a peer.\<close>

definition accounted :: "(IPNet \<rightharpoonup> 'e) \<Rightarrow> 's routed \<Rightarrow> bool" where
  "accounted T0 m \<longleftrightarrow> (\<forall>k. \<forall>r\<in>set (peer_routes k m). parse_net (rt_Dest r) \<noteq> None) \<and>
     (\<forall>n e. tab m n = Some e \<longrightarrow> T0 n = Some e \<or> (\<exists>k. \<exists>r\<in>set (peer_routes k m). describes fits r n e))"

lemma accountedD: "accounted T0 m \<Longrightarrow> \<forall>r\<in>set (peer_routes k m). parse_net (rt_Dest r) \<noteq> None"
  by (simp add: accounted_def)

lemma ConfigurePeer_accounted:
  assumes del: "deletes_succeed ops" and acc: "accounted T0 m"
    and run: "outcome (routed_ConfigurePeer ops k endpoint cs) m = (x, m')"
  shows "accounted T0 m'"
proof (cases "PlanRoutes cs (hostOnly endpoint)")
  case (Inl e)
  then show ?thesis using run acc by (simp add: routed_ConfigurePeer_def run_simps)
next
  case (Inr desired)
  have des: "\<forall>r\<in>set desired. parse_net (rt_Dest r) \<noteq> None" using PlanRoutes_parse [OF Inr] by fastforce
  obtain y m1 where inst: "outcome (install_loop (install_route ops) (deleteRoutes ops) id desired []) m = (y, m1)" by fastforce
  have I: "rm_peerRoutes m1 = rm_peerRoutes m \<and> (case y of Inl _ \<Rightarrow> (\<forall>n e. tab m1 n = Some e \<longrightarrow> tab m n = Some e)
     | Inr i \<Rightarrow> i = desired \<and> (\<forall>n e. tab m1 n = Some e \<longrightarrow> (\<exists>r\<in>set desired. describes fits r n e) \<or> tab m n = Some e))"
    using install_loop_outcome [OF del _ _ inst, of "tab m"] des by (cases y) simp_all
  have book: "peer_routes j m1 = peer_routes j m" for j using I peer_routes_cong by blast
  show ?thesis
  proof (cases y)
    case fail: (Inl e)
    then have "m' = m1" using run Inr inst by (simp add: routed_ConfigurePeer_def run_simps)
    then show ?thesis using I acc book fail unfolding accounted_def by auto
  next
    case ok: (Inr i)
    then have i: "i = desired" "\<And>n e. tab m1 n = Some e \<Longrightarrow> (\<exists>r\<in>set desired. describes fits r n e) \<or> tab m n = Some e"
      using I by auto
    obtain z m2 where wd: "outcome (withdraw_stale ops desired (peer_routes k m1)) m1 = (z, m2)" by fastforce
    note W = withdraw_all [OF del _ wd [unfolded withdraw_stale_def], unfolded book, OF accountedD [OF acc]]
    have m': "m' = m2\<lparr>rm_peerRoutes := (rm_peerRoutes m2)(k \<mapsto> desired)\<rparr>"
      using run Inr inst ok i(1) wd W by (simp add: routed_ConfigurePeer_def run_simps)
    have pr: "peer_routes j m' = (if j = k then desired else peer_routes j m)" for j
      unfolding m' peer_routes_upd using W book peer_routes_cong [of m2 m1] by simp
    have "T0 n = Some e \<or> (\<exists>j. \<exists>r\<in>set (peer_routes j m'). describes fits r n e)" if t: "tab m' n = Some e" for n e
    proof -
      have t2: "tab m1 n = Some e" "\<not> (\<exists>r\<in>set (peer_routes k m). \<not> containsRoute desired r \<and> describes fits r n e)"
        using t W unfolding m' by auto
      from i(2) [OF t2(1)] show ?thesis
      proof
        assume "tab m n = Some e"
        then consider "T0 n = Some e" | j r where "r \<in> set (peer_routes j m)" "describes fits r n e"
          using acc unfolding accounted_def by blast
        then show ?thesis
        proof cases
          case 2
          then have "j = k \<Longrightarrow> r \<in> set desired" using t2(2) by (auto simp: containsRoute_def)
          then have "r \<in> set (peer_routes j m')" using 2 pr by (cases "j = k") auto
          then show ?thesis using 2 by blast
        qed simp
      qed (use pr [of k] in auto)
    qed
    then show ?thesis using des pr accountedD [OF acc] unfolding accounted_def by auto
  qed
qed

lemma RemovePeer_accounted:
  assumes del: "deletes_succeed ops" and acc: "accounted T0 m"
    and run: "outcome (routed_RemovePeer ops k) m = (x, m')"
  shows "accounted T0 m'"
proof -
  obtain z m1 where wd: "outcome (deleteRoutes ops (peer_routes k m)) m = (z, m1)" by fastforce
  note W = deleteRoutes_all [OF del accountedD [OF acc] wd]
  have m': "m' = m1\<lparr>rm_peerRoutes := (rm_peerRoutes m1)(k := None)\<rparr>"
    using run wd W by (simp add: routed_RemovePeer_def run_simps)
  have pr: "peer_routes j m' = (if j = k then [] else peer_routes j m)" for j
    unfolding m' peer_routes_upd using W peer_routes_cong [of m1 m] by simp
  have "T0 n = Some e \<or> (\<exists>j. \<exists>r\<in>set (peer_routes j m'). describes fits r n e)" if t: "tab m' n = Some e" for n e
  proof -
    have t2: "tab m n = Some e" "\<not> (\<exists>r\<in>set (peer_routes k m). describes fits r n e)" using t W unfolding m' by auto
    then consider "T0 n = Some e" | j r where "r \<in> set (peer_routes j m)" "describes fits r n e"
      using acc unfolding accounted_def by blast
    then show ?thesis using t2(2) pr by cases (auto, metis)
  qed
  then show ?thesis using pr accountedD [OF acc] unfolding accounted_def by auto
qed

lemma reach_accounted:
  assumes "routed_reach ops m0 m" "deletes_succeed ops"
  shows "accounted (tab m0) m"
  using assms
proof (induction rule: routed_reach.induct)
  case start
  then show ?case by (simp add: accounted_def peer_routes_def)
qed (auto intro: ConfigurePeer_accounted RemovePeer_accounted)

end

section \<open>The routes of the overlay data plane\<close>

definition routed_fits :: "nat \<Rightarrow> Route \<Rightarrow> route_entry \<Rightarrow> bool" where
  "routed_fits linkIndex r e \<longleftrightarrow>
     (ParseIP (rt_Via r) = None \<or> ParseIP (rt_Via r) = fst e) \<and> (linkIndex = 0 \<or> linkIndex = snd e)"

text \<open>The operations on the kernel's table keep the contract of a route table.\<close>

lemma netlinkOps_table:
  assumes "host_network host view"
  shows "route_table (netlinkOps host idx) (\<lambda>s. v_routes (view s)) (routed_fits idx)"
proof
  fix r :: Route
  let ?nr = "\<lambda>n. \<lparr>nr_Dst = n, nr_Gw = ParseIP (rt_Via r), nr_LinkIndex = idx, nr_OnLink = (idx \<noteq> 0), nr_ScopeLink = False\<rparr>"
  have fits: "nl_matches \<lparr>nr_Dst = n, nr_Gw = ParseIP (rt_Via r), nr_LinkIndex = idx, nr_OnLink = b, nr_ScopeLink = False\<rparr> e
    = routed_fits idx r e" for n :: IPNet and e :: route_entry and b
    by (auto simp: nl_matches_def routed_fits_def)
  show "command_law (\<lambda>s. v_routes (view s)) (ro_Replace (netlinkOps host idx) r)
      (\<lambda>T T'. \<exists>n e. describes (routed_fits idx) r n e \<and> T' = T(n \<mapsto> e))"
  proof (cases "ParseCIDR (rt_Dest r)")
    case (Inl e)
    then show ?thesis by (auto simp: command_law_def netlinkOps_def netlinkOps_Replace_def netlink_route_def)
  next
    case (Inr xn)
    then obtain x n where n: "ParseCIDR (rt_Dest r) = Inr (x, n)" by (cases xn) auto
    then have "ro_Replace (netlinkOps host idx) r = h_RouteReplace host (?nr n)"
      by (auto simp: fun_eq_iff netlinkOps_def netlinkOps_Replace_def netlink_route_def)
    moreover have "case y of Inl _ \<Rightarrow> v_routes (view s') = v_routes (view s)
        | Inr _ \<Rightarrow> \<exists>n e. describes (routed_fits idx) r n e \<and> v_routes (view s') = (v_routes (view s))(n \<mapsto> e)"
      if run: "h_RouteReplace host (?nr n) s = (y, s')" for s y s'
    proof (cases y)
      case (Inl e)
      then show ?thesis using command_lawD(1) [OF host_network.RouteReplace_law [OF assms] run] by simp
    next
      case (Inr u)
      from command_lawD(2) [OF host_network.RouteReplace_law [OF assms] run Inr] obtain l
        where "nr_LinkIndex (?nr n) \<noteq> 0 \<longrightarrow> l = nr_LinkIndex (?nr n)"
          "view s' = (view s)\<lparr>v_routes := (v_routes (view s))(nr_Dst (?nr n) \<mapsto> (nr_Gw (?nr n), l))\<rparr>" by blast
      then have "idx \<noteq> 0 \<longrightarrow> l = idx" "v_routes (view s') = (v_routes (view s))(n \<mapsto> (ParseIP (rt_Via r), l))" by simp_all
      moreover from this have "describes (routed_fits idx) r n (ParseIP (rt_Via r), l)"
        using n by (auto simp: describes_def parse_net_def routed_fits_def)
      ultimately show ?thesis using Inr by auto
    qed
    ultimately show ?thesis unfolding command_law_def by simp
  qed
  show "command_law (\<lambda>s. v_routes (view s)) (ro_Delete (netlinkOps host idx) r)
      (\<lambda>T T'. \<exists>n. parse_net (rt_Dest r) = Some n \<and> T' = drop_fit (routed_fits idx) r n T)"
  proof (cases "ParseCIDR (rt_Dest r)")
    case (Inl e)
    then show ?thesis by (auto simp: command_law_def netlinkOps_def netlinkOps_Delete_def netlink_route_def)
  next
    case (Inr xn)
    then obtain x n where n: "ParseCIDR (rt_Dest r) = Inr (x, n)" by (cases xn) auto
    have del: "case r1 of Inl _ \<Rightarrow> v_routes (view s') = v_routes (view s)
        | Inr _ \<Rightarrow> v_routes (view s') = drop_fit (routed_fits idx) r n (v_routes (view s))"
      if run: "ro_Delete (netlinkOps host idx) r s = (r1, s')" for s r1 s'
    proof -
      obtain y t where y: "h_RouteDel host (?nr n) s = (y, t)" by fastforce
      note law = host_network.RouteDel_law [OF assms y]
      have "s' = t" "r1 = (case y of Inl e \<Rightarrow> if isNoSuchRoute e then Inr () else Inl e | Inr _ \<Rightarrow> Inr ())"
        using run y n by (auto simp: netlinkOps_def netlinkOps_Delete_def netlink_route_def split: sum.splits if_splits)
      then show ?thesis using law
        by (auto simp: isNoSuchRoute_def drop_fit_def fits split: sum.splits if_splits option.splits)
    qed
    have pn: "parse_net (rt_Dest r) = Some n" using n by (simp add: parse_net_def)
    show ?thesis unfolding command_law_def
    proof (intro allI impI)
      fix s r1 s' assume "ro_Delete (netlinkOps host idx) r s = (r1, s')"
      from del [OF this] show "case r1 of Inl _ \<Rightarrow> v_routes (view s') = v_routes (view s)
        | Inr _ \<Rightarrow> \<exists>n. parse_net (rt_Dest r) = Some n \<and> v_routes (view s') = drop_fit (routed_fits idx) r n (v_routes (view s))"
        using pn by (cases r1) auto
    qed
  qed
qed


text \<open>An in-memory host on which only installations fail.\<close>

definition steady_host :: "(memhost, string, string) host" where
  "steady_host = mem_host\<lparr>h_RouteDel := (\<lambda>rt m. case map_of (mh_routes m) (nr_Dst rt) of
        None \<Rightarrow> (Inl ''no such process'', m)
      | Some x \<Rightarrow> if nl_matches rt x then (Inr (), m\<lparr>mh_routes := filter (\<lambda>(d, _). d \<noteq> nr_Dst rt) (mh_routes m)\<rparr>)
                  else (Inl ''no such process'', m))\<rparr>"

interpretation steady: host_network steady_host mh_view
proof
  fix rt s r s' assume run: "h_RouteDel steady_host rt s = (r, s')"
  show "case r of
        Inl e \<Rightarrow> mh_view s' = mh_view s \<and> (e = ''no such process'' \<longrightarrow>
                  (\<forall>x. v_routes (mh_view s) (nr_Dst rt) = Some x \<longrightarrow> \<not> nl_matches rt x))
      | Inr _ \<Rightarrow> (\<exists>x. v_routes (mh_view s) (nr_Dst rt) = Some x \<and> nl_matches rt x) \<and>
                 mh_view s' = (mh_view s)\<lparr>v_routes := (v_routes (mh_view s))(nr_Dst rt := None)\<rparr>"
  proof (cases "map_of (mh_routes s) (nr_Dst rt)")
    case None
    then show ?thesis using run by (auto simp: steady_host_def mh_view_def)
  next
    case (Some x)
    then show ?thesis using run
      by (cases "nl_matches rt x") (auto simp: steady_host_def mh_view_def map_of_filter_neq fun_upd_def)
  qed
next
  fix rt
  have "h_RouteReplace steady_host rt = h_RouteReplace mem_host rt" by (simp add: steady_host_def)
  then show "command_law mh_view (h_RouteReplace steady_host rt)
      (\<lambda>v v'. \<exists>l. (nr_LinkIndex rt \<noteq> 0 \<longrightarrow> l = nr_LinkIndex rt) \<and>
         v' = v\<lparr>v_routes := (v_routes v)(nr_Dst rt \<mapsto> (nr_Gw rt, l))\<rparr>)"
    using mem_net.RouteReplace_law [of rt] by simp
qed (simp_all add: steady_host_def mem_net.LinkByName_law mem_net.LinkAdd_law mem_net.LinkSetMTU_law mem_net.LinkSetUp_law
      mem_net.AddrReplace_law mem_net.ConfigureDevice_law mem_net.Device_law)

lemma steady_deletes: "deletes_succeed (netlinkOps steady_host idx)"
  unfolding deletes_succeed_def
proof (intro allI impI)
  fix r :: Route and s assume "parse_net (rt_Dest r) \<noteq> None"
  then obtain x n where "ParseCIDR (rt_Dest r) = Inr (x, n)" by (auto simp: parse_net_def split: sum.splits)
  then show "\<exists>s'. ro_Delete (netlinkOps steady_host idx) r s = (Inr (), s')"
    by (auto simp: netlinkOps_def netlinkOps_Delete_def netlink_route_def steady_host_def isNoSuchRoute_def split: option.splits)
qed

definition overlay_start :: "memhost routed" where
  "overlay_start = \<lparr>rm_peerRoutes = Map.empty,
     rm_host = \<lparr>mh_link = None, mh_routes = [], mh_peers = [], mh_faults = [False]\<rparr>\<rparr>"

lemma overlay_plan: "PlanRoutes [''10.1.0.0/16''] (hostOnly ''10.0.0.9:51820'') =
   Inr [\<lparr>rt_Dest = ''10.1.0.0/16'', rt_Via = ''10.0.0.9''\<rparr>]"
  by (simp add: PlanRoutes_def hostOnly_def SplitHostPort_def go_eval)

lemma overlay_run: "\<exists>m. outcome (routed_ConfigurePeer (netlinkOps steady_host 7) ''k'' ''10.0.0.9:51820'' [''10.1.0.0/16'']) overlay_start = (Inr (), m)
   \<and> v_routes (mh_view (rm_host m)) \<lparr>net_IP = IP4 0xA010000, net_Mask = CIDRMask 16 32\<rparr> = Some (Some (IP16 (v4_in_v6 0xA000009)), 7)"
  by (simp add: routed_ConfigurePeer_def overlay_plan install_route_def withdraw_stale_def netlinkOps_def netlinkOps_Replace_def
      netlink_route_def steady_host_def mem_host_def mh_step_def lift_call_def overlay_start_def peer_routes_def mh_view_def run_simps go_eval)


interpretation mem_table: route_table "netlinkOps mem_host idx" "\<lambda>s. v_routes (mh_view s)" "routed_fits idx" for idx
  by (rule netlinkOps_table [OF mem_net.host_network_axioms])

section \<open>Programming a WireGuard peer\<close>

definition withdrawals_succeed :: "('s, 'k, 'u) host \<Rightarrow> bool" where
  "withdrawals_succeed host \<longleftrightarrow> (\<forall>rt s e s'. h_RouteDel host rt s = (Inl e, s') \<longrightarrow> e = ''no such process'')"

definition same_book :: "'s WireGuardManager \<Rightarrow> 's WireGuardManager \<Rightarrow> bool" where
  "same_book m m' \<longleftrightarrow> wm_peerRoutes m' = wm_peerRoutes m \<and> wm_ifaceName m' = wm_ifaceName m \<and> wm_keepalive m' = wm_keepalive m"

lemma same_book_refl [simp]: "same_book m m" and same_book_host [simp]: "same_book m (m\<lparr>wm_host := h\<rparr>)"
  by (simp_all add: same_book_def)

lemma same_book_trans: "same_book a b \<Longrightarrow> same_book b c \<Longrightarrow> same_book a c"
  by (simp add: same_book_def)

context host_network begin

abbreviation wview :: "'s WireGuardManager \<Rightarrow> 'k netview" where
  "wview m \<equiv> view (wm_host m)"

lemma wg_withdraw:
  assumes "withdrawals_succeed host" "0 < idx"
    "outcome (attempt (call (on_wg (h_RouteDel host (wg_link_route idx n))))) m = (x, m')"
  shows "x = Inr () \<and> same_book m m' \<and> v_peers (wview m') = v_peers (wview m) \<and>
    v_routes (wview m') = (v_routes (wview m))(n := (case v_routes (wview m) n of
       Some e \<Rightarrow> if snd e = idx then None else Some e | None \<Rightarrow> None))"
proof -
  obtain y h where d: "h_RouteDel host (wg_link_route idx n) (wm_host m) = (y, h)" by fastforce
  then have m': "x = Inr ()" "m' = m\<lparr>wm_host := h\<rparr>" using assms(3) by (auto simp: run_simps lift_call_def)
  have fit: "nl_matches (wg_link_route idx n) e \<longleftrightarrow> snd e = idx" for e using assms(2) by (auto simp: nl_matches_def wg_link_route_def)
  have dst: "nr_Dst (wg_link_route idx n) = n" by (simp add: wg_link_route_def)
  note law = RouteDel_law [OF d, unfolded fit dst]
  show ?thesis
  proof (cases y)
    case (Inl e)
    then have "e = ''no such process''" using assms(1) d unfolding withdrawals_succeed_def by blast
    then have "view h = view (wm_host m)" "\<forall>x. v_routes (wview m) n = Some x \<longrightarrow> snd x \<noteq> idx" using law Inl by auto
    then show ?thesis using m' by (auto simp: fun_eq_iff split: option.splits)
  next
    case (Inr u)
    then show ?thesis using law m' by auto
  qed
qed

lemma wg_rollback:
  assumes "withdrawals_succeed host" "0 < idx" "outcome (rollbackRoutesLocked host idx cs) m = (x, m')"
  shows "x = Inr () \<and> same_book m m' \<and> v_peers (wview m') = v_peers (wview m) \<and>
    (\<forall>n e. v_routes (wview m') n = Some e \<longleftrightarrow> v_routes (wview m) n = Some e \<and> \<not> (snd e = idx \<and> (\<exists>c\<in>set cs. parse_net c = Some n)))"
  using assms(3)
proof (induction cs arbitrary: m)
  case (Cons c cs)
  show ?case
  proof (cases "ParseCIDR c")
    case (Inl e)
    then have "parse_net c = None" by (simp add: parse_net_def)
    then show ?thesis using Cons.IH [of m] Cons.prems Inl unfolding rollbackRoutesLocked_def by (simp add: run_simps)
  next
    case (Inr xn)
    then obtain a n where n: "ParseCIDR c = Inr (a, n)" "parse_net c = Some n" by (cases xn) (auto simp: parse_net_def)
    obtain y m1 where one: "outcome (attempt (call (on_wg (h_RouteDel host (wg_link_route idx n))))) m = (y, m1)" by fastforce
    note W = wg_withdraw [OF assms(1,2) one]
    have "outcome (rollbackRoutesLocked host idx cs) m1 = (x, m')"
      using Cons.prems n one W unfolding rollbackRoutesLocked_def by (simp add: outcome_seq)
    from Cons.IH [OF this] W n(2) show ?thesis using same_book_trans by (auto split: option.splits if_splits)
  qed
qed (simp add: rollbackRoutesLocked_def run_simps)

lemma wg_install_outcome:
  assumes "0 < idx" "outcome (wg_install host name idx n) m = (Inr u, m')"
  shows "same_book m m'" "v_peers (wview m') = v_peers (wview m)" "v_routes (wview m') = (v_routes (wview m))(n \<mapsto> (None, idx))"
proof -
  obtain h where d: "h_RouteReplace host (wg_link_route idx n) (wm_host m) = (Inr (), h)" and m': "m' = m\<lparr>wm_host := h\<rparr>"
    using assms(2) by (auto simp: wg_install_def run_simps lift_call_def split: prod.splits sum.splits)
  from command_lawD(2) [OF RouteReplace_law d] assms(1)
  have "view h = (view (wm_host m))\<lparr>v_routes := (v_routes (view (wm_host m)))(n \<mapsto> (None, idx))\<rparr>"
    by (auto simp: wg_link_route_def)
  then show "same_book m m'" "v_peers (wview m') = v_peers (wview m)" "v_routes (wview m') = (v_routes (wview m))(n \<mapsto> (None, idx))"
    using m' by simp_all
qed

lemma wg_install_all:
  assumes "0 < idx" "outcome (install_loop (wg_install host name idx) undo string_of_net ns inst) m = (Inr i, m')"
  shows "i = inst @ map string_of_net ns \<and> same_book m m' \<and> v_peers (wview m') = v_peers (wview m) \<and>
    v_routes (wview m') = (\<lambda>n. if n \<in> set ns then Some (None, idx) else v_routes (wview m) n)"
  using assms(2)
proof (induction ns arbitrary: inst m)
  case (Cons n ns)
  obtain u m1 where one: "outcome (wg_install host name idx n) m = (Inr u, m1)"
    and rest: "outcome (install_loop (wg_install host name idx) undo string_of_net ns (inst @ [string_of_net n])) m1 = (Inr i, m')"
    using Cons.prems by (auto simp: run_simps split: prod.splits sum.splits)
  from Cons.IH [OF rest] wg_install_outcome [OF assms(1) one] show ?case
    using same_book_trans by (auto simp: fun_eq_iff)
qed (auto simp: run_simps)

lemma ensureLink_outcome:
  assumes "outcome (ensureLinkLocked host name) m = (x, m')"
  shows "same_book m m' \<and> wview m' = wview m \<and> (\<forall>link. x = Inr link \<longrightarrow> 0 < li_Index link)"
proof -
  obtain r1 h1 where l1: "h_LinkByName host name (wm_host m) = (r1, h1)" by fastforce
  obtain r2 h2 where add: "h_LinkAdd host name h1 = (r2, h2)" by fastforce
  obtain r3 h3 where l2: "h_LinkByName host name h2 = (r3, h3)" by fastforce
  note laws = LinkByName_law [OF l1] query_lawD(1) [OF LinkAdd_law add] LinkByName_law [OF l2]
  show ?thesis
    using assms l1 add l2 laws
    by (auto simp: ensureLinkLocked_def call_nl_def run_simps lift_call_def split: sum.splits if_splits)
qed

end

context host_network begin

lemma configure_outcome:
  assumes "outcome (configure_device host name cfg) m = (x, m')" "\<not> wc_ReplacePeers cfg"
  shows "same_book m m'" "\<exists>r. x = Inr r"
    "x = Inr (Inr u) \<Longrightarrow> wview m' = (wview m)\<lparr>v_peers := apply_peers (wc_Peers cfg) (v_peers (wview m))\<rparr>"
    "x = Inr (Inl err) \<Longrightarrow> wview m' = wview m"
proof -
  obtain y h where c: "h_ConfigureDevice host name cfg (wm_host m) = (y, h)" by fastforce
  then have m': "x = Inr y" "m' = m\<lparr>wm_host := h\<rparr>"
    using assms(1) by (auto simp: configure_device_def call_nl_def run_simps lift_call_def)
  then show "same_book m m'" "\<exists>r. x = Inr r" by simp_all
  show "x = Inr (Inr u) \<Longrightarrow> wview m' = (wview m)\<lparr>v_peers := apply_peers (wc_Peers cfg) (v_peers (wview m))\<rparr>"
    "x = Inr (Inl err) \<Longrightarrow> wview m' = wview m"
    using ConfigureDevice_law [OF c] m' assms(2) by auto
qed

lemma wg_program_outcome:
  assumes del: "withdrawals_succeed host" and run: "outcome (wg_program host peerKey key udp nets) m = (Inr u, m')"
    and canon: "\<forall>c\<in>set (wg_recorded peerKey m). \<exists>n. parse_net c = Some n \<and> c = string_of_net n"
  shows "\<exists>idx. 0 < idx \<and> v_peers (wview m') key = Some nets \<and> wm_peerRoutes m' = (wm_peerRoutes m)(peerKey \<mapsto> map string_of_net nets)
    \<and> (\<forall>n. v_routes (wview m') n = (if n \<in> set nets then Some (None, idx)
         else if \<exists>c\<in>set (wg_recorded peerKey m) - string_of_net ` set nets. parse_net c = Some n
         then (case v_routes (wview m) n of Some e \<Rightarrow> if snd e = idx then None else Some e | None \<Rightarrow> None)
         else v_routes (wview m) n))"
proof -
  obtain link m1 where l: "outcome (ensureLinkLocked host (wm_ifaceName m)) m = (Inr link, m1)"
    using run by (auto simp: wg_program_def run_simps split: prod.splits sum.splits)
  note L = ensureLink_outcome [OF l]
  let ?cfg = "peer_upsert key udp nets (wm_keepalive m)" and ?idx = "li_Index link"
  obtain v m2 where c: "outcome (configure_device host (wm_ifaceName m) ?cfg) m1 = (Inr (Inr v), m2)"
    using run l by (auto simp: wg_program_def run_simps split: prod.splits sum.splits)
  note C = configure_outcome [OF c, simplified peer_upsert_def, simplified]
  obtain inst m3 where i: "outcome (install_loop (wg_install host (wm_ifaceName m) ?idx) (rollbackRoutesLocked host ?idx) string_of_net nets []) m2 = (Inr inst, m3)"
    using run l c by (auto simp: wg_program_def run_simps split: prod.splits sum.splits)
  have idx: "0 < ?idx" using L by simp
  note I = wg_install_all [OF idx i, simplified]
  let ?old = "wg_recorded peerKey m"
  have old: "wg_recorded peerKey m3 = ?old" using L C(1) I by (simp add: wg_recorded_def same_book_def)
  obtain w m4 where r: "outcome (rollbackRoutesLocked host ?idx (staleRoutes ?old inst)) m3 = (w, m4)" by fastforce
  note R = wg_rollback [OF del idx r]
  have m': "m' = m4\<lparr>wm_peerRoutes := (wm_peerRoutes m4)(peerKey \<mapsto> inst)\<rparr>"
    using run l c i r R old by (simp add: wg_program_def run_simps)
  have stale: "set (staleRoutes ?old inst) = set ?old - string_of_net ` set nets"
    using I by (auto simp: staleRoutes_def)
  have kept: "\<not> (\<exists>c\<in>set ?old - string_of_net ` set nets. parse_net c = Some n)" if "n \<in> set nets" for n
    using canon that by auto
  have "v_routes (wview m') n = (if n \<in> set nets then Some (None, ?idx)
         else if \<exists>c\<in>set ?old - string_of_net ` set nets. parse_net c = Some n
         then (case v_routes (wview m) n of Some e \<Rightarrow> if snd e = ?idx then None else Some e | None \<Rightarrow> None)
         else v_routes (wview m) n)" for n
  proof -
    have r0: "v_routes (wview m2) n = v_routes (wview m) n" using L C(3) by (simp add: peer_upsert_def)
    have eq: "v_routes (wview m') n = Some e \<longleftrightarrow> v_routes (wview m3) n = Some e \<and>
        \<not> (snd e = ?idx \<and> (\<exists>c\<in>set ?old - string_of_net ` set nets. parse_net c = Some n))" for e
    proof -
      have "wview m' = wview m4" by (simp add: m')
      then show ?thesis using R unfolding stale by metis
    qed
    have r3: "v_routes (wview m3) n = (if n \<in> set nets then Some (None, ?idx) else v_routes (wview m) n)"
      using I r0 by simp
    show ?thesis
    proof (cases "v_routes (wview m') n")
      case None
      then have "\<And>e. v_routes (wview m3) n = Some e \<Longrightarrow> snd e = ?idx \<and> (\<exists>c\<in>set ?old - string_of_net ` set nets. parse_net c = Some n)"
        using eq by auto
      then show ?thesis using r3 kept [of n] None by (auto split: option.splits if_splits)
    next
      case (Some e)
      then show ?thesis using eq [of e] r3 kept [of n] by (auto split: if_splits)
    qed
  qed
  moreover have "v_peers (wview m') key = Some nets"
    using R I C(3) unfolding m' by (simp add: peer_upsert_def set_peer_def)
  moreover have "wm_peerRoutes m' = (wm_peerRoutes m)(peerKey \<mapsto> map string_of_net nets)"
    using R I C(1) L unfolding m' by (simp add: same_book_def)
  ultimately show ?thesis using idx by blast
qed

end


lemma steady_withdrawals: "withdrawals_succeed steady_host"
  by (auto simp: withdrawals_succeed_def steady_host_def split: option.splits if_splits)

definition net_a :: IPNet where "net_a = \<lparr>net_IP = IP4 0xA010000, net_Mask = CIDRMask 16 32\<rparr>"
definition net_b :: IPNet where "net_b = \<lparr>net_IP = IP4 0xA020000, net_Mask = CIDRMask 16 32\<rparr>"

definition device_state :: "memhost WireGuardManager" where
  "device_state = \<lparr>wm_ifaceName = ''dwx-mesh0'', wm_listenPort = 51820, wm_keepalive = 25, wm_mtu = 0, wm_addrs = [],
     wm_peerRoutes = [''k'' \<mapsto> [''10.2.0.0/16'']],
     wm_host = \<lparr>mh_link = Some \<lparr>li_Index = 7, li_MTU = 1420, li_Up = True\<rparr>, mh_routes = [(net_b, (None, 7))],
       mh_peers = [(''k'', [net_b])], mh_faults = []\<rparr>\<rparr>"

lemma nets_parse: "ParseCIDR ''10.1.0.0/16'' = Inr (IP16 (v4_in_v6 0xA010000), net_a)"
  "ParseCIDR ''10.2.0.0/16'' = Inr (IP16 (v4_in_v6 0xA020000), net_b)"
  "string_of_net net_a = ''10.1.0.0/16''" "string_of_net net_b = ''10.2.0.0/16''"
  by (simp_all add: net_a_def net_b_def go_eval)

lemma device_run: "\<exists>m'. outcome (wg_ConfigurePeer steady_host Inr Inr ''k'' '''' [''10.1.0.0/16'']) device_state = (Inr (), m')"
  by (simp add: wg_ConfigurePeer_def resolve_endpoint_def nets_parse wg_program_def ensureLinkLocked_def call_nl_def lift_call_def
      configure_device_def wg_install_def rollbackRoutesLocked_def staleRoutes_def wg_recorded_def steady_host_def mem_host_def
      mh_nl_def mh_step_def device_state_def run_simps split: option.splits)


end
