(* ===== verification/Peer_Controller.thy ===== *)
theory Peer_Controller
  imports Peer_Planes Topology_Remap
begin

text \<open>
  \<^verbatim>\<open>pkg/controllers/meshpeer_controller.go\<close>: the reconciler that converges the data
  plane of a peer toward its \<^verbatim>\<open>MeshPeer\<close> object. It talks to the API server and to an
  implementation of \<^verbatim>\<open>PeerDataPlane\<close>; both are interfaces here, the second with the two
  managers of theory \<^verbatim>\<open>Peer_Planes\<close> as its providers.
\<close>

section \<open>Objects\<close>

type_synonym nn = "string \<times> string"

record MeshPeerStatus =
  ms_Phase :: MeshPeerPhase
  ms_LastHandshakeTime :: int
  ms_LastProbeAttempt :: int
  ms_LastProbeTime :: int
  ms_Message :: string
  ms_ObservedGeneration :: int

record MeshPeer =
  mp_Namespace :: string
  mp_Name :: string
  mp_Generation :: int
  mp_Deleting :: bool
  mp_Finalizers :: "string list"
  mp_Spec :: MeshPeerSpec
  mp_Status :: MeshPeerStatus

definition meshPeerFinalizer :: string where
  "meshPeerFinalizer = ''networking.datawerx.io/meshpeer-cleanup''"

definition handshakeRefreshInterval :: int where
  "handshakeRefreshInterval = 60 * 1000000000"

definition peerKey :: "MeshPeer \<Rightarrow> nn" where
  "peerKey peer = (mp_Namespace peer, mp_Name peer)"

section \<open>Interfaces\<close>

text \<open>The client of \<^verbatim>\<open>controller-runtime\<close>: \<^verbatim>\<open>Get\<close> answers \<^verbatim>\<open>None\<close> for a not-found error.\<close>

record 'a peer_api =
  api_Get :: "nn \<Rightarrow> 'a \<Rightarrow> MeshPeer option result \<times> 'a"
  api_Update :: "MeshPeer \<Rightarrow> 'a \<Rightarrow> unit result \<times> 'a"
  api_PatchStatus :: "MeshPeer \<Rightarrow> 'a \<Rightarrow> unit result \<times> 'a"

record 'd PeerDataPlane =
  dp_ConfigurePeer :: "string \<Rightarrow> string \<Rightarrow> string list \<Rightarrow> 'd \<Rightarrow> unit result \<times> 'd"
  dp_RemovePeer :: "string \<Rightarrow> 'd \<Rightarrow> unit result \<times> 'd"
  dp_PeerHandshake :: "string \<Rightarrow> 'd \<Rightarrow> int result \<times> 'd"

definition routed_plane :: "'s routeOps \<Rightarrow> 's routed PeerDataPlane" where
  "routed_plane ops = \<lparr>dp_ConfigurePeer = (\<lambda>k e cs. outcome (routed_ConfigurePeer ops k e cs)),
     dp_RemovePeer = (\<lambda>k. outcome (routed_RemovePeer ops k)),
     dp_PeerHandshake = (\<lambda>k. outcome (routed_PeerHandshake k))\<rparr>"

definition wg_plane :: "('s, 'k, 'u) host \<Rightarrow> (string \<Rightarrow> 'k result) \<Rightarrow> (string \<Rightarrow> 'u result) \<Rightarrow> 's WireGuardManager PeerDataPlane" where
  "wg_plane host parseKey resolveUDP =
     \<lparr>dp_ConfigurePeer = (\<lambda>k e cs. outcome (wg_ConfigurePeer host parseKey resolveUDP k e cs)),
      dp_RemovePeer = (\<lambda>k. outcome (wg_RemovePeer host parseKey k)),
      dp_PeerHandshake = (\<lambda>k. outcome (wg_PeerHandshake host parseKey k))\<rparr>"

section \<open>The reconciler\<close>

record peer_config =
  pc_LocalCIDRs :: "string list"
  pc_ClusterID :: string
  pc_RemapPool :: string

record ('a, 'd) reconciler =
  mr_keyIndex :: "nn \<rightharpoonup> string"
  mr_api :: 'a
  mr_plane :: 'd

abbreviation on_api :: "('a \<Rightarrow> 'x \<times> 'a) \<Rightarrow> ('a, 'd) reconciler \<Rightarrow> 'x \<times> ('a, 'd) reconciler" where
  "on_api \<equiv> lift_call mr_api (\<lambda>x m. m\<lparr>mr_api := x\<rparr>)"

abbreviation on_plane :: "('d \<Rightarrow> 'x \<times> 'd) \<Rightarrow> ('a, 'd) reconciler \<Rightarrow> 'x \<times> ('a, 'd) reconciler" where
  "on_plane \<equiv> lift_call mr_plane (\<lambda>x m. m\<lparr>mr_plane := x\<rparr>)"

definition rememberCachedKey :: "nn \<Rightarrow> string \<Rightarrow> (('a, 'd) reconciler, unit) run" where
  "rememberCachedKey n key = modify (\<lambda>m. m\<lparr>mr_keyIndex := (mr_keyIndex m)(n \<mapsto> key)\<rparr>)"

definition lookupCachedKey :: "nn \<Rightarrow> (('a, 'd) reconciler, string option) run" where
  "lookupCachedKey n = gets (\<lambda>m. mr_keyIndex m n)"

definition forgetCachedKey :: "nn \<Rightarrow> (('a, 'd) reconciler, unit) run" where
  "forgetCachedKey n = modify (\<lambda>m. m\<lparr>mr_keyIndex := (mr_keyIndex m)(n := None)\<rparr>)"

definition with_status :: "MeshPeer \<Rightarrow> MeshPeerPhase \<Rightarrow> int \<Rightarrow> string \<Rightarrow> MeshPeer" where
  "with_status peer phase handshake message = peer\<lparr>mp_Status := (mp_Status peer)\<lparr>ms_Phase := phase,
     ms_LastHandshakeTime := handshake, ms_Message := message, ms_ObservedGeneration := mp_Generation peer\<rparr>\<rparr>"

definition patchStatus :: "'a peer_api \<Rightarrow> MeshPeer \<Rightarrow> MeshPeerPhase \<Rightarrow> int \<Rightarrow> string \<Rightarrow> (('a, 'd) reconciler, unit) run" where
  "patchStatus api peer phase handshake message =
     (if ms_Phase (mp_Status peer) = phase \<and> ms_LastHandshakeTime (mp_Status peer) = handshake \<and>
         ms_Message (mp_Status peer) = message \<and> ms_ObservedGeneration (mp_Status peer) = mp_Generation peer
      then ret ()
      else errorf ''patching MeshPeer status'' (call (on_api (api_PatchStatus api (with_status peer phase handshake message)))))"

definition fail :: "'a peer_api \<Rightarrow> MeshPeer \<Rightarrow> string \<Rightarrow> (('a, 'd) reconciler, 'x) run" where
  "fail api peer msg = seq
     (on_error (patchStatus api peer Error (ms_LastHandshakeTime (mp_Status peer)) msg)
        (\<lambda>serr. failing (msg @ ''; additionally failed to update status: '' @ serr)))
     (failing msg)"

text \<open>The pure part of \<^verbatim>\<open>reconcileApply\<close>: what to route and what to report.\<close>

definition route_decision :: "peer_config \<Rightarrow> MeshPeerSpec \<Rightarrow> (string list \<times> MeshPeerPhase \<times> string) go" where
  "route_decision cfg spec =
     (let plan = PlanPeer spec (pc_LocalCIDRs cfg) in
      if \<not> Programmable plan then Err (pl_Message plan)
      else if HasConflicts plan \<and> pc_RemapPool cfg \<noteq> '''' then
        (case PlanRemap (pc_RemapPool cfg) (pc_ClusterID cfg) (pc_LocalCIDRs cfg) (sp_ClusterID spec) (pl_ConflictingCIDRs plan) of
           Err e \<Rightarrow> Err (''planning overlap remap: '' @ e)
         | Panic e \<Rightarrow> Panic e
         | Ret rp \<Rightarrow> Ret (pl_RoutableCIDRs plan @ rp_RouteVirtual rp, Connected,
             ''peer programmed; '' @ itoa (length (pl_RoutableCIDRs plan)) @ '' CIDRs routed, '' @
             itoa (length (pl_ConflictingCIDRs plan)) @ '' overlapping remapped via '' @ pc_RemapPool cfg))
      else Ret (pl_RoutableCIDRs plan, pl_Phase plan, pl_Message plan))"

definition remove_rotated :: "'a peer_api \<Rightarrow> 'd PeerDataPlane \<Rightarrow> MeshPeer \<Rightarrow> (('a, 'd) reconciler, unit) run" where
  "remove_rotated api dp peer = bind_run (lookupCachedKey (peerKey peer)) (\<lambda>old. case old of
      Some old \<Rightarrow> if old \<noteq> sp_PublicKey (mp_Spec peer)
        then on_error (call (on_plane (dp_RemovePeer dp old))) (\<lambda>e. fail api peer (''removing rotated peer key: '' @ e))
        else ret ()
    | None \<Rightarrow> ret ())"

definition report :: "'a peer_api \<Rightarrow> 'd PeerDataPlane \<Rightarrow> MeshPeer \<Rightarrow> MeshPeerPhase \<Rightarrow> string \<Rightarrow> (('a, 'd) reconciler, int) run" where
  "report api dp peer phase message =
     bind_run (on_error (call (on_plane (dp_PeerHandshake dp (sp_PublicKey (mp_Spec peer)))))
                 (\<lambda>_. ret (ms_LastHandshakeTime (mp_Status peer)))) (\<lambda>handshake.
       seq (patchStatus api peer phase handshake message) (ret handshakeRefreshInterval))"

definition reconcileApply ::
  "'a peer_api \<Rightarrow> 'd PeerDataPlane \<Rightarrow> peer_config \<Rightarrow> MeshPeer \<Rightarrow> (('a, 'd) reconciler, int) run" where
  "reconcileApply api dp cfg peer =
     (let key = sp_PublicKey (mp_Spec peer) in
      case route_decision cfg (mp_Spec peer) of
        Err msg \<Rightarrow> fail api peer msg
      | Panic e \<Rightarrow> failing (''panic: '' @ e @ '' [recovered]'')
      | Ret (routeCIDRs, phase, message) \<Rightarrow>
          seq (remove_rotated api dp peer)
          (seq (on_error (call (on_plane (dp_ConfigurePeer dp key (sp_Endpoint (mp_Spec peer)) routeCIDRs)))
                  (\<lambda>e. fail api peer (''configuring peer data plane: '' @ e)))
          (seq (rememberCachedKey (peerKey peer) key)
          (report api dp peer phase message))))"

definition reconcileDelete :: "'a peer_api \<Rightarrow> 'd PeerDataPlane \<Rightarrow> MeshPeer \<Rightarrow> (('a, 'd) reconciler, int) run" where
  "reconcileDelete api dp peer =
     (if meshPeerFinalizer \<in> set (mp_Finalizers peer) then
        seq (if sp_PublicKey (mp_Spec peer) \<noteq> '''' then call (on_plane (dp_RemovePeer dp (sp_PublicKey (mp_Spec peer)))) else ret ())
        (seq (forgetCachedKey (peerKey peer))
        (seq (errorf ''removing finalizer''
               (call (on_api (api_Update api (peer\<lparr>mp_Finalizers := filter (\<lambda>f. f \<noteq> meshPeerFinalizer) (mp_Finalizers peer)\<rparr>)))))
          (ret 0)))
      else ret 0)"

definition Reconcile :: "'a peer_api \<Rightarrow> 'd PeerDataPlane \<Rightarrow> peer_config \<Rightarrow> nn \<Rightarrow> (('a, 'd) reconciler, int) run" where
  "Reconcile api dp cfg req =
     bind_run (errorf ''fetching MeshPeer'' (call (on_api (api_Get api req)))) (\<lambda>found. case found of
       None \<Rightarrow>
         bind_run (lookupCachedKey req) (\<lambda>key. case key of
           None \<Rightarrow> ret 0
         | Some key \<Rightarrow> seq (call (on_plane (dp_RemovePeer dp key))) (seq (forgetCachedKey req) (ret 0)))
     | Some peer \<Rightarrow>
         if mp_Deleting peer then reconcileDelete api dp peer
         else if meshPeerFinalizer \<notin> set (mp_Finalizers peer) then
           seq (errorf ''adding finalizer''
                 (call (on_api (api_Update api (peer\<lparr>mp_Finalizers := mp_Finalizers peer @ [meshPeerFinalizer]\<rparr>)))))
             (ret 0)
         else reconcileApply api dp cfg peer)"

section \<open>What the reconciler relies on\<close>

text \<open>The documented behaviour of the API server on the objects: reads answer the stored
  object; an update stores the object but not its status, and removes an object that is
  being deleted once it has no finalizer; a status patch stores the status.\<close>

locale meshpeer_api =
  fixes api :: "'a peer_api" and objs :: "'a \<Rightarrow> nn \<rightharpoonup> MeshPeer"
  assumes Get_law: "query_law objs (api_Get api n) (\<lambda>found B. found = B n)"
    and named: "objs a n = Some peer \<Longrightarrow> peerKey peer = n"
    and Update_law: "command_law objs (api_Update api peer) (\<lambda>B B'. \<exists>stored. B (peerKey peer) = Some stored \<and>
        B' = B(peerKey peer := (if mp_Deleting peer \<and> mp_Finalizers peer = [] then None
                                else Some (peer\<lparr>mp_Status := mp_Status stored\<rparr>))))"
    and PatchStatus_law: "command_law objs (api_PatchStatus api peer) (\<lambda>B B'. \<exists>stored. B (peerKey peer) = Some stored \<and>
        B' = B(peerKey peer \<mapsto> stored\<lparr>mp_Status := mp_Status peer\<rparr>))"

text \<open>What a data plane keeps per peer key: \<^verbatim>\<open>ConfigurePeer\<close> that succeeds replaces the
  entry of its key by what it planned for the ranges, \<^verbatim>\<open>RemovePeer\<close> that succeeds
  removes it, and nothing else changes an entry.\<close>

locale peer_plane =
  fixes dp :: "'d PeerDataPlane" and programmed :: "'d \<Rightarrow> string \<rightharpoonup> 'p" and planned :: "string \<Rightarrow> string list \<Rightarrow> 'p"
  assumes Configure_law: "command_law programmed (dp_ConfigurePeer dp key endpoint cidrs) (\<lambda>P P'. P' = P(key \<mapsto> planned endpoint cidrs))"
    and Remove_law: "command_law programmed (dp_RemovePeer dp key) (\<lambda>P P'. P' = P(key := None))"
    and Handshake_law: "query_law programmed (dp_PeerHandshake dp key) (\<lambda>_ _. True)"

section \<open>The managers are data planes\<close>

definition routed_planned :: "string \<Rightarrow> string list \<Rightarrow> Route list" where
  "routed_planned endpoint cidrs = (case PlanRoutes cidrs (hostOnly endpoint) of Inr rs \<Rightarrow> rs | Inl _ \<Rightarrow> [])"

definition wg_planned :: "string \<Rightarrow> string list \<Rightarrow> string list" where
  "wg_planned endpoint cidrs = (case parseCIDRs cidrs of Inr ns \<Rightarrow> map string_of_net ns | Inl _ \<Rightarrow> [])"

lemma keeps_routed_call [keeps_intros]: "keeps rm_peerRoutes (call (on_routes f))"
  by (rule keeps_call) (simp add: lift_call_def split: prod.splits)

lemma keeps_install_loop [keeps_intros]:
  "(\<And>x. keeps g (put x)) \<Longrightarrow> (\<And>ys. keeps g (undo ys)) \<Longrightarrow> keeps g (install_loop put undo name xs inst)"
  by (induction xs arbitrary: inst) (auto intro!: keeps_intros)

lemma keeps_deleteRoutes [keeps_intros]: "keeps rm_peerRoutes (deleteRoutes ops rs)"
  unfolding deleteRoutes_def by (intro keeps_intros)

lemma keeps_install_route [keeps_intros]: "keeps rm_peerRoutes (install_route ops r)"
  unfolding install_route_def by (intro keeps_intros)

lemma keeps_withdraw_stale [keeps_intros]: "keeps rm_peerRoutes (withdraw_stale ops ds rs)"
  unfolding withdraw_stale_def by (auto intro!: keeps_intros)

lemma install_loop_installed:
  assumes "outcome (install_loop put undo name xs inst) m = (Inr i, m')"
  shows "i = inst @ map name xs"
  using assms
proof (induction xs arbitrary: inst m)
  case (Cons x xs)
  then show ?case by (auto simp: run_simps split: prod.splits sum.splits) fastforce
qed (simp add: run_simps)

interpretation routed_dp: peer_plane "routed_plane ops" rm_peerRoutes routed_planned for ops
proof
  fix key endpoint cidrs
  show "command_law rm_peerRoutes (dp_ConfigurePeer (routed_plane ops) key endpoint cidrs) (\<lambda>P P'. P' = P(key \<mapsto> routed_planned endpoint cidrs))"
    unfolding command_law_def
  proof (intro allI impI)
    fix m r m' assume run: "dp_ConfigurePeer (routed_plane ops) key endpoint cidrs m = (r, m')"
    show "case r of Inl _ \<Rightarrow> rm_peerRoutes m' = rm_peerRoutes m
        | Inr _ \<Rightarrow> rm_peerRoutes m' = (rm_peerRoutes m)(key \<mapsto> routed_planned endpoint cidrs)"
    proof (cases "PlanRoutes cidrs (hostOnly endpoint)")
      case (Inl e)
      then show ?thesis using run by (auto simp: routed_plane_def routed_ConfigurePeer_def run_simps)
    next
      case (Inr desired)
      obtain y m1 where i: "outcome (install_loop (install_route ops) (deleteRoutes ops) id desired []) m = (y, m1)" by fastforce
      have k1: "rm_peerRoutes m1 = rm_peerRoutes m" by (rule keepsD [OF _ i]) (intro keeps_intros)
      obtain z m2 where w: "outcome (withdraw_stale ops desired (peer_routes key m1)) m1 = (z, m2)" by fastforce
      have k2: "rm_peerRoutes m2 = rm_peerRoutes m1" by (rule keepsD [OF _ w]) (intro keeps_intros)
      show ?thesis using run Inr i w k1 k2 install_loop_installed [of "install_route ops" "deleteRoutes ops" id desired "[]" m]
        by (auto simp: routed_plane_def routed_ConfigurePeer_def routed_planned_def run_simps split: sum.splits)
    qed
  qed
next
  fix key
  show "command_law rm_peerRoutes (dp_RemovePeer (routed_plane ops) key) (\<lambda>P P'. P' = P(key := None))"
    unfolding command_law_def
  proof (intro allI impI)
    fix m r m' assume run: "dp_RemovePeer (routed_plane ops) key m = (r, m')"
    obtain z m1 where w: "outcome (deleteRoutes ops (peer_routes key m)) m = (z, m1)" by fastforce
    have "rm_peerRoutes m1 = rm_peerRoutes m" by (rule keepsD [OF _ w]) (intro keeps_intros)
    then show "case r of Inl _ \<Rightarrow> rm_peerRoutes m' = rm_peerRoutes m | Inr _ \<Rightarrow> rm_peerRoutes m' = (rm_peerRoutes m)(key := None)"
      using run w by (auto simp: routed_plane_def routed_RemovePeer_def run_simps split: sum.splits)
  qed
next
  fix key
  show "query_law rm_peerRoutes (dp_PeerHandshake (routed_plane ops) key) (\<lambda>_ _. True)"
    by (auto simp: query_law_def routed_plane_def routed_PeerHandshake_def run_simps)
qed

lemma keeps_wg_call [keeps_intros]: "keeps wm_peerRoutes (call (on_wg f))"
  by (rule keeps_call) (simp add: lift_call_def split: prod.splits)

lemma keeps_wg_call_nl [keeps_intros]: "keeps wm_peerRoutes (call_nl (on_wg f))"
  unfolding call_nl_def by (rule keeps_call) (simp add: lift_call_def split: prod.splits)

lemma keeps_ensureLink [keeps_intros]: "keeps wm_peerRoutes (ensureLinkLocked host name)"
  unfolding ensureLinkLocked_def by (intro keeps_intros) (auto intro!: keeps_intros split: sum.splits)

lemma keeps_rollback [keeps_intros]: "keeps wm_peerRoutes (rollbackRoutesLocked host idx cs)"
  unfolding rollbackRoutesLocked_def by (intro keeps_intros) (auto intro!: keeps_intros split: sum.splits)

lemma keeps_wg_install [keeps_intros]: "keeps wm_peerRoutes (wg_install host name idx n)"
  unfolding wg_install_def by (intro keeps_intros)

lemma keeps_configure_device [keeps_intros]: "keeps wm_peerRoutes (configure_device host name cfg)"
  unfolding configure_device_def by (intro keeps_intros)

lemma wg_program_record:
  assumes run: "outcome (wg_program host pk key udp nets) m = (r, m')"
  shows "case r of Inl _ \<Rightarrow> wm_peerRoutes m' = wm_peerRoutes m
    | Inr _ \<Rightarrow> wm_peerRoutes m' = (wm_peerRoutes m)(pk \<mapsto> map string_of_net nets)"
proof -
  let ?n = "wm_ifaceName m"
  obtain l m1 where l: "outcome (ensureLinkLocked host ?n) m = (l, m1)" by fastforce
  have k1: "wm_peerRoutes m1 = wm_peerRoutes m" by (rule keepsD [OF _ l]) (intro keeps_intros)
  show ?thesis
  proof (cases l)
    case (Inl e)
    then show ?thesis using run l k1 by (auto simp: wg_program_def run_simps)
  next
    case (Inr link)
    obtain c m2 where c: "outcome (configure_device host ?n (peer_upsert key udp nets (wm_keepalive m))) m1 = (c, m2)" by fastforce
    have k2: "wm_peerRoutes m2 = wm_peerRoutes m1" by (rule keepsD [OF _ c]) (intro keeps_intros)
    let ?loop = "install_loop (wg_install host ?n (li_Index link)) (rollbackRoutesLocked host (li_Index link)) string_of_net nets []"
    obtain i m3 where i: "outcome ?loop m2 = (i, m3)" by fastforce
    have k3: "wm_peerRoutes m3 = wm_peerRoutes m2" by (rule keepsD [OF _ i]) (intro keeps_intros)
    obtain x m4 where x: "outcome (rollbackRoutesLocked host (li_Index link)
        (staleRoutes (wg_recorded pk m3) (map string_of_net nets))) m3 = (x, m4)" by fastforce
    have k4: "wm_peerRoutes m4 = wm_peerRoutes m3" by (rule keepsD [OF _ x]) (intro keeps_intros)
    note k = k1 k2 k3 k4
    have inst: "i = Inr j \<Longrightarrow> j = map string_of_net nets" for j
      using install_loop_installed [of _ _ string_of_net nets "[]" m2 j m3] i by auto
    show ?thesis
    proof (cases c)
      case (Inl e)
      then show ?thesis using run l Inr c k by (auto simp: wg_program_def run_simps)
    next
      case c': (Inr s)
      show ?thesis
      proof (cases s; cases i)
        fix u j assume "s = Inr u" "i = Inr j"
        then show ?thesis using run l Inr c c' i inst x k
          by (auto simp: wg_program_def run_simps split: sum.splits)
      qed (use run l Inr c c' i k in \<open>auto simp: wg_program_def run_simps\<close>)
    qed
  qed
qed

lemma wg_RemovePeer_record:
  assumes run: "outcome (wg_RemovePeer host parseKey pk) m = (r, m')"
  shows "case r of Inl _ \<Rightarrow> wm_peerRoutes m' = wm_peerRoutes m | Inr _ \<Rightarrow> wm_peerRoutes m' = (wm_peerRoutes m)(pk := None)"
proof (cases "parseKey pk")
  case (Inr key)
  let ?n = "wm_ifaceName m"
  obtain c m1 where c: "outcome (configure_device host ?n (peer_drop key)) m = (c, m1)" by fastforce
  have k1: "wm_peerRoutes m1 = wm_peerRoutes m" by (rule keepsD [OF _ c]) (intro keeps_intros)
  let ?clean = "case wm_peerRoutes m pk of None \<Rightarrow> ret ()
     | Some cidrs \<Rightarrow> bind_run (call_nl (on_wg (h_LinkByName host ?n))) (\<lambda>r. case r of
         Inr link \<Rightarrow> rollbackRoutesLocked host (li_Index link) cidrs
       | Inl lerr \<Rightarrow> if \<not> isLinkNotFound lerr then failing (''wg: looking up link for route cleanup: '' @ nl_text lerr) else ret ())"
  obtain x m2 where x: "outcome ?clean m1 = (x, m2)" by fastforce
  have "keeps wm_peerRoutes ?clean" by (auto intro!: keeps_intros split: option.splits sum.splits)
  from keepsD [OF this x] have k2: "wm_peerRoutes m2 = wm_peerRoutes m1" .
  show ?thesis
  proof (cases c)
    case (Inr s)
    show ?thesis
    proof (cases s)
      fix u assume "s = Inr u"
      then show ?thesis using run \<open>parseKey pk = Inr key\<close> c x Inr k1 k2
        by (cases x) (auto simp: wg_RemovePeer_def forget_peer_def run_simps)
    qed (use run \<open>parseKey pk = Inr key\<close> c Inr k1 in
        \<open>auto simp: wg_RemovePeer_def forget_peer_def run_simps split: if_splits\<close>)
  qed (use run \<open>parseKey pk = Inr key\<close> c k1 in \<open>auto simp: wg_RemovePeer_def run_simps\<close>)
qed (use run in \<open>auto simp: wg_RemovePeer_def run_simps\<close>)

interpretation wg_dp: peer_plane "wg_plane host parseKey resolveUDP" wm_peerRoutes wg_planned for host parseKey resolveUDP
proof
  fix key endpoint cidrs
  show "command_law wm_peerRoutes (dp_ConfigurePeer (wg_plane host parseKey resolveUDP) key endpoint cidrs)
     (\<lambda>P P'. P' = P(key \<mapsto> wg_planned endpoint cidrs))"
    unfolding command_law_def
    by (auto simp: wg_plane_def wg_ConfigurePeer_def wg_planned_def run_simps split: sum.splits dest: wg_program_record)
next
  fix key
  show "command_law wm_peerRoutes (dp_RemovePeer (wg_plane host parseKey resolveUDP) key) (\<lambda>P P'. P' = P(key := None))"
    unfolding command_law_def by (intro allI impI wg_RemovePeer_record) (simp add: wg_plane_def)
next
  fix key
  have "keeps wm_peerRoutes (wg_PeerHandshake host parseKey key)"
    unfolding wg_PeerHandshake_def by (auto intro!: keeps_intros split: sum.splits)
  then show "query_law wm_peerRoutes (dp_PeerHandshake (wg_plane host parseKey resolveUDP) key) (\<lambda>_ _. True)"
    unfolding query_law_def wg_plane_def by (auto dest: keepsD split: sum.splits)
qed

section \<open>An API server in memory\<close>

text \<open>The objects in a list, and a schedule of the writes that are refused.\<close>

record store =
  st_objects :: "MeshPeer list"
  st_faults :: "bool list"

definition st_objs :: "store \<Rightarrow> nn \<rightharpoonup> MeshPeer" where
  "st_objs a n = find (\<lambda>p. peerKey p = n) (st_objects a)"

definition st_put :: "MeshPeer option \<Rightarrow> nn \<Rightarrow> store \<Rightarrow> store" where
  "st_put new n a = a\<lparr>st_objects := (case new of None \<Rightarrow> [] | Some p \<Rightarrow> [p]) @ filter (\<lambda>p. peerKey p \<noteq> n) (st_objects a)\<rparr>"

definition st_write :: "nn \<Rightarrow> (MeshPeer \<Rightarrow> MeshPeer option) \<Rightarrow> store \<Rightarrow> unit result \<times> store" where
  "st_write n f a = (let b = a\<lparr>st_faults := tl (st_faults a)\<rparr> in
     if st_faults a \<noteq> [] \<and> hd (st_faults a) then (Inl ''the server is currently unable to handle the request'', b)
     else case st_objs a n of None \<Rightarrow> (Inl ''not found'', b) | Some stored \<Rightarrow> (Inr (), st_put (f stored) n b))"

definition mem_api :: "store peer_api" where
  "mem_api = \<lparr>api_Get = (\<lambda>n a. (Inr (st_objs a n), a)),
     api_Update = (\<lambda>p. st_write (peerKey p) (\<lambda>stored. if mp_Deleting p \<and> mp_Finalizers p = [] then None
                        else Some (p\<lparr>mp_Status := mp_Status stored\<rparr>))),
     api_PatchStatus = (\<lambda>p. st_write (peerKey p) (\<lambda>stored. Some (stored\<lparr>mp_Status := mp_Status p\<rparr>)))\<rparr>"

lemma st_objs_named: "st_objs a n = Some p \<Longrightarrow> peerKey p = n"
  by (auto simp: st_objs_def find_Some_iff)

lemma find_other: "(\<And>x. P x \<Longrightarrow> Q x) \<Longrightarrow> find P (filter Q xs) = find P xs"
  by (induction xs) auto

lemma st_objs_put:
  assumes "\<And>p. new = Some p \<Longrightarrow> peerKey p = n"
  shows "st_objs (st_put new n a) = (st_objs a)(n := new)"
proof
  fix n'
  have "n' \<noteq> n \<Longrightarrow> find (\<lambda>p. peerKey p = n') (filter (\<lambda>p. peerKey p \<noteq> n) (st_objects a)) = st_objs a n'"
    unfolding st_objs_def by (rule find_other) auto
  moreover have "find (\<lambda>p. peerKey p = n) (filter (\<lambda>p. peerKey p \<noteq> n) (st_objects a)) = None"
    by (auto simp: find_None_iff)
  ultimately show "st_objs (st_put new n a) n' = ((st_objs a)(n := new)) n'"
    using assms by (cases new) (auto simp: st_objs_def st_put_def)
qed

lemma st_write_law:
  assumes "\<And>stored p. peerKey stored = n \<Longrightarrow> f stored = Some p \<Longrightarrow> peerKey p = n"
  shows "command_law st_objs (st_write n f) (\<lambda>B B'. \<exists>stored. B n = Some stored \<and> B' = B(n := f stored))"
proof -
  have keep: "st_objs (a\<lparr>st_faults := l\<rparr>) = st_objs a" for a l by (simp add: st_objs_def fun_eq_iff)
  have "st_objs a n = Some stored \<Longrightarrow> st_objs (st_put (f stored) n (a\<lparr>st_faults := l\<rparr>)) = (st_objs a)(n := f stored)" for a l stored
    using st_objs_put [of "f stored" n "a\<lparr>st_faults := l\<rparr>"] assms st_objs_named keep by metis
  then show ?thesis
    by (auto simp: command_law_def st_write_def Let_def keep split: if_splits option.splits)
qed

interpretation mem_store: meshpeer_api mem_api st_objs
proof
  show "query_law st_objs (api_Get mem_api n) (\<lambda>found B. found = B n)" for n
    by (simp add: mem_api_def query_law_def)
next
  fix peer :: MeshPeer
  show "command_law st_objs (api_Update mem_api peer) (\<lambda>B B'. \<exists>stored. B (peerKey peer) = Some stored \<and>
        B' = B(peerKey peer := (if mp_Deleting peer \<and> mp_Finalizers peer = [] then None
                                else Some (peer\<lparr>mp_Status := mp_Status stored\<rparr>))))"
    unfolding mem_api_def peer_api.simps by (rule st_write_law) (auto simp: peerKey_def split: if_splits)
  show "command_law st_objs (api_PatchStatus mem_api peer) (\<lambda>B B'. \<exists>stored. B (peerKey peer) = Some stored \<and>
        B' = B(peerKey peer \<mapsto> stored\<lparr>mp_Status := mp_Status peer\<rparr>))"
    unfolding mem_api_def peer_api.simps by (rule st_write_law) (auto simp: peerKey_def)
qed (rule st_objs_named)

section \<open>The reconciler as a transition system\<close>

text \<open>What one pass may do to the data plane's entries \<open>P\<close> and to the key index \<open>K\<close>, given
  the object it reads. Every pass, also one that fails half-way, is one of these steps.\<close>

type_synonym 'p peer_view = "(string \<rightharpoonup> 'p) \<times> (nn \<rightharpoonup> string)"

definition without_rotated :: "string \<Rightarrow> string option \<Rightarrow> (string \<rightharpoonup> 'p) \<Rightarrow> (string \<rightharpoonup> 'p)" where
  "without_rotated key cached P = (case cached of Some old \<Rightarrow> if old \<noteq> key then P(old := None) else P | None \<Rightarrow> P)"

inductive peer_step ::
  "(string \<Rightarrow> string list \<Rightarrow> 'p) \<Rightarrow> peer_config \<Rightarrow> nn \<Rightarrow> MeshPeer option \<Rightarrow> 'p peer_view \<Rightarrow> 'p peer_view \<Rightarrow> bool"
  for planned cfg n obj where
  idle: "peer_step planned cfg n obj (P, K) (P, K)"
| rotate: "obj = Some peer \<Longrightarrow> \<not> mp_Deleting peer \<Longrightarrow> K n = Some old \<Longrightarrow> old \<noteq> sp_PublicKey (mp_Spec peer) \<Longrightarrow>
    peer_step planned cfg n obj (P, K) (P(old := None), K)"
| program: "obj = Some peer \<Longrightarrow> \<not> mp_Deleting peer \<Longrightarrow> meshPeerFinalizer \<in> set (mp_Finalizers peer) \<Longrightarrow>
    route_decision cfg (mp_Spec peer) = Ret (cs, phase, message) \<Longrightarrow> key = sp_PublicKey (mp_Spec peer) \<Longrightarrow>
    peer_step planned cfg n obj (P, K)
      ((without_rotated key (K n) P)(key \<mapsto> planned (sp_Endpoint (mp_Spec peer)) cs), K(n \<mapsto> key))"
| finalize: "obj = Some peer \<Longrightarrow> mp_Deleting peer \<Longrightarrow> meshPeerFinalizer \<in> set (mp_Finalizers peer) \<Longrightarrow>
    P' = (if sp_PublicKey (mp_Spec peer) = '''' then P else P(sp_PublicKey (mp_Spec peer) := None)) \<Longrightarrow>
    peer_step planned cfg n obj (P, K) (P', K(n := None))"
| withdraw: "obj = None \<Longrightarrow> K n = Some key \<Longrightarrow> peer_step planned cfg n obj (P, K) (P(key := None), K(n := None))"

inductive_cases peer_stepE: "peer_step planned cfg n obj (P, K) (P', K')"

lemma keeps_plane_api [keeps_intros]: "keeps mr_plane (call (on_api f))"
  by (rule keeps_call) (simp add: lift_call_def split: prod.splits)

lemma keeps_index_api [keeps_intros]: "keeps mr_keyIndex (call (on_api f))"
  by (rule keeps_call) (simp add: lift_call_def split: prod.splits)

lemma keeps_index_plane [keeps_intros]: "keeps mr_keyIndex (call (on_plane f))"
  by (rule keeps_call) (simp add: lift_call_def split: prod.splits)

lemma keeps_api_plane [keeps_intros]: "keeps mr_api (call (on_plane f))"
  by (rule keeps_call) (simp add: lift_call_def split: prod.splits)

lemma keeps_patchStatus [keeps_intros]:
  "keeps mr_plane (patchStatus api peer phase handshake message)"
  "keeps mr_keyIndex (patchStatus api peer phase handshake message)"
  unfolding patchStatus_def by (auto intro!: keeps_intros)

lemma keeps_fail [keeps_intros]: "keeps mr_plane (fail api peer msg)" "keeps mr_keyIndex (fail api peer msg)"
  unfolding fail_def by (intro keeps_intros)+

lemma outcome_fail:
  assumes "outcome (fail api peer msg) s = (r, t)"
  shows "\<exists>e. r = Inl e" "mr_plane t = mr_plane s" "mr_keyIndex t = mr_keyIndex s"
  using assms keepsD [OF keeps_fail(1) assms] keepsD [OF keeps_fail(2) assms]
  by (auto simp: fail_def run_simps split: prod.splits sum.splits)

lemma outcome_on_plane: "outcome (call (on_plane f)) m = (case f (mr_plane m) of (r, d) \<Rightarrow> (r, m\<lparr>mr_plane := d\<rparr>))"
  by (simp add: outcome_call lift_call_def)

lemma outcome_on_api: "outcome (call (on_api f)) m = (case f (mr_api m) of (r, a) \<Rightarrow> (r, m\<lparr>mr_api := a\<rparr>))"
  by (simp add: outcome_call lift_call_def)

locale peer_reconciler = meshpeer_api api objs + peer_plane dp programmed planned
  for api :: "'a peer_api" and objs :: "'a \<Rightarrow> nn \<rightharpoonup> MeshPeer" and dp :: "'d PeerDataPlane"
    and programmed :: "'d \<Rightarrow> string \<rightharpoonup> 'p" and planned :: "string \<Rightarrow> string list \<Rightarrow> 'p"
begin

definition pview :: "('a, 'd) reconciler \<Rightarrow> 'p peer_view" where
  "pview m = (programmed (mr_plane m), mr_keyIndex m)"

lemma remove_view:
  assumes "outcome (call (on_plane (dp_RemovePeer dp key))) m = (r, m')"
  shows "r = Inl e \<Longrightarrow> pview m' = pview m" "r = Inr u \<Longrightarrow> pview m' = ((programmed (mr_plane m))(key := None), mr_keyIndex m)"
proof -
  obtain x d where d: "dp_RemovePeer dp key (mr_plane m) = (x, d)" by fastforce
  then have "r = x" "m' = m\<lparr>mr_plane := d\<rparr>" using assms by (simp_all add: outcome_on_plane)
  then show "r = Inl e \<Longrightarrow> pview m' = pview m" "r = Inr u \<Longrightarrow> pview m' = ((programmed (mr_plane m))(key := None), mr_keyIndex m)"
    using command_lawD [OF Remove_law d] by (simp_all add: pview_def)
qed

lemma configure_view:
  assumes "outcome (call (on_plane (dp_ConfigurePeer dp key endpoint cs))) m = (r, m')"
  shows "r = Inl e \<Longrightarrow> pview m' = pview m"
    "r = Inr u \<Longrightarrow> pview m' = ((programmed (mr_plane m))(key \<mapsto> planned endpoint cs), mr_keyIndex m)"
proof -
  obtain x d where d: "dp_ConfigurePeer dp key endpoint cs (mr_plane m) = (x, d)" by fastforce
  then have "r = x" "m' = m\<lparr>mr_plane := d\<rparr>" using assms by (simp_all add: outcome_on_plane)
  then show "r = Inl e \<Longrightarrow> pview m' = pview m"
    "r = Inr u \<Longrightarrow> pview m' = ((programmed (mr_plane m))(key \<mapsto> planned endpoint cs), mr_keyIndex m)"
    using command_lawD [OF Configure_law d] by (simp_all add: pview_def)
qed

lemma pview_keeps: "keeps mr_plane c \<Longrightarrow> keeps mr_keyIndex c \<Longrightarrow> keeps pview c"
  by (simp add: keeps_def pview_def)

lemma handshake_view: "keeps pview (call (on_plane (dp_PeerHandshake dp key)))"
proof (rule keeps_call)
  fix m :: "('a, 'd) reconciler"
  obtain x d where "dp_PeerHandshake dp key (mr_plane m) = (x, d)" by fastforce
  with query_lawD(1) [OF Handshake_law this] show "pview (snd (on_plane (dp_PeerHandshake dp key) m)) = pview m"
    by (simp add: lift_call_def pview_def)
qed

lemma keeps_pview_fail: "keeps pview (fail api peer msg)"
  by (intro pview_keeps keeps_intros)

lemma rotate_view:
  assumes "outcome (remove_rotated api dp peer) m = (r, m')"
  defines "key \<equiv> sp_PublicKey (mp_Spec peer)" and "n \<equiv> peerKey peer"
  shows "r = Inl e \<Longrightarrow> pview m' = pview m"
    "r = Inr u \<Longrightarrow> pview m' = (without_rotated key (mr_keyIndex m n) (programmed (mr_plane m)), mr_keyIndex m)"
proof -
  have "(\<forall>e. r = Inl e \<longrightarrow> pview m' = pview m) \<and>
    (\<forall>u. r = Inr u \<longrightarrow> pview m' = (without_rotated key (mr_keyIndex m n) (programmed (mr_plane m)), mr_keyIndex m))"
  proof (cases "\<exists>old. mr_keyIndex m n = Some old \<and> old \<noteq> key")
    case True
    then obtain old where old: "mr_keyIndex m (peerKey peer) = Some old" "old \<noteq> sp_PublicKey (mp_Spec peer)" unfolding key_def n_def by blast
    obtain x m1 where x: "outcome (call (on_plane (dp_RemovePeer dp old))) m = (x, m1)" by fastforce
    show ?thesis
    proof (cases x)
      case (Inl e)
      then have "outcome (fail api peer (''removing rotated peer key: '' @ e) :: (('a, 'd) reconciler, unit) run) m1 = (r, m')"
        using assms old x by (simp add: remove_rotated_def lookupCachedKey_def key_def n_def outcome_bind outcome_gets outcome_on_error)
      then show ?thesis using outcome_fail(1) keepsD [OF keeps_pview_fail] remove_view(1) [OF x] Inl by fastforce
    next
      case (Inr u)
      then show ?thesis using assms old x remove_view(2) [OF x]
        by (auto simp: remove_rotated_def lookupCachedKey_def key_def n_def outcome_bind outcome_gets outcome_on_error without_rotated_def)
    qed
  next
    case False
    then show ?thesis using assms
      by (cases "mr_keyIndex m (peerKey peer)") (auto simp: remove_rotated_def lookupCachedKey_def key_def n_def run_simps without_rotated_def pview_def)
  qed
  then show "r = Inl e \<Longrightarrow> pview m' = pview m"
    "r = Inr u \<Longrightarrow> pview m' = (without_rotated key (mr_keyIndex m n) (programmed (mr_plane m)), mr_keyIndex m)" by blast+
qed

text \<open>A pass over a live object either stops before programming, having at most withdrawn
  the rotated key, or programs the peer and records its key, whatever happens to the
  status report.\<close>

lemma apply_view:
  assumes run: "outcome (reconcileApply api dp cfg peer) m = (r, m')"
    and dec: "route_decision cfg (mp_Spec peer) = Ret (cs, phase, message)"
  defines "key \<equiv> sp_PublicKey (mp_Spec peer)"
    and "P0 \<equiv> without_rotated (sp_PublicKey (mp_Spec peer)) (mr_keyIndex m (peerKey peer)) (programmed (mr_plane m))"
  shows "pview m' \<in> {pview m, (P0, mr_keyIndex m)} \<or>
    pview m' = (P0(key \<mapsto> planned (sp_Endpoint (mp_Spec peer)) cs), (mr_keyIndex m)(peerKey peer \<mapsto> key))"
proof -
  let ?rot = "remove_rotated api dp peer"
  let ?conf = "call (on_plane (dp_ConfigurePeer dp key (sp_Endpoint (mp_Spec peer)) cs))"
  let ?tail = "report api dp peer phase message"
  have run': "outcome (seq ?rot (seq (on_error ?conf (\<lambda>e. fail api peer (''configuring peer data plane: '' @ e)))
      (seq (rememberCachedKey (peerKey peer) key) ?tail))) m = (r, m')"
    using run unfolding reconcileApply_def Let_def dec key_def by simp
  obtain a m1 where a: "outcome ?rot m = (a, m1)" by fastforce
  show ?thesis
  proof (cases a)
    case (Inl e)
    then show ?thesis using run' a rotate_view(1) [OF a] by (simp add: outcome_seq)
  next
    case (Inr u)
    then have v1: "pview m1 = (P0, mr_keyIndex m)" using rotate_view(2) [OF a] by (simp add: P0_def key_def)
    obtain c m2 where c: "outcome ?conf m1 = (c, m2)" by fastforce
    show ?thesis
    proof (cases c)
      case (Inl e)
      obtain x t where f: "outcome (fail api peer (''configuring peer data plane: '' @ e) :: (('a, 'd) reconciler, unit) run) m2 = (x, t)" by fastforce
      then have "m' = t" using run' a c \<open>a = Inr u\<close> Inl outcome_fail(1) [OF f] by (auto simp: outcome_seq outcome_on_error)
      then show ?thesis using keepsD [OF keeps_pview_fail f] configure_view(1) [OF c] Inl v1 by simp
    next
      case c': (Inr w)
      let ?mc = "m2\<lparr>mr_keyIndex := (mr_keyIndex m2)(peerKey peer \<mapsto> key)\<rparr>"
      have "outcome ?tail ?mc = (r, m')"
        using run' a c Inr c' by (simp add: outcome_seq outcome_on_error rememberCachedKey_def outcome_modify)
      moreover have "keeps pview ?tail"
        unfolding report_def by (intro keeps_intros handshake_view pview_keeps)
      ultimately have "pview m' = pview ?mc" by (rule keepsD [rotated])
      then show ?thesis using configure_view(2) [OF c] c' v1 by (simp add: pview_def)
    qed
  qed
qed

lemma apply_step:
  assumes obj: "obj = Some peer" "\<not> mp_Deleting peer" "meshPeerFinalizer \<in> set (mp_Finalizers peer)" "peerKey peer = n"
    and run: "outcome (reconcileApply api dp cfg peer) m = (r, m')"
  shows "peer_step planned cfg n obj (pview m) (pview m')"
proof (cases "route_decision cfg (mp_Spec peer)")
  case (Ret d)
  obtain cs phase message where d: "d = (cs, phase, message)" by (metis prod_cases3)
  let ?P = "programmed (mr_plane m)" and ?key = "sp_PublicKey (mp_Spec peer)"
  let ?Q = "without_rotated ?key (mr_keyIndex m n) ?P"
  have "peer_step planned cfg n obj (?P, mr_keyIndex m) (?Q, mr_keyIndex m)"
  proof (cases "\<exists>old. mr_keyIndex m n = Some old \<and> old \<noteq> ?key")
    case True
    then obtain old where old: "mr_keyIndex m n = Some old" "old \<noteq> ?key" by blast
    then have "?Q = ?P(old := None)" by (simp add: without_rotated_def)
    with peer_step.rotate [where K = "mr_keyIndex m" and n = n, OF obj(1,2) old] show ?thesis by (simp only:)
  next
    case False
    then show ?thesis by (auto simp: without_rotated_def intro: peer_step.idle split: option.splits)
  qed
  moreover have "peer_step planned cfg n obj (?P, mr_keyIndex m)
      (?Q(?key \<mapsto> planned (sp_Endpoint (mp_Spec peer)) cs), (mr_keyIndex m)(n \<mapsto> ?key))"
    using obj Ret d by (intro peer_step.program) auto
  moreover have "peer_step planned cfg n obj (?P, mr_keyIndex m) (?P, mr_keyIndex m)" by (rule peer_step.idle)
  ultimately show ?thesis
    using apply_view [OF run Ret [unfolded d]] unfolding obj(4) pview_def by (elim disjE insertE) simp_all
next
  case (Err e)
  then have "outcome (fail api peer e) m = (r, m')" using run by (simp add: reconcileApply_def)
  from keepsD [OF keeps_pview_fail this] show ?thesis using peer_step.idle by (simp add: pview_def)
next
  case (Panic e)
  then have "m' = m" using run by (simp add: reconcileApply_def outcome_failing)
  then show ?thesis using peer_step.idle by (simp add: pview_def)
qed

lemma delete_step:
  assumes obj: "obj = Some peer" "mp_Deleting peer" "peerKey peer = n"
    and run: "outcome (reconcileDelete api dp peer) m = (r, m')"
  shows "peer_step planned cfg n obj (pview m) (pview m')"
proof (cases "meshPeerFinalizer \<in> set (mp_Finalizers peer)")
  case True
  let ?key = "sp_PublicKey (mp_Spec peer)" and ?P = "programmed (mr_plane m)"
  let ?rm = "if ?key \<noteq> '''' then call (on_plane (dp_RemovePeer dp ?key)) else ret ()"
  obtain x m1 where x: "outcome ?rm m = (x, m1)" by fastforce
  let ?upd = "seq (errorf ''removing finalizer'' (call (on_api (api_Update api (peer\<lparr>mp_Finalizers :=
      filter (\<lambda>f. f \<noteq> meshPeerFinalizer) (mp_Finalizers peer)\<rparr>))))) (ret (0::int))"
  have run': "outcome (seq ?rm (seq (forgetCachedKey (peerKey peer)) ?upd)) m = (r, m')"
    using run True unfolding reconcileDelete_def by simp
  show ?thesis
  proof (cases x)
    case (Inl e)
    then have "pview m1 = pview m" using x remove_view(1) [of ?key m x m1 e] by (auto simp: outcome_ret split: if_splits)
    moreover have "m' = m1" using run' x Inl by (simp add: outcome_seq)
    ultimately show ?thesis using peer_step.idle by (simp add: pview_def)
  next
    case (Inr u)
    then have v: "pview m1 = (if ?key = '''' then ?P else ?P(?key := None), mr_keyIndex m)"
      using x remove_view(2) [of ?key m x m1 u] by (auto simp: outcome_ret pview_def split: if_splits)
    let ?mb = "m1\<lparr>mr_keyIndex := (mr_keyIndex m1)(n := None)\<rparr>"
    have "outcome ?upd ?mb = (r, m')"
      using run' x Inr obj(3) by (simp add: outcome_seq forgetCachedKey_def outcome_modify)
    moreover have "keeps pview ?upd" by (intro pview_keeps keeps_intros)
    ultimately have "pview m' = pview ?mb" by (rule keepsD [rotated])
    then show ?thesis using v obj True by (auto simp: pview_def intro!: peer_step.finalize)
  qed
next
  case False
  then show ?thesis using run peer_step.idle by (simp add: reconcileDelete_def outcome_ret pview_def)
qed

lemma gone_step:
  assumes "obj = None" "outcome (bind_run (lookupCachedKey n) (\<lambda>key. case key of None \<Rightarrow> ret 0
     | Some key \<Rightarrow> seq (call (on_plane (dp_RemovePeer dp key))) (seq (forgetCachedKey n) (ret 0)))) m = (r, m')"
  shows "peer_step planned cfg n obj (pview m) (pview m')"
proof (cases "mr_keyIndex m n")
  case None
  then show ?thesis using assms peer_step.idle by (simp add: lookupCachedKey_def run_simps pview_def)
next
  case (Some key)
  obtain x m1 where x: "outcome (call (on_plane (dp_RemovePeer dp key))) m = (x, m1)" by fastforce
  show ?thesis
  proof (cases x)
    case (Inl e)
    then have "m' = m1" using assms x Some by (simp add: lookupCachedKey_def outcome_bind outcome_gets outcome_seq)
    then show ?thesis using remove_view(1) [OF x] Inl peer_step.idle by (simp add: pview_def)
  next
    case (Inr u)
    then have "m' = m1\<lparr>mr_keyIndex := (mr_keyIndex m1)(n := None)\<rparr>" using assms x Some
      by (simp add: lookupCachedKey_def outcome_bind outcome_gets outcome_seq forgetCachedKey_def outcome_modify outcome_ret)
    then show ?thesis using remove_view(2) [OF x] Inr Some assms(1) by (simp add: pview_def peer_step.withdraw)
  qed
qed

lemma Reconcile_step:
  assumes run: "outcome (Reconcile api dp cfg n) m = (r, m')"
  shows "peer_step planned cfg n (objs (mr_api m) n) (pview m) (pview m')"
proof -
  obtain x a where g: "api_Get api n (mr_api m) = (x, a)" by fastforce
  let ?ma = "m\<lparr>mr_api := a\<rparr>"
  have v: "pview ?ma = pview m" by (simp add: pview_def)
  show ?thesis
  proof (cases x)
    case (Inl e)
    then show ?thesis using run g v peer_step.idle
      by (simp add: Reconcile_def outcome_bind outcome_errorf outcome_on_api pview_def)
  next
    case (Inr found)
    then have found: "objs (mr_api m) n = found" using query_lawD [OF Get_law g] by simp
    note run' = run [unfolded Reconcile_def outcome_bind outcome_errorf outcome_on_api g Inr, simplified]
    show ?thesis
    proof (cases found)
      case None
      then show ?thesis using gone_step [of found n ?ma] run' v found by simp
    next
      case (Some peer)
      then have n: "peerKey peer = n" using named found by blast
      consider "mp_Deleting peer" | "\<not> mp_Deleting peer" "meshPeerFinalizer \<in> set (mp_Finalizers peer)"
        | "\<not> mp_Deleting peer" "meshPeerFinalizer \<notin> set (mp_Finalizers peer)" by blast
      then show ?thesis
      proof cases
        case 1
        then show ?thesis using delete_step [OF Some 1 n, of ?ma r m'] run' v found Some by simp
      next
        case 2
        then show ?thesis using apply_step [OF Some 2 n, of cfg ?ma r m'] run' v found Some by simp
      next
        case 3
        let ?c = "seq (errorf ''adding finalizer'' (call (on_api (api_Update api
            (peer\<lparr>mp_Finalizers := mp_Finalizers peer @ [meshPeerFinalizer]\<rparr>))))) (ret (0::int))"
        have "outcome ?c ?ma = (r, m')" using run' Some 3 by simp
        moreover have "keeps pview ?c" by (intro pview_keeps keeps_intros)
        ultimately have "pview m' = pview ?ma" by (rule keepsD [rotated])
        then show ?thesis using v peer_step.idle by (simp add: pview_def)
      qed
    qed
  qed
qed

end

section \<open>Safety of what is programmed\<close>

text \<open>All histories of one agent: passes over any objects, successful or not, with
  arbitrary changes of the API server's state between them.\<close>

inductive peer_reach ::
  "'a peer_api \<Rightarrow> 'd PeerDataPlane \<Rightarrow> peer_config \<Rightarrow> ('a, 'd) reconciler \<Rightarrow> ('a, 'd) reconciler \<Rightarrow> bool"
  for api dp cfg m0 where
  start: "peer_reach api dp cfg m0 m0"
| pass: "peer_reach api dp cfg m0 m \<Longrightarrow> outcome (Reconcile api dp cfg n) m = (r, m') \<Longrightarrow> peer_reach api dp cfg m0 m'"
| world: "peer_reach api dp cfg m0 m \<Longrightarrow> peer_reach api dp cfg m0 (m\<lparr>mr_api := a\<rparr>)"

text \<open>An entry that the decision for some specification explains.\<close>

definition explained :: "(string \<Rightarrow> string list \<Rightarrow> 'p) \<Rightarrow> peer_config \<Rightarrow> string \<Rightarrow> 'p \<Rightarrow> bool" where
  "explained planned cfg key e \<longleftrightarrow> (\<exists>spec cs phase message. route_decision cfg spec = Ret (cs, phase, message) \<and>
     sp_PublicKey spec = key \<and> e = planned (sp_Endpoint spec) cs)"

lemma explainedI:
  "route_decision cfg spec = Ret (cs, phase, message) \<Longrightarrow> explained planned cfg (sp_PublicKey spec) (planned (sp_Endpoint spec) cs)"
  unfolding explained_def by blast

lemma peer_step_explained:
  assumes "peer_step planned cfg n obj (P, K) (P', K')" "\<And>key e. P key = Some e \<Longrightarrow> explained planned cfg key e"
    "P' key = Some e"
  shows "explained planned cfg key e"
  using assms
  by (cases rule: peer_stepE) (auto simp: without_rotated_def explainedI split: option.splits if_splits)

context peer_reconciler begin

lemma reach_explained:
  assumes "peer_reach api dp cfg m0 m" "programmed (mr_plane m0) = Map.empty" "programmed (mr_plane m) key = Some e"
  shows "explained planned cfg key e"
  using assms(1,3)
proof (induction arbitrary: key e)
  case start
  then show ?case using assms(2) by simp
next
  case (pass m n r m')
  then show ?case using peer_step_explained Reconcile_step [OF pass.hyps(2)] unfolding pview_def by metis
qed simp

end

lemma PlanRemap_virtual:
  assumes "PlanRemap pool lid ls pid cs = Ret plan" "v \<in> set (rp_RouteVirtual plan)"
  shows "\<exists>cy\<in>set cs. VirtualCIDR pool pid cy = Ret v"
  using assms(2) PlanRemap_routes_set [OF assms(1)] by blast

text \<open>What the reconciler may route: a range that passes the screen, or a virtual range.\<close>

definition route_safe :: "peer_config \<Rightarrow> string \<Rightarrow> bool" where
  "route_safe cfg c \<longleftrightarrow> may_route (pc_LocalCIDRs cfg) c \<or>
     pc_RemapPool cfg \<noteq> '''' \<and> (\<exists>pid cy. VirtualCIDR (pc_RemapPool cfg) pid cy = Ret c)"

lemma route_decision_safe:
  assumes "route_decision cfg spec = Ret (cs, phase, message)" "c \<in> set cs"
  shows "sp_PublicKey spec \<noteq> ''''" "route_safe cfg c"
proof -
  let ?p = "PlanPeer spec (pc_LocalCIDRs cfg)"
  show "sp_PublicKey spec \<noteq> ''''" using assms(1)
    by (auto simp: route_decision_def Programmable_def plan_simps Let_def split: if_splits)
  consider "cs = pl_RoutableCIDRs ?p" | rp where "pc_RemapPool cfg \<noteq> ''''"
      "PlanRemap (pc_RemapPool cfg) (pc_ClusterID cfg) (pc_LocalCIDRs cfg) (sp_ClusterID spec) (pl_ConflictingCIDRs ?p) = Ret rp"
      "cs = pl_RoutableCIDRs ?p @ rp_RouteVirtual rp"
    using assms(1) by (auto simp: route_decision_def Let_def split: if_splits go.splits)
  then show "route_safe cfg c"
  proof cases
    case 1
    then show ?thesis using may_route_routed assms(2) unfolding route_safe_def by blast
  next
    case 2
    then consider "c \<in> set (pl_RoutableCIDRs ?p)" | "c \<in> set (rp_RouteVirtual rp)" using assms(2) by auto
    then show ?thesis
      by cases (use may_route_routed PlanRemap_virtual [OF 2(2)] 2(1) in \<open>unfold route_safe_def, blast+\<close>)
  qed
qed

lemma parseCIDRs_sound: "parseCIDRs cs = Inr ns \<Longrightarrow> n \<in> set ns \<Longrightarrow> \<exists>c\<in>set cs. parse_net c = Some n"
  by (induction cs arbitrary: ns) (auto simp: parse_net_def split: sum.splits prod.splits)

end
