(* ===== verification/Peer_Convergence.thy ===== *)
theory Peer_Convergence
  imports Peer_Controller
begin

text \<open>
  What repeated passes of the peer reconciler achieve: convergence once the API server and
  the data plane stop failing, for both data planes, and which peers a history can lose
  track of.
\<close>

section \<open>Convergence\<close>

text \<open>An API server and a data plane in a period without faults: \<open>up\<close> and \<open>ready\<close> are the
  states of such a period, \<open>keys\<close> the peer keys the plane can parse, and \<open>fits\<close> the endpoints
  and ranges it can program.\<close>

locale healthy_peers = peer_reconciler api objs dp programmed planned
  for api :: "'a peer_api" and objs :: "'a \<Rightarrow> nn \<rightharpoonup> MeshPeer" and dp :: "'d PeerDataPlane"
    and programmed :: "'d \<Rightarrow> string \<rightharpoonup> 'p" and planned :: "string \<Rightarrow> string list \<Rightarrow> 'p" +
  fixes up :: "'a \<Rightarrow> bool" and ready :: "'d \<Rightarrow> bool" and keys :: "string \<Rightarrow> bool" and fits :: "string \<Rightarrow> string list \<Rightarrow> bool"
  assumes Get_up: "up a \<Longrightarrow> \<exists>found a'. api_Get api n a = (Inr found, a') \<and> up a'"
    and Update_up: "up a \<Longrightarrow> objs a (peerKey peer) \<noteq> None \<Longrightarrow> \<exists>a'. api_Update api peer a = (Inr (), a') \<and> up a'"
    and PatchStatus_up: "up a \<Longrightarrow> objs a (peerKey peer) \<noteq> None \<Longrightarrow> \<exists>a'. api_PatchStatus api peer a = (Inr (), a') \<and> up a'"
    and Configure_up: "ready d \<Longrightarrow> keys key \<Longrightarrow> fits endpoint cs \<Longrightarrow> \<exists>d'. dp_ConfigurePeer dp key endpoint cs d = (Inr (), d') \<and> ready d'"
    and Remove_up: "ready d \<Longrightarrow> keys key \<Longrightarrow> \<exists>d'. dp_RemovePeer dp key d = (Inr (), d') \<and> ready d'"
    and Handshake_up: "ready d \<Longrightarrow> ready (snd (dp_PeerHandshake dp key d))"

text \<open>The object is live and carries the finalizer; its peer is programmed as decided, under
  the recorded key, and the status reports the decision for the current generation.\<close>

definition converged ::
  "('a \<Rightarrow> nn \<rightharpoonup> MeshPeer) \<Rightarrow> ('d \<Rightarrow> string \<rightharpoonup> 'p) \<Rightarrow> (string \<Rightarrow> string list \<Rightarrow> 'p) \<Rightarrow> peer_config \<Rightarrow> nn \<Rightarrow> MeshPeerSpec \<Rightarrow>
   ('a, 'd) reconciler \<Rightarrow> bool" where
  "converged objs programmed planned cfg n spec m \<longleftrightarrow>
     (\<exists>peer cs phase message. objs (mr_api m) n = Some peer \<and> mp_Spec peer = spec \<and> \<not> mp_Deleting peer \<and>
        meshPeerFinalizer \<in> set (mp_Finalizers peer) \<and> route_decision cfg spec = Ret (cs, phase, message) \<and>
        programmed (mr_plane m) (sp_PublicKey spec) = Some (planned (sp_Endpoint spec) cs) \<and>
        mr_keyIndex m n = Some (sp_PublicKey spec) \<and>
        ms_Phase (mp_Status peer) = phase \<and> ms_Message (mp_Status peer) = message \<and>
        ms_ObservedGeneration (mp_Status peer) = mp_Generation peer)"

primrec passes :: "'a peer_api \<Rightarrow> 'd PeerDataPlane \<Rightarrow> peer_config \<Rightarrow> nn \<Rightarrow> nat \<Rightarrow> ('a, 'd) reconciler \<Rightarrow> ('a, 'd) reconciler" where
  "passes api dp cfg n 0 m = m"
| "passes api dp cfg n (Suc k) m = snd (outcome (Reconcile api dp cfg n) (passes api dp cfg n k m))"

context healthy_peers begin

definition live :: "peer_config \<Rightarrow> nn \<Rightarrow> MeshPeerSpec \<Rightarrow> ('a, 'd) reconciler \<Rightarrow> MeshPeer \<Rightarrow> bool" where
  "live cfg n spec m peer \<longleftrightarrow> up (mr_api m) \<and> ready (mr_plane m) \<and> objs (mr_api m) n = Some peer \<and> mp_Spec peer = spec \<and>
     \<not> mp_Deleting peer \<and> keys (sp_PublicKey spec) \<and> (\<forall>old. mr_keyIndex m n = Some old \<longrightarrow> keys old) \<and>
     (\<exists>cs phase message. route_decision cfg spec = Ret (cs, phase, message) \<and> fits (sp_Endpoint spec) cs)"

lemma patchStatus_up:
  assumes "up (mr_api m)" "objs (mr_api m) n = Some peer" "peerKey peer = n"
  shows "\<exists>a peer'. outcome (patchStatus api peer phase handshake message) m = (Inr (), m\<lparr>mr_api := a\<rparr>) \<and> up a \<and>
    objs a n = Some peer' \<and> peer' = peer\<lparr>mp_Status := mp_Status peer'\<rparr> \<and>
    ms_Phase (mp_Status peer') = phase \<and> ms_Message (mp_Status peer') = message \<and>
    ms_ObservedGeneration (mp_Status peer') = mp_Generation peer"
proof (cases "ms_Phase (mp_Status peer) = phase \<and> ms_LastHandshakeTime (mp_Status peer) = handshake \<and>
    ms_Message (mp_Status peer) = message \<and> ms_ObservedGeneration (mp_Status peer) = mp_Generation peer")
  case True
  then have "outcome (patchStatus api peer phase handshake message) m = (Inr (), m\<lparr>mr_api := mr_api m\<rparr>)"
    by (simp add: patchStatus_def outcome_ret)
  then show ?thesis using assms True by (intro exI [of _ "mr_api m"] exI [of _ peer]) simp
next
  case False
  let ?new = "with_status peer phase handshake message"
  have k: "peerKey ?new = n" using assms(3) by (simp add: with_status_def peerKey_def)
  obtain a where a: "api_PatchStatus api ?new (mr_api m) = (Inr (), a)" "up a"
    using PatchStatus_up [OF assms(1)] assms(2) k by (metis option.distinct(1))
  have "objs a n = Some (peer\<lparr>mp_Status := mp_Status ?new\<rparr>)"
    using command_lawD(2) [OF PatchStatus_law a(1)] k assms(2) by auto
  moreover have "outcome (patchStatus api peer phase handshake message) m = (Inr (), m\<lparr>mr_api := a\<rparr>)"
    using False a by (auto simp: patchStatus_def outcome_errorf outcome_on_api)
  ultimately show ?thesis using a(2) by (intro exI [of _ a]) (simp add: with_status_def)
qed

lemma remove_rotated_up:
  assumes "ready (mr_plane m)" "\<forall>old. mr_keyIndex m (peerKey peer) = Some old \<longrightarrow> keys old"
  shows "\<exists>d. outcome (remove_rotated api dp peer) m = (Inr (), m\<lparr>mr_plane := d\<rparr>) \<and> ready d"
proof (cases "\<exists>old. mr_keyIndex m (peerKey peer) = Some old \<and> old \<noteq> sp_PublicKey (mp_Spec peer)")
  case True
  then obtain old where old: "mr_keyIndex m (peerKey peer) = Some old" "old \<noteq> sp_PublicKey (mp_Spec peer)" by blast
  obtain d where "dp_RemovePeer dp old (mr_plane m) = (Inr (), d)" "ready d" using Remove_up assms old(1) by blast
  then show ?thesis using old
    by (auto simp: remove_rotated_def lookupCachedKey_def outcome_bind outcome_gets outcome_on_error outcome_on_plane)
next
  case False
  then have "outcome (remove_rotated api dp peer) m = (Inr (), m\<lparr>mr_plane := mr_plane m\<rparr>)"
    by (auto simp: remove_rotated_def lookupCachedKey_def run_simps split: option.splits)
  then show ?thesis using assms(1) by blast
qed

lemma apply_up:
  assumes "live cfg n spec m peer" "meshPeerFinalizer \<in> set (mp_Finalizers peer)"
  shows "\<exists>m' peer'. outcome (reconcileApply api dp cfg peer) m = (Inr handshakeRefreshInterval, m') \<and>
    live cfg n spec m' peer' \<and> converged objs programmed planned cfg n spec m'"
proof -
  from assms(1) obtain cs phase message where l: "up (mr_api m)" "ready (mr_plane m)" "objs (mr_api m) n = Some peer"
    "mp_Spec peer = spec" "\<not> mp_Deleting peer" "keys (sp_PublicKey spec)" "\<forall>old. mr_keyIndex m n = Some old \<longrightarrow> keys old"
    and dec: "route_decision cfg spec = Ret (cs, phase, message)" "fits (sp_Endpoint spec) cs" unfolding live_def by blast
  have n: "peerKey peer = n" using named l(3) .
  obtain d1 where r: "outcome (remove_rotated api dp peer) m = (Inr (), m\<lparr>mr_plane := d1\<rparr>)" "ready d1"
    using remove_rotated_up [OF l(2)] l(7) n by metis
  obtain d2 where c: "dp_ConfigurePeer dp (sp_PublicKey spec) (sp_Endpoint spec) cs d1 = (Inr (), d2)" "ready d2"
    using Configure_up [OF r(2) l(6) dec(2)] by blast
  obtain h d3 where h: "dp_PeerHandshake dp (sp_PublicKey spec) d2 = (h, d3)" by fastforce
  let ?mc = "m\<lparr>mr_keyIndex := (mr_keyIndex m)(n \<mapsto> sp_PublicKey spec), mr_plane := d3\<rparr>"
  let ?hs = "case h of Inl _ \<Rightarrow> ms_LastHandshakeTime (mp_Status peer) | Inr t \<Rightarrow> t"
  have P: "programmed d3 (sp_PublicKey spec) = Some (planned (sp_Endpoint spec) cs)"
    using query_lawD(1) [OF Handshake_law h] command_lawD(2) [OF Configure_law c(1)] by simp
  obtain a peer' where p: "outcome (patchStatus api peer phase ?hs message) ?mc = (Inr (), ?mc\<lparr>mr_api := a\<rparr>)" "up a"
    "objs a n = Some peer'" "peer' = peer\<lparr>mp_Status := mp_Status peer'\<rparr>" "ms_Phase (mp_Status peer') = phase"
    "ms_Message (mp_Status peer') = message" "ms_ObservedGeneration (mp_Status peer') = mp_Generation peer"
    using patchStatus_up [of ?mc n peer phase ?hs message] l(1,3) n by auto
  let ?m' = "?mc\<lparr>mr_api := a\<rparr>"
  have "outcome (report api dp peer phase message) (m\<lparr>mr_plane := d2, mr_keyIndex := (mr_keyIndex m)(n \<mapsto> sp_PublicKey spec)\<rparr>)
      = (Inr handshakeRefreshInterval, ?m')"
    using h p(1) l(4) by (cases h) (simp_all add: report_def outcome_bind outcome_on_error outcome_on_plane outcome_seq outcome_ret)
  then have "outcome (reconcileApply api dp cfg peer) m = (Inr handshakeRefreshInterval, ?m')"
    using r(1) c(1) dec(1) l(4) n
    by (simp add: reconcileApply_def Let_def outcome_seq outcome_on_error outcome_on_plane rememberCachedKey_def outcome_modify)
  moreover have same: "mp_Spec peer' = spec" "\<not> mp_Deleting peer'" "mp_Finalizers peer' = mp_Finalizers peer"
    "mp_Generation peer' = mp_Generation peer"
    using p(4) l(4,5) by (metis MeshPeer.select_convs MeshPeer.surjective MeshPeer.update_convs(7))+
  moreover have "ready d3" using Handshake_up [OF c(2), of "sp_PublicKey spec"] h by simp
  ultimately show ?thesis
    using p(2,3,5-7) P dec l(6,7) assms(2) by (intro exI [of _ ?m'] exI [of _ peer']) (auto simp: live_def converged_def)
qed

lemma pass_up:
  assumes "live cfg n spec m peer"
  shows "\<exists>r m' peer'. outcome (Reconcile api dp cfg n) m = (Inr r, m') \<and> live cfg n spec m' peer' \<and>
    meshPeerFinalizer \<in> set (mp_Finalizers peer') \<and>
    (meshPeerFinalizer \<in> set (mp_Finalizers peer) \<longrightarrow> converged objs programmed planned cfg n spec m')"
proof -
  have l: "up (mr_api m)" "objs (mr_api m) n = Some peer" "\<not> mp_Deleting peer" using assms unfolding live_def by blast+
  obtain found a where g: "api_Get api n (mr_api m) = (Inr found, a)" "up a" using Get_up l(1) by blast
  then have "found = Some peer" and a: "objs a = objs (mr_api m)" using query_lawD [OF Get_law g(1)] l(2) by auto
  let ?ma = "m\<lparr>mr_api := a\<rparr>"
  have la: "live cfg n spec ?ma peer" using assms a g(2) unfolding live_def by simp
  note run = Reconcile_def outcome_bind outcome_errorf outcome_on_api g(1) \<open>found = Some peer\<close>
  show ?thesis
  proof (cases "meshPeerFinalizer \<in> set (mp_Finalizers peer)")
    case True
    from apply_up [OF la True] obtain m' peer' where m': "outcome (reconcileApply api dp cfg peer) ?ma = (Inr handshakeRefreshInterval, m')"
      "live cfg n spec m' peer'" "converged objs programmed planned cfg n spec m'" by blast
    then have "meshPeerFinalizer \<in> set (mp_Finalizers peer')" unfolding live_def converged_def by auto
    then show ?thesis using m' True l(3) by (auto simp: run)
  next
    case False
    let ?new = "peer\<lparr>mp_Finalizers := mp_Finalizers peer @ [meshPeerFinalizer]\<rparr>"
    have n: "peerKey ?new = n" using named l(2) by (simp add: peerKey_def)
    obtain b where b: "api_Update api ?new a = (Inr (), b)" "up b"
      using Update_up [OF g(2), of ?new] a l(2) n by (metis option.distinct(1))
    have "objs b n = Some (?new\<lparr>mp_Status := mp_Status peer\<rparr>)"
      using command_lawD(2) [OF Update_law b(1)] n a l(2,3) by auto
    then have "live cfg n spec (?ma\<lparr>mr_api := b\<rparr>) (?new\<lparr>mp_Status := mp_Status peer\<rparr>)"
      using la b(2) unfolding live_def by simp
    then show ?thesis using False l(3) b(1) by (auto simp: run outcome_seq outcome_ret intro!: exI [of _ "?new\<lparr>mp_Status := mp_Status peer\<rparr>"])
  qed
qed

lemma passes_live:
  assumes "live cfg n spec m peer"
  shows "\<exists>peer'. live cfg n spec (passes api dp cfg n k m) peer' \<and> (1 \<le> k \<longrightarrow> meshPeerFinalizer \<in> set (mp_Finalizers peer')) \<and>
    (2 \<le> k \<longrightarrow> converged objs programmed planned cfg n spec (passes api dp cfg n k m))"
proof (induction k)
  case (Suc k)
  then obtain p where "live cfg n spec (passes api dp cfg n k m) p" "1 \<le> k \<longrightarrow> meshPeerFinalizer \<in> set (mp_Finalizers p)" by blast
  with pass_up [OF this(1)] show ?case by force
qed (use assms in auto)

lemma delete_up:
  assumes "up (mr_api m)" "ready (mr_plane m)" "objs (mr_api m) n = Some peer" "mp_Deleting peer"
    and "mp_Finalizers peer = [meshPeerFinalizer]" "sp_PublicKey (mp_Spec peer) \<noteq> ''''" "keys (sp_PublicKey (mp_Spec peer))"
  shows "\<exists>m'. outcome (Reconcile api dp cfg n) m = (Inr 0, m') \<and> objs (mr_api m') = (objs (mr_api m))(n := None) \<and>
    programmed (mr_plane m') = (programmed (mr_plane m))(sp_PublicKey (mp_Spec peer) := None) \<and>
    mr_keyIndex m' = (mr_keyIndex m)(n := None)"
proof -
  let ?key = "sp_PublicKey (mp_Spec peer)" and ?new = "peer\<lparr>mp_Finalizers := []\<rparr>"
  obtain found a where g: "api_Get api n (mr_api m) = (Inr found, a)" "up a" using Get_up assms(1) by blast
  then have found: "found = Some peer" and a: "objs a = objs (mr_api m)" using query_lawD [OF Get_law g(1)] assms(3) by auto
  obtain d where d: "dp_RemovePeer dp ?key (mr_plane m) = (Inr (), d)" using Remove_up assms(2,7) by blast
  have n: "peerKey peer = n" using named assms(3) .
  then have n': "peerKey ?new = n" by (simp add: peerKey_def)
  obtain b where b: "api_Update api ?new a = (Inr (), b)" using Update_up [OF g(2), of ?new] a assms(3) n' by (metis option.distinct(1))
  have "objs b = (objs a)(n := None)" using command_lawD(2) [OF Update_law b] n' assms(4) by auto
  moreover have "programmed d = (programmed (mr_plane m))(?key := None)" using command_lawD(2) [OF Remove_law d] by simp
  moreover have "outcome (Reconcile api dp cfg n) m = (Inr 0, m\<lparr>mr_api := b, mr_plane := d, mr_keyIndex := (mr_keyIndex m)(n := None)\<rparr>)"
    using g found assms(4-6) d b n
    by (simp add: Reconcile_def reconcileDelete_def outcome_bind outcome_errorf outcome_on_api outcome_seq outcome_on_plane
        forgetCachedKey_def outcome_modify outcome_ret)
  ultimately show ?thesis using a by simp
qed

end

lemma install_loop_up:
  assumes "\<And>x s. x \<in> set xs \<Longrightarrow> ok s \<Longrightarrow> \<exists>s'. outcome (put x) s = (Inr (), s') \<and> ok s'" "ok s"
  shows "\<exists>i s'. outcome (install_loop put undo name xs inst) s = (Inr i, s') \<and> ok s'"
  using assms
proof (induction xs arbitrary: inst s)
  case (Cons x xs)
  obtain s1 where s1: "outcome (put x) s = (Inr (), s1)" "ok s1" using Cons.prems by (meson list.set_intros(1))
  have "\<exists>i s'. outcome (install_loop put undo name xs (inst @ [name x])) s1 = (Inr i, s') \<and> ok s'"
    using Cons.IH Cons.prems(1) s1(2) by (meson list.set_intros(2))
  then show ?case using s1 by (auto simp: run_simps)
qed (simp add: run_simps)

lemma for_each_up:
  assumes "\<And>x s. ok s \<Longrightarrow> \<exists>s'. outcome (f x) s = (Inr (), s') \<and> ok s'" "ok s"
  shows "\<exists>s'. outcome (for_each f xs) s = (Inr (), s') \<and> ok s'"
  using assms(2)
proof (induction xs arbitrary: s)
  case (Cons x xs)
  then obtain s1 where s1: "outcome (f x) s = (Inr (), s1)" "ok s1" using assms(1) by blast
  then show ?case using Cons.IH [OF s1(2)] by (auto simp: outcome_seq)
qed (simp add: outcome_ret)

lemma mem_ready_del: "mh_faults s = [] \<Longrightarrow> mh_faults (snd (ro_Delete (netlinkOps mem_host idx) r s)) = []"
  by (auto simp: netlinkOps_def netlinkOps_Delete_def netlink_route_def mem_host_def mh_step_def Let_def
      split: sum.splits prod.splits option.splits if_splits)

lemma mem_ready_put:
  "mh_faults s = [] \<Longrightarrow> parse_net (rt_Dest r) = Some n \<Longrightarrow>
     \<exists>s'. ro_Replace (netlinkOps mem_host idx) r s = (Inr (), s') \<and> mh_faults s' = []"
  by (auto simp: netlinkOps_def netlinkOps_Replace_def netlink_route_def mem_host_def mh_step_def parse_net_def Let_def
      split: sum.splits)

lemma mem_ready_attempt:
  assumes "mh_faults (rm_host m) = []"
  shows "\<exists>m'. outcome (attempt (call (on_routes (ro_Delete (netlinkOps mem_host idx) r)))) m = (Inr (), m') \<and> mh_faults (rm_host m') = []"
  using mem_ready_del [OF assms, of idx r] by (cases "ro_Delete (netlinkOps mem_host idx) r (rm_host m)") (simp add: outcome_attempt outcome_call lift_call_def)

lemma mem_ready_withdraw:
  assumes "mh_faults (rm_host m) = []"
  shows "\<exists>m'. outcome (for_each (\<lambda>r. if P r then attempt (call (on_routes (ro_Delete (netlinkOps mem_host idx) r))) else ret ()) rs) m
    = (Inr (), m') \<and> mh_faults (rm_host m') = []"
proof (rule for_each_up [where ok = "\<lambda>m. mh_faults (rm_host m) = []", OF _ assms])
  fix r and m :: "memhost routed" assume "mh_faults (rm_host m) = []"
  from mem_ready_attempt [OF this] show "\<exists>m'. outcome (if P r then attempt (call (on_routes (ro_Delete (netlinkOps mem_host idx) r))) else ret ()) m
    = (Inr (), m') \<and> mh_faults (rm_host m') = []"
    using \<open>mh_faults (rm_host m) = []\<close> by (cases "P r") (simp_all add: outcome_ret)
qed

interpretation steady_peers: healthy_peers mem_api st_objs "routed_plane (netlinkOps mem_host idx)" rm_peerRoutes routed_planned
    "\<lambda>a. st_faults a = []" "\<lambda>d. mh_faults (rm_host d) = []" "\<lambda>_. True" "\<lambda>endpoint cs. \<exists>rs. PlanRoutes cs (hostOnly endpoint) = Inr rs" for idx
proof
  fix d :: "memhost routed" and key endpoint cs
  assume d: "mh_faults (rm_host d) = []" and "\<exists>rs. PlanRoutes cs (hostOnly endpoint) = Inr rs"
  then obtain rs where rs: "PlanRoutes cs (hostOnly endpoint) = Inr rs" by blast
  let ?ops = "netlinkOps mem_host idx" and ?ok = "\<lambda>d. mh_faults (rm_host d) = []"
  have put: "\<exists>s'. outcome (install_route ?ops r) s = (Inr (), s') \<and> ?ok s'" if r: "r \<in> set rs" and s: "?ok s" for r s
  proof -
    obtain n where "parse_net (rt_Dest r) = Some n" using PlanRoutes_parse [OF rs r] by blast
    from mem_ready_put [OF s this, of idx] show ?thesis
      by (auto simp: install_route_def outcome_errorf outcome_call lift_call_def)
  qed
  obtain i d1 where i: "outcome (install_loop (install_route ?ops) (deleteRoutes ?ops) id rs []) d = (Inr i, d1)" "?ok d1"
    using install_loop_up [where ok = ?ok and put = "install_route ?ops" and xs = rs and s = d] put d by blast
  obtain d2 where w: "outcome (withdraw_stale ?ops rs (peer_routes key d1)) d1 = (Inr (), d2)" "?ok d2"
    using mem_ready_withdraw [OF i(2), where P = "\<lambda>old. \<not> containsRoute rs old"] unfolding withdraw_stale_def by blast
  show "\<exists>d'. dp_ConfigurePeer (routed_plane ?ops) key endpoint cs d = (Inr (), d') \<and> ?ok d'"
    using rs i w by (auto simp: routed_plane_def routed_ConfigurePeer_def outcome_bind outcome_seq outcome_gets outcome_modify)
next
  fix d :: "memhost routed" and key
  assume d: "mh_faults (rm_host d) = []"
  let ?ops = "netlinkOps mem_host idx" and ?ok = "\<lambda>d. mh_faults (rm_host d) = []"
  obtain d2 where w: "outcome (deleteRoutes ?ops (peer_routes key d)) d = (Inr (), d2)" "?ok d2"
    using mem_ready_withdraw [OF d, where P = "\<lambda>_. True"] unfolding deleteRoutes_def by auto
  then show "\<exists>d'. dp_RemovePeer (routed_plane ?ops) key d = (Inr (), d') \<and> ?ok d'"
    by (auto simp: routed_plane_def routed_RemovePeer_def outcome_bind outcome_seq outcome_gets outcome_modify)
  show "?ok (snd (dp_PeerHandshake (routed_plane ?ops) key d))"
    using d by (simp add: routed_plane_def routed_PeerHandshake_def outcome_ret)
qed (auto simp: mem_api_def st_write_def st_put_def Let_def split: option.splits)

text \<open>The same for the WireGuard manager.\<close>

abbreviation wg_ready :: "memhost WireGuardManager \<Rightarrow> bool" where
  "wg_ready m \<equiv> mh_faults (wm_host m) = []"

lemma wg_up_LinkByName: "wg_ready m \<Longrightarrow> \<exists>r m'. outcome (call_nl (on_wg (h_LinkByName mem_host name))) m = (Inr r, m') \<and> wg_ready m' \<and>
   mh_link (wm_host m') = mh_link (wm_host m) \<and> (mh_link (wm_host m) \<noteq> None \<longrightarrow> (\<exists>link. r = Inr link)) \<and> (\<forall>e. r = Inl e \<longrightarrow> isLinkNotFound e)"
  by (cases "mh_link (wm_host m)") (auto simp: call_nl_def outcome_call lift_call_def mem_host_def mh_nl_def mh_step_def isLinkNotFound_def)

lemma wg_up_ensureLink:
  assumes "wg_ready m"
  shows "\<exists>link m'. outcome (ensureLinkLocked mem_host name) m = (Inr link, m') \<and> wg_ready m'"
proof -
  from wg_up_LinkByName [OF assms] obtain r m1 where l: "outcome (call_nl (on_wg (h_LinkByName mem_host name))) m = (Inr r, m1)"
    "wg_ready m1" "\<forall>e. r = Inl e \<longrightarrow> isLinkNotFound e" by blast
  show ?thesis
  proof (cases r)
    case (Inl e)
    let ?m2 = "m1\<lparr>wm_host := (wm_host m1)\<lparr>mh_link := Some \<lparr>li_Index = 7, li_MTU = 1420, li_Up = False\<rparr>\<rparr>\<rparr>"
    have a: "outcome (call (on_wg (h_LinkAdd mem_host name))) m1 = (Inr (), ?m2)"
      using l(2) by (simp add: outcome_call lift_call_def mem_host_def mh_step_def)
    obtain link m3 where "outcome (call_nl (on_wg (h_LinkByName mem_host name))) ?m2 = (Inr (Inr link), m3)" "wg_ready m3"
      using wg_up_LinkByName [of ?m2 name] l(2) by auto
    then show ?thesis using l Inl a by (simp add: ensureLinkLocked_def outcome_bind outcome_seq outcome_errorf outcome_ret)
  qed (use l in \<open>simp add: ensureLinkLocked_def outcome_bind outcome_ret\<close>)
qed

lemma wg_up_configure: "wg_ready m \<Longrightarrow> \<exists>m'. outcome (configure_device mem_host name cfg) m = (Inr (Inr ()), m') \<and> wg_ready m'"
  by (auto simp: configure_device_def call_nl_def outcome_call lift_call_def mem_host_def mh_nl_def mh_step_def Let_def)

lemma wg_up_install: "wg_ready m \<Longrightarrow> \<exists>m'. outcome (wg_install mem_host name idx n) m = (Inr (), m') \<and> wg_ready m'"
  by (auto simp: wg_install_def outcome_errorf outcome_call lift_call_def mem_host_def mh_step_def Let_def)

lemma wg_up_rollback:
  assumes "wg_ready m"
  shows "\<exists>m'. outcome (rollbackRoutesLocked mem_host idx cs) m = (Inr (), m') \<and> wg_ready m'"
  unfolding rollbackRoutesLocked_def
proof (rule for_each_up [where ok = wg_ready, OF _ assms])
  fix c and m :: "memhost WireGuardManager" assume m: "wg_ready m"
  show "\<exists>m'. outcome (case ParseCIDR c of Inl _ \<Rightarrow> ret ()
      | Inr (_, ipnet) \<Rightarrow> attempt (call (on_wg (h_RouteDel mem_host (wg_link_route idx ipnet))))) m = (Inr (), m') \<and> wg_ready m'"
    using m by (auto simp: outcome_ret outcome_attempt outcome_call lift_call_def mem_host_def mh_step_def Let_def
        split: sum.splits option.splits)
qed

lemma wg_up_ConfigurePeer:
  assumes "wg_ready m" "parseKey key = Inr k" "parseCIDRs cs = Inr nets" "endpoint = '''' \<or> (\<exists>u. resolveUDP endpoint = Inr u)"
  shows "\<exists>m'. outcome (wg_ConfigurePeer mem_host parseKey resolveUDP key endpoint cs) m = (Inr (), m') \<and> wg_ready m'"
proof -
  obtain udp where udp: "resolve_endpoint resolveUDP endpoint = Inr udp" using assms(4) by (cases "endpoint = ''''") (auto simp: resolve_endpoint_def)
  let ?n = "wm_ifaceName m"
  obtain link m1 where l: "outcome (ensureLinkLocked mem_host ?n) m = (Inr link, m1)" "wg_ready m1"
    using wg_up_ensureLink [OF assms(1)] by blast
  obtain m2 where c: "outcome (configure_device mem_host ?n (peer_upsert k udp nets (wm_keepalive m))) m1 = (Inr (Inr ()), m2)" "wg_ready m2"
    using wg_up_configure [OF l(2)] by blast
  obtain i m3 where i: "outcome (install_loop (wg_install mem_host ?n (li_Index link)) (rollbackRoutesLocked mem_host (li_Index link))
      string_of_net nets []) m2 = (Inr i, m3)" "wg_ready m3"
    using install_loop_up [where ok = wg_ready and put = "wg_install mem_host ?n (li_Index link)", OF wg_up_install c(2)] by blast
  obtain m4 where r: "outcome (rollbackRoutesLocked mem_host (li_Index link) (staleRoutes (wg_recorded key m3) i)) m3 = (Inr (), m4)" "wg_ready m4"
    using wg_up_rollback [OF i(2)] by blast
  show ?thesis using assms(2,3) udp l c i r
    by (auto simp: wg_ConfigurePeer_def wg_program_def outcome_bind outcome_gets outcome_seq outcome_modify)
qed

lemma wg_up_RemovePeer:
  assumes "wg_ready m" "parseKey key = Inr k"
  shows "\<exists>m'. outcome (wg_RemovePeer mem_host parseKey key) m = (Inr (), m') \<and> wg_ready m'"
proof -
  let ?n = "wm_ifaceName m"
  obtain m1 where c: "outcome (configure_device mem_host ?n (peer_drop k)) m = (Inr (Inr ()), m1)" "wg_ready m1"
    using wg_up_configure [OF assms(1)] by blast
  obtain r m2 where l: "outcome (call_nl (on_wg (h_LinkByName mem_host ?n))) m1 = (Inr r, m2)" "wg_ready m2" "\<forall>e. r = Inl e \<longrightarrow> isLinkNotFound e"
    using wg_up_LinkByName [OF c(2)] by blast
  let ?clean = "case wm_peerRoutes m key of None \<Rightarrow> ret ()
     | Some cidrs \<Rightarrow> bind_run (call_nl (on_wg (h_LinkByName mem_host ?n))) (\<lambda>r. case r of
         Inr link \<Rightarrow> rollbackRoutesLocked mem_host (li_Index link) cidrs
       | Inl lerr \<Rightarrow> if \<not> isLinkNotFound lerr then failing (''wg: looking up link for route cleanup: '' @ nl_text lerr) else ret ())"
  have "\<exists>m'. outcome ?clean m1 = (Inr (), m') \<and> wg_ready m'"
  proof (cases "wm_peerRoutes m key")
    case (Some cidrs)
    then show ?thesis using l wg_up_rollback [OF l(2)] by (cases r) (simp_all add: outcome_bind outcome_ret)
  qed (simp add: outcome_ret c(2))
  then obtain m3 where "outcome ?clean m1 = (Inr (), m3)" "wg_ready m3" by blast
  then show ?thesis using assms(2) c(1)
    by (simp add: wg_RemovePeer_def outcome_bind outcome_gets outcome_seq forget_peer_def outcome_modify)
qed

interpretation steady_wg: healthy_peers mem_api st_objs "wg_plane mem_host parseKey resolveUDP" wm_peerRoutes wg_planned
    "\<lambda>a. st_faults a = []" wg_ready "\<lambda>key. \<exists>k. parseKey key = Inr k"
    "\<lambda>endpoint cs. (\<exists>nets. parseCIDRs cs = Inr nets) \<and> (endpoint = '''' \<or> (\<exists>u. resolveUDP endpoint = Inr u))" for parseKey resolveUDP
proof
  fix d :: "memhost WireGuardManager" and key
  assume d: "wg_ready d"
  show "wg_ready (snd (dp_PeerHandshake (wg_plane mem_host parseKey resolveUDP) key d))"
    using d by (auto simp: wg_plane_def wg_PeerHandshake_def outcome_bind outcome_gets outcome_errorf outcome_call lift_call_def
        outcome_failing outcome_ret mem_host_def mh_step_def Let_def split: sum.splits)
  assume "\<exists>k. parseKey key = Inr k"
  then show "\<exists>d'. dp_RemovePeer (wg_plane mem_host parseKey resolveUDP) key d = (Inr (), d') \<and> wg_ready d'"
    using wg_up_RemovePeer d by (auto simp: wg_plane_def)
  fix endpoint cs
  assume "(\<exists>nets. parseCIDRs cs = Inr nets) \<and> (endpoint = '''' \<or> (\<exists>u. resolveUDP endpoint = Inr u))"
  then show "\<exists>d'. dp_ConfigurePeer (wg_plane mem_host parseKey resolveUDP) key endpoint cs d = (Inr (), d') \<and> wg_ready d'"
    using wg_up_ConfigurePeer [OF d] \<open>\<exists>k. parseKey key = Inr k\<close> by (auto simp: wg_plane_def)
qed (auto simp: mem_api_def st_write_def st_put_def Let_def split: option.splits)


text \<open>C5. Once faults stop, the reconciler converges: from any state in which the object is
  live and its plan can be programmed, after two passes and after every further one the
  finalizer is there, the data plane has exactly the decided entry for the peer, the key is
  recorded for later withdrawal, and the status reports the decision for the current
  generation.\<close>

theorem Reconcile_converges:
  assumes "healthy_peers api objs dp programmed planned up ready keys fits" "up (mr_api m)" "ready (mr_plane m)"
    and "objs (mr_api m) n = Some peer" "\<not> mp_Deleting peer"
    and "keys (sp_PublicKey (mp_Spec peer))" "\<forall>old. mr_keyIndex m n = Some old \<longrightarrow> keys old"
    and "route_decision cfg (mp_Spec peer) = Ret (cs, phase, message)" "fits (sp_Endpoint (mp_Spec peer)) cs" "2 \<le> k"
  shows "converged objs programmed planned cfg n (mp_Spec peer) (passes api dp cfg n k m)"
proof -
  have "healthy_peers.live objs up ready keys fits cfg n (mp_Spec peer) m peer"
    using assms(2-9) by (auto simp: healthy_peers.live_def [OF assms(1)])
  from healthy_peers.passes_live [OF assms(1) this, of k] assms(10) show ?thesis by blast
qed

definition eg_config :: peer_config where
  "eg_config = \<lparr>pc_LocalCIDRs = [''10.0.0.0/16''], pc_ClusterID = ''a'', pc_RemapPool = ''''\<rparr>"

definition eg_spec :: "string \<Rightarrow> MeshPeerSpec" where
  "eg_spec key = \<lparr>sp_ClusterID = ''b'', sp_PublicKey = key, sp_Endpoint = '''', sp_PodCIDRs = [''10.1.0.0/16''], sp_ServiceCIDRs = []\<rparr>"

definition eg_peer :: "string \<Rightarrow> bool \<Rightarrow> MeshPeer" where
  "eg_peer key deleting = \<lparr>mp_Namespace = '''', mp_Name = ''b'', mp_Generation = 1, mp_Deleting = deleting,
     mp_Finalizers = (if deleting then [meshPeerFinalizer] else []), mp_Spec = eg_spec key,
     mp_Status = \<lparr>ms_Phase = PhaseUnset, ms_LastHandshakeTime = 0, ms_LastProbeAttempt = 0, ms_LastProbeTime = 0,
       ms_Message = '''', ms_ObservedGeneration = 0\<rparr>\<rparr>"

definition eg_start :: "(store, memhost WireGuardManager) reconciler" where
  "eg_start = \<lparr>mr_keyIndex = Map.empty, mr_api = \<lparr>st_objects = [eg_peer ''k'' False], st_faults = []\<rparr>,
     mr_plane = device_state\<lparr>wm_peerRoutes := Map.empty\<rparr>\<rparr>"

abbreviation "eg_plane \<equiv> wg_plane mem_host Inr Inr"
abbreviation "eg_name \<equiv> ('''', ''b'')"

lemma eg_decision:
  assumes "key \<noteq> ''''"
  shows "\<exists>message. route_decision eg_config (eg_spec key) = Ret ([''10.1.0.0/16''], Connected, message)"
proof -
  have "Partition [''10.1.0.0/16''] [''10.0.0.0/16''] = ([''10.1.0.0/16''], [])" by (simp add: Partition_def IsDangerousCIDR_def go_eval)
  then show ?thesis using assms
    by (simp add: route_decision_def eg_config_def eg_spec_def PlanPeer_def AllCIDRs_def Programmable_def HasConflicts_def Let_def)
qed

lemma eg_net: "parseCIDRs [''10.1.0.0/16''] = Inr [net_a]" "string_of_net net_a = ''10.1.0.0/16''"
  by (simp_all add: nets_parse net_a_def go_eval)

lemma eg_live:
  "st_faults (mr_api eg_start) = []" "mh_faults (wm_host (mr_plane eg_start)) = []" "mr_keyIndex eg_start = Map.empty"
  "st_objs (mr_api eg_start) eg_name = Some (eg_peer ''k'' False)" "wm_peerRoutes (mr_plane eg_start) = Map.empty"
  by (simp_all add: eg_start_def device_state_def st_objs_def eg_peer_def peerKey_def)

lemma eg_peer_simps:
  "mp_Spec (eg_peer key b) = eg_spec key" "mp_Deleting (eg_peer key b) = b" "sp_PublicKey (eg_spec key) = key" "sp_Endpoint (eg_spec key) = ''''"
  "mp_Finalizers (eg_peer key True) = [meshPeerFinalizer]" "peerKey (eg_peer key b) = eg_name"
  by (simp_all add: eg_peer_def eg_spec_def peerKey_def)

theorem Reconcile_converges_witness:
  "\<not> mp_Deleting (eg_peer ''k'' False) \<and>
   converged st_objs wm_peerRoutes wg_planned eg_config eg_name (eg_spec ''k'') (passes mem_api eg_plane eg_config eg_name 2 eg_start)"
proof -
  obtain message where "route_decision eg_config (eg_spec ''k'') = Ret ([''10.1.0.0/16''], Connected, message)"
    using eg_decision by blast
  with Reconcile_converges [OF steady_wg.healthy_peers_axioms [of Inr Inr] eg_live(1,2,4), of eg_config "[''10.1.0.0/16'']" Connected message 2]
  show ?thesis by (simp add: eg_live(3) eg_peer_simps eg_net del: parseCIDRs.simps)
qed

lemma eg_passes:
  "converged st_objs wm_peerRoutes wg_planned eg_config eg_name (eg_spec ''k'') (passes mem_api eg_plane eg_config eg_name 2 eg_start)"
  "wg_ready (mr_plane (passes mem_api eg_plane eg_config eg_name j eg_start))"
  "\<exists>peer. st_objs (mr_api (passes mem_api eg_plane eg_config eg_name j eg_start)) eg_name = Some peer \<and> \<not> mp_Deleting peer"
proof -
  obtain message where "route_decision eg_config (eg_spec ''k'') = Ret ([''10.1.0.0/16''], Connected, message)"
    using eg_decision by blast
  then have "healthy_peers.live st_objs (\<lambda>a. st_faults a = []) wg_ready (\<lambda>key. \<exists>k. (Inr :: string \<Rightarrow> string result) key = Inr k)
    (\<lambda>endpoint cs. (\<exists>nets. parseCIDRs cs = Inr nets) \<and> (endpoint = '''' \<or> (\<exists>u. (Inr :: string \<Rightarrow> string result) endpoint = Inr u)))
    eg_config eg_name (eg_spec ''k'') eg_start (eg_peer ''k'' False)"
    unfolding steady_wg.live_def by (simp add: eg_live eg_peer_simps eg_net del: parseCIDRs.simps)
  from steady_wg.passes_live [OF this] show
    "converged st_objs wm_peerRoutes wg_planned eg_config eg_name (eg_spec ''k'') (passes mem_api eg_plane eg_config eg_name 2 eg_start)"
    "wg_ready (mr_plane (passes mem_api eg_plane eg_config eg_name j eg_start))"
    "\<exists>peer. st_objs (mr_api (passes mem_api eg_plane eg_config eg_name j eg_start)) eg_name = Some peer \<and> \<not> mp_Deleting peer"
    unfolding steady_wg.live_def by blast+
qed

lemma passes_reach: "peer_reach api dp cfg m (passes api dp cfg n k m)"
  by (induction k) (auto intro: peer_reach.intros prod.collapse [symmetric])

lemma eg_routes: "wm_peerRoutes (mr_plane (passes mem_api eg_plane eg_config eg_name 2 eg_start)) ''k'' = Some [''10.1.0.0/16'']"
proof -
  obtain message where "route_decision eg_config (eg_spec ''k'') = Ret ([''10.1.0.0/16''], Connected, message)"
    using eg_decision by blast
  then show ?thesis
    using eg_passes(1) by (auto simp: converged_def eg_peer_simps wg_planned_def eg_net simp del: parseCIDRs.simps)
qed

text \<open>C3. Along every history of an agent that starts with nothing programmed, whatever the
  API server and the host do and also after passes that failed half-way, each route recorded
  for a peer of the WireGuard data plane is the canonical form of a range that is safe to
  route: one that passes the screen against the local ranges and the dangerous ones, or a
  virtual range of the configured remap pool.\<close>

theorem Reconcile_routes_safe:
  assumes "meshpeer_api api objs" "peer_reach api (wg_plane host parseKey resolveUDP) cfg m0 m"
    and "wm_peerRoutes (mr_plane m0) = Map.empty" "wm_peerRoutes (mr_plane m) key = Some rs" "r \<in> set rs"
  shows "\<exists>c n. parse_net c = Some n \<and> r = string_of_net n \<and>
    (may_route (pc_LocalCIDRs cfg) c \<or>
     pc_RemapPool cfg \<noteq> '''' \<and> (\<exists>pid cy. VirtualCIDR (pc_RemapPool cfg) pid cy = Ret c))"
proof -
  have "peer_reconciler api objs (wg_plane host parseKey resolveUDP) wm_peerRoutes wg_planned"
    using assms(1) wg_dp.peer_plane_axioms by (rule peer_reconciler.intro)
  from peer_reconciler.reach_explained [OF this assms(2-4)]
  obtain spec cs phase message where d: "route_decision cfg spec = Ret (cs, phase, message)"
    "rs = wg_planned (sp_Endpoint spec) cs" unfolding explained_def by blast
  then obtain n where n: "r = string_of_net n" "\<exists>c\<in>set cs. parse_net c = Some n"
    using assms(5) parseCIDRs_sound by (fastforce simp: wg_planned_def split: sum.splits)
  then show ?thesis using route_decision_safe(2) [OF d(1)] unfolding route_safe_def by blast
qed

theorem Reconcile_routes_safe_witness:
  "\<exists>m. peer_reach mem_api eg_plane eg_config eg_start m \<and> wm_peerRoutes (mr_plane m) ''k'' = Some [''10.1.0.0/16''] \<and>
    (\<exists>c n. parse_net c = Some n \<and> ''10.1.0.0/16'' = string_of_net n \<and> may_route [''10.0.0.0/16''] c)"
proof -
  let ?m = "passes mem_api eg_plane eg_config eg_name 2 eg_start"
  have reach: "peer_reach mem_api eg_plane eg_config eg_start ?m" by (rule passes_reach)
  note r = eg_routes
  from Reconcile_routes_safe [OF mem_store.meshpeer_api_axioms reach eg_live(5) r] reach r
  show ?thesis by (auto simp: eg_config_def)
qed

section \<open>Accounting for programmed peers\<close>

text \<open>Every programmed peer is recorded under some object, from which it will be withdrawn.\<close>

definition peers_indexed :: "'p peer_view \<Rightarrow> bool" where
  "peers_indexed v \<longleftrightarrow> fst v '''' = None \<and> (\<forall>key. fst v key \<noteq> None \<longrightarrow> (\<exists>n. snd v n = Some key))"

lemma route_decision_key: "route_decision cfg spec = Ret d \<Longrightarrow> sp_PublicKey spec \<noteq> ''''"
  by (auto simp: route_decision_def Programmable_def plan_simps Let_def split: if_splits)

lemma peer_step_indexed:
  assumes "peer_step planned cfg n obj (P, K) (P', K')" "peers_indexed (P, K)"
    and "\<And>peer. obj = Some peer \<Longrightarrow> mp_Deleting peer \<Longrightarrow> K n = None \<or> K n = Some (sp_PublicKey (mp_Spec peer))"
  shows "peers_indexed (P', K')"
  unfolding peers_indexed_def fst_conv snd_conv
proof (intro conjI allI impI)
  show "P' '''' = None" using assms(1,2)
    by (cases rule: peer_stepE) (auto simp: peers_indexed_def without_rotated_def dest: route_decision_key split: option.splits if_splits)
next
  fix key assume key: "P' key \<noteq> None"
  from assms(1) show "\<exists>n. K' n = Some key"
  proof (cases rule: peer_stepE)
    assume "P' = P" "K' = K"
    then show ?thesis using assms(2) key unfolding peers_indexed_def by simp
  next
    fix old assume "P' = P(old := None)" "K = K'"
    then show ?thesis using assms(2) key unfolding peers_indexed_def by (auto split: if_splits)
  next
    fix peer cs
    let ?k = "sp_PublicKey (mp_Spec peer)"
    assume s: "P' = (without_rotated ?k (K n) P)(?k \<mapsto> planned (sp_Endpoint (mp_Spec peer)) cs)" "K' = K(n \<mapsto> ?k)"
    show ?thesis
    proof (cases "key = ?k")
      case False
      then have "P key \<noteq> None" "K n \<noteq> Some key" using s(1) key by (auto simp: without_rotated_def split: option.splits if_splits)
      then show ?thesis using assms(2) s(2) unfolding peers_indexed_def by (metis fst_conv fun_upd_apply snd_conv)
    next
      case True
      then show ?thesis using s(2) by (intro exI [of _ n]) simp
    qed
  next
    fix peer assume s: "obj = Some peer" "mp_Deleting peer" "K' = K(n := None)"
      "P' = (if sp_PublicKey (mp_Spec peer) = '''' then P else P(sp_PublicKey (mp_Spec peer) := None))"
    then have "P key \<noteq> None" "key \<noteq> sp_PublicKey (mp_Spec peer)"
      using key assms(2) unfolding peers_indexed_def by (auto split: if_splits)
    then show ?thesis using assms(2,3) s unfolding peers_indexed_def by (metis fst_conv fun_upd_apply option.sel option.distinct(1) snd_conv)
  next
    fix k assume s: "K n = Some k" "P' = P(k := None)" "K' = K(n := None)"
    then show ?thesis using assms(2) key unfolding peers_indexed_def by (metis fst_conv fun_upd_apply option.sel snd_conv)
  qed
qed

lemma peer_step_elsewhere: "peer_step planned cfg n obj (P, K) (P', K') \<Longrightarrow> n' \<noteq> n \<Longrightarrow> K' n' = K n'"
  by (auto elim: peer_stepE)

lemma peer_step_nothing: "peer_step planned cfg n None (P, K) (P', K') \<Longrightarrow> K n = None \<Longrightarrow> P' = P"
  by (auto elim: peer_stepE)

context peer_reconciler begin

lemma passes_step:
  "peer_step planned cfg n (objs (mr_api (passes api dp cfg n k m)) n) (pview (passes api dp cfg n k m)) (pview (passes api dp cfg n (Suc k) m))"
  using Reconcile_step [OF surjective_pairing] by simp

end

lemma eg_indexed:
  "peers_indexed (wm_peerRoutes (mr_plane (passes mem_api eg_plane eg_config eg_name k eg_start)),
     mr_keyIndex (passes mem_api eg_plane eg_config eg_name k eg_start))"
proof (induction k)
  case (Suc k)
  show ?case
    by (rule peer_step_indexed [OF steady_wg.passes_step [unfolded steady_wg.pview_def] Suc.IH]) (use eg_passes(3) [of k] in auto)
qed (simp add: peers_indexed_def eg_live)

lemma eg_elsewhere: "n \<noteq> eg_name \<Longrightarrow> mr_keyIndex (passes mem_api eg_plane eg_config eg_name k eg_start) n = None"
  using steady_wg.passes_step [unfolded steady_wg.pview_def, THEN peer_step_elsewhere]
  by (induction k) (auto simp: eg_live)



text \<open>C38. Deleting an object right after its key was rotated leaks the old peer: there is a
  history after which no object exists and no key is recorded, but the data plane still has
  the peer of the replaced key with its routes, and no further pass removes them.\<close>

theorem reconcileDelete_leaks_rotated_key:
  "\<exists>m. peer_reach mem_api eg_plane eg_config eg_start m \<and> st_objs (mr_api m) = Map.empty \<and> mr_keyIndex m = Map.empty \<and>
     wm_peerRoutes (mr_plane m) ''k'' = Some [''10.1.0.0/16''] \<and>
     (\<forall>n. wm_peerRoutes (mr_plane (snd (outcome (Reconcile mem_api eg_plane eg_config n) m))) = wm_peerRoutes (mr_plane m))"
proof -
  let ?m = "passes mem_api eg_plane eg_config eg_name 2 eg_start"
  let ?d = "?m\<lparr>mr_api := \<lparr>st_objects = [eg_peer ''new'' True], st_faults = []\<rparr>\<rparr>"
  have ready: "wg_ready (mr_plane ?d)" using eg_passes(2) by simp
  have obj: "st_objs (mr_api ?d) = [eg_name \<mapsto> eg_peer ''new'' True]" by (auto simp: st_objs_def eg_peer_simps fun_eq_iff)
  have p: "st_faults (mr_api ?d) = []" "st_objs (mr_api ?d) eg_name = Some (eg_peer ''new'' True)" "mp_Deleting (eg_peer ''new'' True)"
    "mp_Finalizers (eg_peer ''new'' True) = [meshPeerFinalizer]" "sp_PublicKey (mp_Spec (eg_peer ''new'' True)) \<noteq> ''''"
    "\<exists>k. (Inr :: string \<Rightarrow> string result) (sp_PublicKey (mp_Spec (eg_peer ''new'' True))) = Inr k"
    by (simp_all only: obj) (simp_all add: eg_peer_simps)
  from steady_wg.delete_up [of ?d eg_name "eg_peer ''new'' True" Inr Inr eg_config, OF p(1) ready p(2-6)] obtain m' where
    m': "outcome (Reconcile mem_api eg_plane eg_config eg_name) ?d = (Inr 0, m')" "st_objs (mr_api m') = (st_objs (mr_api ?d))(eg_name := None)"
    "wm_peerRoutes (mr_plane m') = (wm_peerRoutes (mr_plane ?m))(''new'' := None)" "mr_keyIndex m' = (mr_keyIndex ?m)(eg_name := None)"
    by (auto simp: eg_peer_simps)
  have "peer_reach mem_api eg_plane eg_config eg_start m'"
    by (rule peer_reach.pass [OF peer_reach.world [OF passes_reach] m'(1)])
  moreover have K: "mr_keyIndex m' = Map.empty" using m'(4) eg_elsewhere [of _ 2] by (auto simp: fun_eq_iff)
  moreover have O: "st_objs (mr_api m') = Map.empty" using m'(2) obj by (simp add: fun_eq_iff)
  moreover have "wm_peerRoutes (mr_plane ?m) ''k'' = Some [''10.1.0.0/16'']" by (rule eg_routes)
  moreover have "wm_peerRoutes (mr_plane (snd (outcome (Reconcile mem_api eg_plane eg_config n) m'))) = wm_peerRoutes (mr_plane m')" for n
    using steady_wg.Reconcile_step [where parseKey = Inr and resolveUDP = Inr and cfg = eg_config and n = n and m = m', OF surjective_pairing] K O peer_step_nothing
    unfolding steady_wg.pview_def by (metis (no_types, lifting))
  ultimately show ?thesis using m'(3) by auto
qed

end
