(* ===== verification/Mesh_Controllers.thy ===== *)
theory Mesh_Controllers
  imports Peer_Convergence Meshfw_Manager Nat_Manager Edge_Plan
begin

text \<open>
  The full-state reconcilers of \<^verbatim>\<open>pkg/controllers\<close>: each lists the current objects, computes
  one desired state from all of them and hands it to a manager. \<^verbatim>\<open>remap_controller.go\<close>,
  \<^verbatim>\<open>masqexempt_controller.go\<close>, \<^verbatim>\<open>meshnetworkpolicy_controller.go\<close> and \<^verbatim>\<open>gateway_controller.go\<close>.
  The state of a run is the pair of the API server's state and the data plane's.
\<close>

section \<open>Runs of a controller\<close>

record ('a, 'd) agent =
  ag_api :: 'a
  ag_plane :: 'd

abbreviation at_api :: "('a \<Rightarrow> 'x \<times> 'a) \<Rightarrow> ('a, 'd) agent \<Rightarrow> 'x \<times> ('a, 'd) agent" where
  "at_api \<equiv> lift_call ag_api (\<lambda>x m. m\<lparr>ag_api := x\<rparr>)"

abbreviation at_plane :: "('d \<Rightarrow> 'x \<times> 'd) \<Rightarrow> ('a, 'd) agent \<Rightarrow> 'x \<times> ('a, 'd) agent" where
  "at_plane \<equiv> lift_call ag_plane (\<lambda>x m. m\<lparr>ag_plane := x\<rparr>)"

lemma outcome_at_plane: "outcome (call (at_plane f)) m = (case f (ag_plane m) of (r, d) \<Rightarrow> (r, m\<lparr>ag_plane := d\<rparr>))"
  by (simp add: outcome_call lift_call_def)

lemma outcome_at_api: "outcome (call (at_api f)) m = (case f (ag_api m) of (r, a) \<Rightarrow> (r, m\<lparr>ag_api := a\<rparr>))"
  by (simp add: outcome_call lift_call_def)

type_synonym ('x, 'a) lister = "'a \<Rightarrow> 'x list result \<times> 'a"

section \<open>Overlap remap\<close>

definition excludeDangerous :: "string list \<Rightarrow> string list" where
  "excludeDangerous cidrs = filter (\<lambda>c. c \<notin> set (DangerousCIDRs cidrs)) cidrs"

record build_state =
  bs_owner :: "string \<rightharpoonup> string"
  bs_out :: "RemapEntry list"

definition remap_claim :: "string \<Rightarrow> string \<Rightarrow> string \<Rightarrow> build_state \<Rightarrow> build_state go" where
  "remap_claim pool virtual source st =
     (case bs_owner st virtual of
        Some prev \<Rightarrow>
          if prev \<noteq> source then
            Err (''overlap remap collision in pool '' @ pool @ '': '' @ prev @ '' and '' @ source @ '' both map to virtual '' @ virtual @
                 ''; enlarge DataWerx_REMAP_CIDR or remove the overlapping ranges'')
          else Ret (st\<lparr>bs_owner := (bs_owner st)(virtual \<mapsto> source)\<rparr>)
      | None \<Rightarrow> Ret (st\<lparr>bs_owner := (bs_owner st)(virtual \<mapsto> source)\<rparr>))"

definition add_local :: "string \<Rightarrow> Remap \<Rightarrow> build_state \<Rightarrow> build_state go" where
  "add_local pool lr st = bind_go (remap_claim pool (rm_Virtual lr) (''local '' @ rm_Real lr) st) (\<lambda>st.
     let e = \<lparr>re_Real = rm_Real lr, re_Virtual = rm_Virtual lr\<rparr> in
     Ret (if e \<in> set (bs_out st) then st else st\<lparr>bs_out := bs_out st @ [e]\<rparr>))"

definition remap_peer :: "peer_config \<Rightarrow> MeshPeer \<Rightarrow> build_state \<Rightarrow> build_state go" where
  "remap_peer cfg p st =
     (if sp_PublicKey (mp_Spec p) = '''' then Ret st
      else let conflicts = excludeDangerous (snd (Partition (AllCIDRs (mp_Spec p)) (pc_LocalCIDRs cfg))) in
        if conflicts = [] then Ret st
        else case PlanRemap (pc_RemapPool cfg) (pc_ClusterID cfg) (pc_LocalCIDRs cfg) (sp_ClusterID (mp_Spec p)) conflicts of
          Err e \<Rightarrow> Err (''planning remap for peer '' @ MeshPeer.mp_Name p @ '': '' @ e)
        | Panic e \<Rightarrow> Panic e
        | Ret rp \<Rightarrow>
            bind_go (fold_go (\<lambda>v. remap_claim (pc_RemapPool cfg) v (''peer '' @ sp_ClusterID (mp_Spec p) @ '' route'')) (rp_RouteVirtual rp) st)
              (fold_go (add_local (pc_RemapPool cfg)) (rp_Locals rp)))"

definition buildEntries :: "peer_config \<Rightarrow> MeshPeer list \<Rightarrow> RemapEntry list go" where
  "buildEntries cfg peers = bind_go (fold_go (remap_peer cfg) peers \<lparr>bs_owner = Map.empty, bs_out = []\<rparr>) (\<lambda>st. Ret (bs_out st))"

text \<open>A panic ends the pass with an error, as the controller runtime recovers it.\<close>

definition of_go :: "'x go \<Rightarrow> ('s, 'x) run" where
  "of_go x = (case x of Ret a \<Rightarrow> ret a | Err e \<Rightarrow> failing e | Panic e \<Rightarrow> failing (''panic: '' @ e @ '' [recovered]''))"

definition remap_Reconcile ::
  "(MeshPeer, 'a) lister \<Rightarrow> (RemapEntry list \<Rightarrow> 'd \<Rightarrow> unit result \<times> 'd) \<Rightarrow> peer_config \<Rightarrow> (('a, 'd) agent, unit) run" where
  "remap_Reconcile listPeers sync cfg =
     bind_run (errorf ''listing MeshPeers'' (call (at_api listPeers))) (\<lambda>peers.
     bind_run (of_go (buildEntries cfg peers)) (\<lambda>entries.
       errorf ''syncing overlap NETMAP'' (call (at_plane (sync entries)))))"

section \<open>Masquerade exemption\<close>

text \<open>Go's idiom of a \<^verbatim>\<open>seen\<close> map beside an output slice.\<close>

definition routedRemoteCIDRs :: "string list \<Rightarrow> MeshPeer list \<Rightarrow> string list" where
  "routedRemoteCIDRs localCIDRs peers = dedup_first (concat (map (\<lambda>p.
     if sp_PublicKey (mp_Spec p) = '''' then [] else fst (Partition (AllCIDRs (mp_Spec p)) localCIDRs)) peers))"

definition masq_Reconcile ::
  "(MeshPeer, 'a) lister \<Rightarrow> (string list \<Rightarrow> string list \<Rightarrow> 'd \<Rightarrow> unit result \<times> 'd) \<Rightarrow> string list \<Rightarrow> (('a, 'd) agent, unit) run" where
  "masq_Reconcile listPeers sync localCIDRs =
     bind_run (errorf ''listing MeshPeers'' (call (at_api listPeers))) (\<lambda>peers.
       errorf ''syncing masquerade exemption'' (call (at_plane (sync localCIDRs (routedRemoteCIDRs localCIDRs peers)))))"

section \<open>Network policies\<close>

datatype MeshNetworkPolicyPhase = PolicyUnset | PolicyPending | PolicyReady | PolicyError

record MeshNetworkPolicyPort =
  np_Protocol :: string
  np_Port :: int

record MeshPeerSelector =
  se_ClusterIDs :: "string list"
  se_CIDRs :: "string list"

record MeshIngressRule =
  mi_From :: "MeshPeerSelector list"
  mi_Ports :: "MeshNetworkPolicyPort list"

record MeshNetworkPolicySpec =
  mn_Destinations :: "string list"
  mn_Ingress :: "MeshIngressRule list"

record MeshNetworkPolicyStatus =
  mt_Phase :: MeshNetworkPolicyPhase
  mt_Message :: string
  mt_ObservedGeneration :: int

record MeshNetworkPolicy =
  mnp_Name :: string
  mnp_Generation :: int
  mnp_Spec :: MeshNetworkPolicySpec
  mnp_Status :: MeshNetworkPolicyStatus

definition toPolicies :: "MeshNetworkPolicy list \<Rightarrow> Policy list" where
  "toPolicies items = map (\<lambda>p. \<lparr>pc_Name = mnp_Name p, pc_Destinations = mn_Destinations (mnp_Spec p),
     pc_Ingress = map (\<lambda>ing. \<lparr>ir_From = map (\<lambda>sel. \<lparr>ps_ClusterIDs = se_ClusterIDs sel, ps_CIDRs = se_CIDRs sel\<rparr>) (mi_From ing),
                              ir_Ports = map (\<lambda>port. \<lparr>po_Protocol = np_Protocol port, po_Port = np_Port port\<rparr>) (mi_Ports ing)\<rparr>)
                    (mn_Ingress (mnp_Spec p))\<rparr>) items"

fun cluster_cidrs :: "MeshPeer list \<Rightarrow> (string \<Rightarrow> string list) \<Rightarrow> string \<Rightarrow> string list" where
  "cluster_cidrs [] m = m"
| "cluster_cidrs (p # ps) m = cluster_cidrs ps
     (if sp_ClusterID (mp_Spec p) = '''' then m
      else m(sp_ClusterID (mp_Spec p) := m (sp_ClusterID (mp_Spec p)) @ AllCIDRs (mp_Spec p)))"

definition patchAll ::
  "(MeshNetworkPolicy \<Rightarrow> 'a \<Rightarrow> unit result \<times> 'a) \<Rightarrow> MeshNetworkPolicy list \<Rightarrow> MeshNetworkPolicyPhase \<Rightarrow> string \<Rightarrow> (('a, 'd) agent, unit) run" where
  "patchAll patch items phase msg = for_each (\<lambda>p.
     if mt_Phase (mnp_Status p) = phase \<and> mt_Message (mnp_Status p) = msg \<and> mt_ObservedGeneration (mnp_Status p) = mnp_Generation p
     then ret ()
     else attempt (call (at_api (patch (p\<lparr>mnp_Status := (mnp_Status p)\<lparr>mt_Phase := phase, mt_Message := msg,
       mt_ObservedGeneration := mnp_Generation p\<rparr>\<rparr>))))) items"

definition policy_Reconcile ::
  "(MeshNetworkPolicy, 'a) lister \<Rightarrow> (MeshPeer, 'a) lister \<Rightarrow> (MeshNetworkPolicy \<Rightarrow> 'a \<Rightarrow> unit result \<times> 'a) \<Rightarrow>
   (Ruleset \<Rightarrow> 'd \<Rightarrow> unit result \<times> 'd) \<Rightarrow> (('a, 'd) agent, unit) run" where
  "policy_Reconcile listPolicies listPeers patch sync =
     bind_run (errorf ''listing MeshNetworkPolicies'' (call (at_api listPolicies))) (\<lambda>policies.
     bind_run (errorf ''listing MeshPeers'' (call (at_api listPeers))) (\<lambda>peers.
       let rs = BuildFirewall (toPolicies policies) (cluster_cidrs peers (\<lambda>_. [])) in
       seq (on_error (call (at_plane (sync rs)))
              (\<lambda>err. seq (patchAll patch policies PolicyError (''programming firewall: '' @ err)) (failing (''syncing mesh firewall: '' @ err))))
         (patchAll patch policies PolicyReady
           (if rs_Skipped rs \<noteq> [] then ''skipped non-IPv4 inputs (IPv4 data plane): '' @ join '', '' (rs_Skipped rs) else ''''))))"

section \<open>Remote-access gateway\<close>

record gateway_config =
  gc_ClientCIDRs :: "string list"
  gc_GatewayEndpoints :: "string list"
  gc_ClusterSetCIDRs :: "string list"
  gc_LocalCIDRs :: "string list"
  gc_DNS :: DNSConfig
  gc_ProfileNamespace :: string
  gc_NoNAT :: bool

definition DefaultProfileNamespace :: string where "DefaultProfileNamespace = ''datawerx-system''"
definition ProfileConfigMapName :: string where "ProfileConfigMapName = ''dwx-remote-access''"

definition profileNamespace :: "gateway_config \<Rightarrow> string" where
  "profileNamespace cfg = (if gc_ProfileNamespace cfg \<noteq> '''' then gc_ProfileNamespace cfg else DefaultProfileNamespace)"

definition dedupeUnion :: "string list \<Rightarrow> string list \<Rightarrow> string list" where
  "dedupeUnion a b = dedup_first (filter (\<lambda>s. s \<noteq> '''') (a @ b))"

definition reachableMesh :: "string list \<Rightarrow> MeshPeer list \<Rightarrow> string list" where
  "reachableMesh localCIDRs peers = dedup_first (filter (\<lambda>c. c \<noteq> '''') (localCIDRs @ concat (map (\<lambda>p.
     if sp_PublicKey (mp_Spec p) = '''' then [] else fst (Partition (AllCIDRs (mp_Spec p)) localCIDRs)) peers)))"

text \<open>\<^verbatim>\<open>publish\<close> stands for \<^verbatim>\<open>json.Marshal\<close> of the profile and the library's \<^verbatim>\<open>CreateOrUpdate\<close> of
  the named ConfigMap with it.\<close>

definition publishProfile ::
  "(string \<Rightarrow> string \<Rightarrow> AccessProfile \<Rightarrow> 'a \<Rightarrow> unit result \<times> 'a) \<Rightarrow> gateway_config \<Rightarrow> string list \<Rightarrow> (('a, 'd) agent, unit) run" where
  "publishProfile publish cfg mesh = errorf (''publishing access-profile ConfigMap '' @ profileNamespace cfg @ ''/'' @ ProfileConfigMapName)
     (call (at_api (publish (profileNamespace cfg) ProfileConfigMapName
       (BuildAccessProfile (gc_GatewayEndpoints cfg) (gc_ClusterSetCIDRs cfg) mesh (gc_DNS cfg)))))"

definition gateway_Reconcile ::
  "(MeshPeer, 'a) lister \<Rightarrow> (string list \<Rightarrow> string list \<Rightarrow> 'd \<Rightarrow> unit result \<times> 'd) \<Rightarrow>
   (string \<Rightarrow> string \<Rightarrow> AccessProfile \<Rightarrow> 'a \<Rightarrow> unit result \<times> 'a) \<Rightarrow> gateway_config \<Rightarrow> (('a, 'd) agent, unit) run" where
  "gateway_Reconcile listPeers sync publish cfg =
     bind_run (errorf ''listing MeshPeers'' (call (at_api listPeers))) (\<lambda>peers.
       let mesh = reachableMesh (gc_LocalCIDRs cfg) peers;
           dest = dedupeUnion (gc_ClusterSetCIDRs cfg) mesh;
           masqClients = (if gc_NoNAT cfg then [] else gc_ClientCIDRs cfg) in
       seq (errorf ''syncing gateway masquerade'' (call (at_plane (sync masqClients dest))))
         (publishProfile publish cfg mesh))"

section \<open>What the remap entries are\<close>

definition netmap_conflicts :: "peer_config \<Rightarrow> MeshPeer \<Rightarrow> string list" where
  "netmap_conflicts cfg p = (if sp_PublicKey (mp_Spec p) = '''' then []
     else excludeDangerous (snd (Partition (AllCIDRs (mp_Spec p)) (pc_LocalCIDRs cfg))))"

abbreviation route_source :: "MeshPeer \<Rightarrow> string" where
  "route_source p \<equiv> ''peer '' @ sp_ClusterID (mp_Spec p) @ '' route''"

lemma DangerousCIDRs_set: "set (DangerousCIDRs cs) = {c \<in> set cs. \<exists>n. parse_net c = Some n \<and> IsDangerousCIDR (Some n)}"
  by (induction cs) (auto simp: parse_net_def split: sum.splits)

lemma netmap_conflicts_set:
  "c \<in> set (netmap_conflicts cfg p) \<longleftrightarrow> sp_PublicKey (mp_Spec p) \<noteq> '''' \<and> c \<in> set (AllCIDRs (mp_Spec p)) \<and>
     \<not> may_route (pc_LocalCIDRs cfg) c \<and> (\<forall>n. parse_net c = Some n \<longrightarrow> \<not> IsDangerousCIDR (Some n))"
  by (auto simp: netmap_conflicts_def excludeDangerous_def DangerousCIDRs_set Partition_conv)

text \<open>Claims are only ever added, and every entry has the claim of its local range.\<close>

definition bs_le :: "build_state \<Rightarrow> build_state \<Rightarrow> bool" where
  "bs_le s t \<longleftrightarrow> (\<forall>v x. bs_owner s v = Some x \<longrightarrow> bs_owner t v = Some x) \<and> set (bs_out s) \<subseteq> set (bs_out t)"

lemma bs_le_refl: "bs_le s s" and bs_le_trans: "bs_le s t \<Longrightarrow> bs_le t u \<Longrightarrow> bs_le s u"
  by (auto simp: bs_le_def)

definition entry_claimed :: "peer_config \<Rightarrow> build_state \<Rightarrow> RemapEntry \<Rightarrow> bool" where
  "entry_claimed cfg st e \<longleftrightarrow> bs_owner st (re_Virtual e) = Some (''local '' @ re_Real e) \<and>
     VirtualCIDR (pc_RemapPool cfg) (pc_ClusterID cfg) (re_Real e) = Ret (re_Virtual e) \<and>
     re_Real e \<in> string_of_net ` set (ParseCIDRList (pc_LocalCIDRs cfg))"

definition entries_claimed :: "peer_config \<Rightarrow> build_state \<Rightarrow> bool" where
  "entries_claimed cfg st \<longleftrightarrow> distinct (bs_out st) \<and> (\<forall>e\<in>set (bs_out st). entry_claimed cfg st e)"

lemma remap_claim_Ret:
  assumes "remap_claim pool v x s = Ret t"
  shows "bs_le s t" "bs_owner t v = Some x" "bs_out t = bs_out s"
  using assms by (auto simp: remap_claim_def bs_le_def split: option.splits if_splits)

lemma entry_claimed_mono: "bs_le s t \<Longrightarrow> entry_claimed cfg s e \<Longrightarrow> entry_claimed cfg t e"
  by (simp add: bs_le_def entry_claimed_def)

lemma add_local_Ret:
  assumes "add_local pool lr s = Ret t"
  shows "bs_le s t" "\<lparr>re_Real = rm_Real lr, re_Virtual = rm_Virtual lr\<rparr> \<in> set (bs_out t)"
    "bs_owner t (rm_Virtual lr) = Some (''local '' @ rm_Real lr)"
    "set (bs_out t) = insert \<lparr>re_Real = rm_Real lr, re_Virtual = rm_Virtual lr\<rparr> (set (bs_out s))" "distinct (bs_out s) \<Longrightarrow> distinct (bs_out t)"
proof -
  obtain u where u: "remap_claim pool (rm_Virtual lr) (''local '' @ rm_Real lr) s = Ret u"
    and t: "t = (if \<lparr>re_Real = rm_Real lr, re_Virtual = rm_Virtual lr\<rparr> \<in> set (bs_out u) then u
                 else u\<lparr>bs_out := bs_out u @ [\<lparr>re_Real = rm_Real lr, re_Virtual = rm_Virtual lr\<rparr>]\<rparr>)"
    using assms by (auto simp: add_local_def bind_go_Ret_iff Let_def)
  note c = remap_claim_Ret [OF u]
  show "bs_le s t" using c t by (auto simp: bs_le_def)
  show "\<lparr>re_Real = rm_Real lr, re_Virtual = rm_Virtual lr\<rparr> \<in> set (bs_out t)"
    "bs_owner t (rm_Virtual lr) = Some (''local '' @ rm_Real lr)"
    "set (bs_out t) = insert \<lparr>re_Real = rm_Real lr, re_Virtual = rm_Virtual lr\<rparr> (set (bs_out s))"
    "distinct (bs_out s) \<Longrightarrow> distinct (bs_out t)" using c t by auto
qed

definition peer_done :: "peer_config \<Rightarrow> MeshPeer \<Rightarrow> build_state \<Rightarrow> bool" where
  "peer_done cfg p st \<longleftrightarrow> (\<forall>c\<in>set (netmap_conflicts cfg p). \<forall>n. parse_net c = Some n \<longrightarrow>
     (\<exists>v. VirtualCIDR (pc_RemapPool cfg) (sp_ClusterID (mp_Spec p)) c = Ret v \<and> bs_owner st v = Some (route_source p)) \<and>
     (\<forall>cx\<in>set (ParseCIDRList (pc_LocalCIDRs cfg)). cidrsOverlap cx n \<longrightarrow>
        (\<exists>vx. \<lparr>re_Real = string_of_net cx, re_Virtual = vx\<rparr> \<in> set (bs_out st))))"

lemma peer_done_mono: "bs_le s t \<Longrightarrow> peer_done cfg p s \<Longrightarrow> peer_done cfg p t"
  unfolding bs_le_def peer_done_def by (meson subset_iff)

lemma remap_peer_cases:
  assumes "remap_peer cfg p s = Ret t"
  obtains "netmap_conflicts cfg p = []" "t = s"
  | rp u where "PlanRemap (pc_RemapPool cfg) (pc_ClusterID cfg) (pc_LocalCIDRs cfg) (sp_ClusterID (mp_Spec p)) (netmap_conflicts cfg p) = Ret rp"
      "fold_go (\<lambda>v. remap_claim (pc_RemapPool cfg) v (route_source p)) (rp_RouteVirtual rp) s = Ret u"
      "fold_go (add_local (pc_RemapPool cfg)) (rp_Locals rp) u = Ret t"
  using assms by (auto simp: remap_peer_def netmap_conflicts_def Let_def bind_go_Ret_iff split: if_splits go.splits)

lemma PlanRemap_complete:
  assumes "PlanRemap pool lid ls pid cs = Ret rp" "c \<in> set cs" "parse_net c = Some n"
  shows "\<exists>v. VirtualCIDR pool pid c = Ret v \<and> v \<in> set (rp_RouteVirtual rp)"
    "cx \<in> set (ParseCIDRList ls) \<Longrightarrow> cidrsOverlap cx n \<Longrightarrow> \<exists>vx. \<lparr>rm_Real = string_of_net cx, rm_Virtual = vx\<rparr> \<in> set (rp_Locals rp)"
proof -
  obtain st where "conflict_done pool lid (ParseCIDRList ls) pid c st" using PlanRemap_state [OF assms(1)] assms(2) by metis
  then have d: "\<exists>v. VirtualCIDR pool pid c = Ret v" "cx \<in> set (ParseCIDRList ls) \<Longrightarrow> cidrsOverlap cx n \<Longrightarrow> \<exists>vx. VirtualCIDR pool lid (string_of_net cx) = Ret vx"
    using assms(3) unfolding conflict_done_def local_done_def by blast+
  show "\<exists>v. VirtualCIDR pool pid c = Ret v \<and> v \<in> set (rp_RouteVirtual rp)"
    using d(1) assms(2,3) PlanRemap_routes_set [OF assms(1)] by auto
  show "cx \<in> set (ParseCIDRList ls) \<Longrightarrow> cidrsOverlap cx n \<Longrightarrow> \<exists>vx. \<lparr>rm_Real = string_of_net cx, rm_Virtual = vx\<rparr> \<in> set (rp_Locals rp)"
    using d(2) assms(2,3) PlanRemap_locals_set [OF assms(1)] by blast
qed

lemma claims_Ret:
  assumes "fold_go (\<lambda>v. remap_claim pool v x) vs s = Ret t"
  shows "bs_le s t \<and> (\<forall>v\<in>set vs. bs_owner t v = Some x)" "bs_out t = bs_out s"
proof -
  show "bs_le s t \<and> (\<forall>v\<in>set vs. bs_owner t v = Some x)"
  proof (rule fold_go_facts [OF assms _ bs_le_refl bs_le_trans])
    show "remap_claim pool v x u = Ret w \<Longrightarrow> bs_le u w \<and> bs_owner w v = Some x" for v u w by (simp add: remap_claim_Ret)
  qed (simp_all add: bs_le_def)
  show "bs_out t = bs_out s"
    by (rule fold_go_invariant [OF assms, where P = "\<lambda>u. bs_out u = bs_out s"]) (auto dest: remap_claim_Ret(3))
qed

lemma locals_Ret:
  assumes "fold_go (add_local pool) ls s = Ret t"
  shows "bs_le s t \<and> (\<forall>lr\<in>set ls. \<lparr>re_Real = rm_Real lr, re_Virtual = rm_Virtual lr\<rparr> \<in> set (bs_out t))"
proof (rule fold_go_facts [OF assms _ bs_le_refl bs_le_trans])
  show "add_local pool lr u = Ret w \<Longrightarrow> bs_le u w \<and> \<lparr>re_Real = rm_Real lr, re_Virtual = rm_Virtual lr\<rparr> \<in> set (bs_out w)" for lr u w
    using add_local_Ret(1,2) by blast
qed (auto simp: bs_le_def)

lemma remap_peer_done:
  assumes "remap_peer cfg p s = Ret t"
  shows "bs_le s t \<and> peer_done cfg p t"
  using assms
proof (cases rule: remap_peer_cases)
  case 1
  then show ?thesis by (simp add: bs_le_refl peer_done_def)
next
  case (2 rp u)
  note c = claims_Ret(1) [OF 2(2)] and l = locals_Ret [OF 2(3)]
  have "peer_done cfg p t"
    unfolding peer_done_def
  proof (intro ballI allI impI conjI)
    fix x n assume x: "x \<in> set (netmap_conflicts cfg p)" "parse_net x = Some n"
    show "\<exists>v. VirtualCIDR (pc_RemapPool cfg) (sp_ClusterID (mp_Spec p)) x = Ret v \<and> bs_owner t v = Some (route_source p)"
      using PlanRemap_complete(1) [OF 2(1) x] c l unfolding bs_le_def by blast
    fix cx assume "cx \<in> set (ParseCIDRList (pc_LocalCIDRs cfg))" "cidrsOverlap cx n"
    then show "\<exists>vx. \<lparr>re_Real = string_of_net cx, re_Virtual = vx\<rparr> \<in> set (bs_out t)"
      using PlanRemap_complete(2) [OF 2(1) x] l by fastforce
  qed
  then show ?thesis using c l bs_le_trans by blast
qed

lemma add_local_claimed:
  assumes "add_local (pc_RemapPool cfg) lr s = Ret t" "entries_claimed cfg s"
    "VirtualCIDR (pc_RemapPool cfg) (pc_ClusterID cfg) (rm_Real lr) = Ret (rm_Virtual lr)"
    "rm_Real lr \<in> string_of_net ` set (ParseCIDRList (pc_LocalCIDRs cfg))"
  shows "entries_claimed cfg t"
  unfolding entries_claimed_def
proof
  show "distinct (bs_out t)" using add_local_Ret(5) [OF assms(1)] assms(2) by (simp add: entries_claimed_def)
  have "entry_claimed cfg t \<lparr>re_Real = rm_Real lr, re_Virtual = rm_Virtual lr\<rparr>"
    using add_local_Ret(3) [OF assms(1)] assms(3,4) by (simp add: entry_claimed_def)
  then show "\<forall>e\<in>set (bs_out t). entry_claimed cfg t e"
    unfolding add_local_Ret(4) [OF assms(1)] using assms(2) entry_claimed_mono [OF add_local_Ret(1) [OF assms(1)]]
    by (auto simp only: entries_claimed_def ball_simps)
qed

lemma remap_peer_claimed:
  assumes "remap_peer cfg p s = Ret t" "entries_claimed cfg s"
  shows "entries_claimed cfg t"
  using assms(1)
proof (cases rule: remap_peer_cases)
  case 1
  then show ?thesis using assms(2) by simp
next
  case (2 rp u)
  have "entries_claimed cfg u"
    using claims_Ret [OF 2(2)] assms(2) entry_claimed_mono unfolding entries_claimed_def by auto
  with 2(3) show ?thesis
  proof (rule fold_go_invariant)
    fix lr v w assume lr: "lr \<in> set (rp_Locals rp)" "entries_claimed cfg v" "add_local (pc_RemapPool cfg) lr v = Ret w"
    from lr(1) show "entries_claimed cfg w"
      unfolding PlanRemap_locals_set [OF 2(1)] by (auto intro!: add_local_claimed [OF lr(3,2)])
  qed
qed

lemma buildEntries_state:
  assumes "buildEntries cfg peers = Ret out"
  obtains st where "out = bs_out st" "entries_claimed cfg st" "\<And>p. p \<in> set peers \<Longrightarrow> peer_done cfg p st"
proof -
  let ?s = "\<lparr>bs_owner = Map.empty, bs_out = []\<rparr>"
  obtain st where st: "fold_go (remap_peer cfg) peers ?s = Ret st" "out = bs_out st"
    using assms by (auto simp: buildEntries_def bind_go_Ret_iff)
  have "entries_claimed cfg ?s" by (simp add: entries_claimed_def)
  with st(1) have "entries_claimed cfg st" by (rule fold_go_invariant) (rule remap_peer_claimed)
  moreover have "bs_le ?s st \<and> (\<forall>p\<in>set peers. peer_done cfg p st)"
    using st(1) remap_peer_done bs_le_refl bs_le_trans peer_done_mono by (rule fold_go_facts)
  ultimately show thesis using that st(2) by blast
qed

lemma route_decision_remaps:
  assumes "route_decision cfg (mp_Spec p) = Ret (cs, phase, message)" "pc_RemapPool cfg \<noteq> ''''"
    "c \<in> set (netmap_conflicts cfg p)" "parse_net c = Some n"
  shows "\<exists>v\<in>set cs. VirtualCIDR (pc_RemapPool cfg) (sp_ClusterID (mp_Spec p)) c = Ret v"
proof -
  let ?plan = "PlanPeer (mp_Spec p) (pc_LocalCIDRs cfg)"
  have c: "c \<in> set (pl_ConflictingCIDRs ?plan)" using assms(3) by (simp add: netmap_conflicts_set plan_simps)
  then have "HasConflicts ?plan" by (auto simp: HasConflicts_def)
  then obtain rp where rp: "PlanRemap (pc_RemapPool cfg) (pc_ClusterID cfg) (pc_LocalCIDRs cfg) (sp_ClusterID (mp_Spec p)) (pl_ConflictingCIDRs ?plan) = Ret rp"
    "cs = pl_RoutableCIDRs ?plan @ rp_RouteVirtual rp"
    using assms(1,2) by (auto simp: route_decision_def Let_def split: if_splits go.splits)
  then show ?thesis using PlanRemap_complete(1) [OF rp(1) c assms(4)] by auto
qed

text \<open>C6. The two halves of overlap remap fit together and are unambiguous across all peers.
  When the NETMAP entries can be built, no two of them share a virtual range and each is the
  virtual range of a local range; and for every conflicting range of a peer that is not a
  dangerous one, the peer reconciler routes its virtual range, no entry and no peer of another
  cluster uses that virtual range, and every local range it overlaps has its entry.\<close>

theorem buildEntries_unambiguous:
  assumes "buildEntries cfg peers = Ret entries"
  shows "distinct entries \<and> inj_on re_Virtual (set entries) \<and>
    (\<forall>e\<in>set entries. re_Real e \<in> string_of_net ` set (ParseCIDRList (pc_LocalCIDRs cfg)) \<and>
       VirtualCIDR (pc_RemapPool cfg) (pc_ClusterID cfg) (re_Real e) = Ret (re_Virtual e)) \<and>
    (\<forall>p\<in>set peers. \<forall>c\<in>set (netmap_conflicts cfg p). \<forall>n. parse_net c = Some n \<longrightarrow>
       (\<exists>v. VirtualCIDR (pc_RemapPool cfg) (sp_ClusterID (mp_Spec p)) c = Ret v \<and>
          (\<forall>cs phase message. pc_RemapPool cfg \<noteq> '''' \<longrightarrow> route_decision cfg (mp_Spec p) = Ret (cs, phase, message) \<longrightarrow> v \<in> set cs) \<and>
          (\<forall>e\<in>set entries. re_Virtual e \<noteq> v) \<and>
          (\<forall>q\<in>set peers. \<forall>d\<in>set (netmap_conflicts cfg q). parse_net d \<noteq> None \<longrightarrow>
             VirtualCIDR (pc_RemapPool cfg) (sp_ClusterID (mp_Spec q)) d = Ret v \<longrightarrow> sp_ClusterID (mp_Spec q) = sp_ClusterID (mp_Spec p))) \<and>
       (\<forall>cx\<in>set (ParseCIDRList (pc_LocalCIDRs cfg)). cidrsOverlap cx n \<longrightarrow> (\<exists>e\<in>set entries. re_Real e = string_of_net cx)))"
proof -
  obtain st where st: "entries = bs_out st" "entries_claimed cfg st" "\<And>p. p \<in> set peers \<Longrightarrow> peer_done cfg p st"
    using buildEntries_state [OF assms] by blast
  have e: "entry_claimed cfg st e" if "e \<in> set entries" for e using that st(1,2) by (simp add: entries_claimed_def)
  have inj: "inj_on re_Virtual (set entries)"
  proof (rule inj_onI)
    fix x y assume xy: "x \<in> set entries" "y \<in> set entries" "re_Virtual x = re_Virtual y"
    then have "re_Real x = re_Real y" using e [OF xy(1)] e [OF xy(2)] by (simp add: entry_claimed_def)
    with xy(3) show "x = y" by simp
  qed
  have other: "\<exists>v. VirtualCIDR (pc_RemapPool cfg) (sp_ClusterID (mp_Spec p)) c = Ret v \<and>
      (\<forall>cs phase message. pc_RemapPool cfg \<noteq> '''' \<longrightarrow> route_decision cfg (mp_Spec p) = Ret (cs, phase, message) \<longrightarrow> v \<in> set cs) \<and>
      (\<forall>e\<in>set entries. re_Virtual e \<noteq> v) \<and>
      (\<forall>q\<in>set peers. \<forall>d\<in>set (netmap_conflicts cfg q). parse_net d \<noteq> None \<longrightarrow>
         VirtualCIDR (pc_RemapPool cfg) (sp_ClusterID (mp_Spec q)) d = Ret v \<longrightarrow> sp_ClusterID (mp_Spec q) = sp_ClusterID (mp_Spec p))"
    if p: "p \<in> set peers" "c \<in> set (netmap_conflicts cfg p)" "parse_net c = Some n" for p c n
  proof -
    obtain v where v: "VirtualCIDR (pc_RemapPool cfg) (sp_ClusterID (mp_Spec p)) c = Ret v" "bs_owner st v = Some (route_source p)"
      using st(3) [OF p(1)] p(2,3) unfolding peer_done_def by blast
    have "sp_ClusterID (mp_Spec q) = sp_ClusterID (mp_Spec p)"
      if "q \<in> set peers" "d \<in> set (netmap_conflicts cfg q)" "parse_net d = Some k"
        "VirtualCIDR (pc_RemapPool cfg) (sp_ClusterID (mp_Spec q)) d = Ret v" for q d k
      using st(3) [OF that(1)] that v(2) unfolding peer_done_def by fastforce
    moreover have "\<forall>e\<in>set entries. re_Virtual e \<noteq> v" using e v(2) by (auto simp: entry_claimed_def)
    moreover have "v \<in> set cs" if "pc_RemapPool cfg \<noteq> ''''" "route_decision cfg (mp_Spec p) = Ret (cs, phase, message)" for cs phase message
      using route_decision_remaps [OF that(2,1) p(2,3)] v(1) by auto
    ultimately show ?thesis using v(1) by blast
  qed
  have "\<exists>e\<in>set entries. re_Real e = string_of_net cx"
    if p: "p \<in> set peers" and c: "c \<in> set (netmap_conflicts cfg p)" "parse_net c = Some n"
      "cx \<in> set (ParseCIDRList (pc_LocalCIDRs cfg))" "cidrsOverlap cx n" for p c n cx
  proof -
    obtain vx where "\<lparr>re_Real = string_of_net cx, re_Virtual = vx\<rparr> \<in> set entries"
      using st(3) [OF p, unfolded peer_done_def] c unfolding st(1) by blast
    then show ?thesis by (rule bexI [rotated]) simp
  qed
  then show ?thesis using st(1,2) inj other e unfolding entries_claimed_def entry_claimed_def by blast
qed

lemma eg_buildEntries:
  "buildEntries \<lparr>pc_LocalCIDRs = [''10.0.0.0/16''], pc_ClusterID = ''a'', pc_RemapPool = DefaultRemapPool\<rparr>
     [\<lparr>mp_Namespace = '''', mp_Name = ''b'', mp_Generation = 1, mp_Deleting = False, mp_Finalizers = [],
       mp_Spec = \<lparr>sp_ClusterID = ''b'', sp_PublicKey = ''k'', sp_Endpoint = '''', sp_PodCIDRs = [''10.0.0.0/16''], sp_ServiceCIDRs = []\<rparr>,
       mp_Status = st\<rparr>] = Ret [\<lparr>re_Real = ''10.0.0.0/16'', re_Virtual = ''172.31.0.0/16''\<rparr>]"
proof -
  have "excludeDangerous (snd (Partition [''10.0.0.0/16''] [''10.0.0.0/16''])) = [''10.0.0.0/16'']"
    by (simp add: excludeDangerous_def Partition_def IsDangerousCIDR_def go_eval)
  then show ?thesis
    by (simp add: buildEntries_def remap_peer_def AllCIDRs_def PlanRemap_example add_local_def remap_claim_def Let_def)
qed

theorem buildEntries_unambiguous_witness:
  "\<exists>cfg peers entries. buildEntries cfg peers = Ret entries \<and> entries \<noteq> [] \<and> distinct entries \<and> inj_on re_Virtual (set entries) \<and>
     (\<forall>e\<in>set entries. VirtualCIDR (pc_RemapPool cfg) (pc_ClusterID cfg) (re_Real e) = Ret (re_Virtual e))"
  using buildEntries_unambiguous [OF eg_buildEntries] eg_buildEntries by blast

section \<open>What the policy reconciler enforces\<close>

text \<open>The ranges a cluster ID stands for: those of all peers with that ID.\<close>

definition ranges_of :: "MeshPeer list \<Rightarrow> string \<Rightarrow> string list" where
  "ranges_of peers cid = (if cid = '''' then [] else concat (map (\<lambda>p. AllCIDRs (mp_Spec p)) (filter (\<lambda>p. sp_ClusterID (mp_Spec p) = cid) peers)))"

lemma cluster_cidrs_ranges: "cluster_cidrs peers (\<lambda>_. []) = ranges_of peers"
proof -
  have "cluster_cidrs peers m = (\<lambda>cid. m cid @ ranges_of peers cid)" for m
    by (induction peers m rule: cluster_cidrs.induct) (auto simp: ranges_of_def fun_eq_iff)
  then show ?thesis by simp
qed

lemma keeps_plane_patchAll: "keeps ag_plane (patchAll patch items phase msg)"
  unfolding patchAll_def by (intro keeps_for_each) (auto intro!: keeps_intros keeps_call simp: lift_call_def split: prod.splits)

lemma patchAll_Inr: "\<exists>m'. outcome (patchAll patch items phase msg) m = (Inr (), m')"
  unfolding patchAll_def by (induction items arbitrary: m) (auto simp: run_simps split: prod.splits)

lemma policy_Reconcile_outcome:
  assumes "listPolicies (ag_api m) = (Inr policies, a1)" "listPeers a1 = (Inr peers, a2)"
    and "outcome (policy_Reconcile listPolicies listPeers patch sync) m = (r, m')"
  defines "rs \<equiv> BuildFirewall (toPolicies policies) (ranges_of peers)"
  shows "\<exists>x d. sync rs (ag_plane m) = (x, d) \<and> ag_plane m' = d \<and> (r = Inr () \<longleftrightarrow> x = Inr ())"
proof -
  let ?m2 = "m\<lparr>ag_api := a2\<rparr>"
  obtain x d where s: "sync rs (ag_plane m) = (x, d)" by fastforce
  let ?m3 = "?m2\<lparr>ag_plane := d\<rparr>"
  obtain q where run: "outcome (seq (on_error (call (at_plane (sync rs)))
              (\<lambda>err. seq (patchAll patch policies PolicyError (''programming firewall: '' @ err)) (failing (''syncing mesh firewall: '' @ err))))
         (patchAll patch policies PolicyReady q)) ?m2 = (r, m')"
    using assms(1-3) by (auto simp: policy_Reconcile_def outcome_bind outcome_errorf outcome_at_api Let_def cluster_cidrs_ranges rs_def)
  have patched: "\<exists>m4. outcome (patchAll patch policies phase msg) ?m3 = (Inr (), m4) \<and> ag_plane m4 = d" for phase msg
    using patchAll_Inr [of patch policies phase msg ?m3] keepsD [OF keeps_plane_patchAll] by fastforce
  show ?thesis
  proof (cases x)
    case (Inl err)
    obtain m4 where "outcome (patchAll patch policies PolicyError (''programming firewall: '' @ err)) ?m3 = (Inr (), m4)" "ag_plane m4 = d"
      using patched by blast
    then show ?thesis using run s Inl by (simp add: outcome_seq outcome_on_error outcome_at_plane outcome_failing) blast
  next
    case (Inr u)
    obtain m4 where "outcome (patchAll patch policies PolicyReady q) ?m3 = (Inr (), m4)" "ag_plane m4 = d"
      using patched by blast
    then show ?thesis using run s Inr by (auto simp: outcome_seq outcome_on_error outcome_at_plane)
  qed
qed

text \<open>C7. The policy reconciler enforces the policies of the moment. With the policies and
  peers it lists, and cluster IDs standing for all ranges of the peers with that ID, a pass
  that reports success leaves a mesh chain that gives every packet the verdict of the
  policies, reached from both hooks with the guard lifted; a pass that fails leaves the old
  chain, or drops all mesh traffic, or enforces the policies already; and another pass can
  always follow.\<close>

theorem policy_Reconcile_enforces:
  assumes "iptables_handle ipt tables" "fw_inv wgIface (tables (ag_plane m))"
    and "listPolicies (ag_api m) = (Inr policies, a1)" "listPeers a1 = (Inr peers, a2)"
    and "outcome (policy_Reconcile listPolicies listPeers patch (\<lambda>rs. outcome (SyncFirewall ipt wgIface rs))) m = (r, m')"
  defines "T \<equiv> tables (ag_plane m')"
  shows "fw_inv wgIface T \<and>
    (r = Inr () \<longrightarrow> (\<forall>p. enter T FWChain p = policy_verdict (toPolicies policies) (ranges_of peers) p) \<and>
       (\<forall>h\<in>set fw_hookChains. hooked wgIface T h \<and> guard_off wgIface T h)) \<and>
    (r \<noteq> Inr () \<longrightarrow> same_chain (tables (ag_plane m) TableFilter FWChain) T \<or> drops_mesh wgIface T \<or>
       (\<forall>p. enter T FWChain p = policy_verdict (toPolicies policies) (ranges_of peers) p))"
proof -
  let ?rs = "BuildFirewall (toPolicies policies) (ranges_of peers)"
  obtain x d where s: "outcome (SyncFirewall ipt wgIface ?rs) (ag_plane m) = (x, d)" "ag_plane m' = d" "r = Inr () \<longleftrightarrow> x = Inr ()"
    using policy_Reconcile_outcome [OF assms(3-5)] by blast
  then obtain l where "SyncFirewall ipt wgIface ?rs (ag_plane m) = (x, d, l)" by (auto simp: outcome_def split: prod.splits)
  from SyncFirewall_safety [OF assms(1,2) this] s(2,3) show ?thesis
    unfolding T_def by (auto simp: enter_def BuildFirewall_verdict)
qed

theorem policy_Reconcile_enforces_witness:
  "\<exists>r m'. outcome (policy_Reconcile (\<lambda>a. (Inr [\<lparr>mnp_Name = ''deny'', mnp_Generation = 1, mnp_Spec = \<lparr>mn_Destinations = [], mn_Ingress = []\<rparr>,
        mnp_Status = \<lparr>mt_Phase = PolicyUnset, mt_Message = '''', mt_ObservedGeneration = 0\<rparr>\<rparr>], a)) (\<lambda>a. (Inr [], a)) (\<lambda>p a. (Inr (), a))
        (\<lambda>rs. outcome (SyncFirewall kernel_iptables ''wg0'' rs))) \<lparr>ag_api = (), ag_plane = fw_host\<rparr> = (r, m') \<and>
     fw_inv ''wg0'' (k_tables (ag_plane m'))"
proof -
  let ?run = "outcome (policy_Reconcile (\<lambda>a. (Inr [\<lparr>mnp_Name = ''deny'', mnp_Generation = 1, mnp_Spec = \<lparr>mn_Destinations = [], mn_Ingress = []\<rparr>,
        mnp_Status = \<lparr>mt_Phase = PolicyUnset, mt_Message = '''', mt_ObservedGeneration = 0\<rparr>\<rparr>], a)) (\<lambda>a. (Inr [], a)) (\<lambda>p a. (Inr (), a))
        (\<lambda>rs. outcome (SyncFirewall kernel_iptables ''wg0'' rs))) \<lparr>ag_api = (), ag_plane = fw_host\<rparr>"
  obtain r m' where run: "?run = (r, m')" by fastforce
  have "fw_inv ''wg0'' (k_tables (ag_plane \<lparr>ag_api = (), ag_plane = fw_host\<rparr>))" using fw_host_inv by simp
  from policy_Reconcile_enforces [OF kern.iptables_handle_axioms this refl refl run] run show ?thesis by blast
qed

section \<open>What the exemption and the gateway cover\<close>

lemma routedRemoteCIDRs_set:
  "set (routedRemoteCIDRs ls peers) = {c. may_route ls c \<and> (\<exists>p\<in>set peers. sp_PublicKey (mp_Spec p) \<noteq> '''' \<and> c \<in> set (AllCIDRs (mp_Spec p)))}"
  by (auto simp: routedRemoteCIDRs_def Partition_conv)

lemma may_route_not_empty: "\<not> may_route ls ''''"
  by (simp add: may_route_def parse_net_def ParseCIDR_def cut_def)

text \<open>The gateway serves the local ranges and exactly what the exemption keeps unmasqueraded.\<close>

lemma reachableMesh_set: "set (reachableMesh ls peers) = (set ls - {''''}) \<union> set (routedRemoteCIDRs ls peers)"
  using may_route_not_empty by (auto simp: reachableMesh_def routedRemoteCIDRs_set Partition_conv)

text \<open>The exempted destinations are the ranges that the peer reconciler routes as they are.\<close>

lemma routed_plainly:
  assumes "route_decision cfg (mp_Spec p) = Ret (cs, phase, message)" "p \<in> set peers" "c \<in> set cs" "may_route (pc_LocalCIDRs cfg) c"
    and "c \<in> set (AllCIDRs (mp_Spec p))"
  shows "c \<in> set (routedRemoteCIDRs (pc_LocalCIDRs cfg) peers)"
  using assms route_decision_key [OF assms(1)] by (auto simp: routedRemoteCIDRs_set)

end
