(* ===== verification/Service_Controllers.thy ===== *)
theory Service_Controllers
  imports Mesh_Controllers Dns_Alloc
begin

text \<open>
  Service discovery at run time. \<^verbatim>\<open>serviceexport_controller.go\<close> publishes the contribution of a
  local service as an \<^verbatim>\<open>EndpointExport\<close>; \<^verbatim>\<open>serviceimport_controller.go\<close> builds the
  \<^verbatim>\<open>ServiceImport\<close> and the mirrored slices of a service from all contributions;
  \<^verbatim>\<open>servicenat_controller.go\<close> derives the DNAT services from imports and contributions; and
  \<^verbatim>\<open>pkg/dnsserver\<close> answers queries of the \<^verbatim>\<open>clusterset.local\<close> zone from the same objects.
\<close>

section \<open>Objects\<close>

record EndpointExportSpec =
  ex_ClusterID :: string
  ex_ServiceNamespace :: string
  ex_ServiceName :: string
  ex_Type :: ServiceImportType
  ex_ExportedAtUnix :: int
  ex_Ports :: "ServicePort list"
  ex_IPs :: "string list"

record EndpointExport =
  exo_Namespace :: string
  exo_Name :: string
  exo_Spec :: EndpointExportSpec

record ServiceImport =
  si_Namespace :: string
  si_Name :: string
  si_Type :: ServiceImportType
  si_Ports :: "ServicePort list"
  si_IPs :: "string list"
  si_Clusters :: "string list"

text \<open>The operations of the client, with \<^verbatim>\<open>None\<close> and \<^verbatim>\<open>False\<close> for a not-found error;
  \<^verbatim>\<open>sv_ApplyImport\<close> and \<^verbatim>\<open>sv_ApplySlice\<close> are the library's \<^verbatim>\<open>CreateOrUpdate\<close>, which reads the
  object or starts from an empty one, runs the given function on it and writes it back.\<close>

record 'a service_client =
  sv_ListExports :: "'a \<Rightarrow> EndpointExport list result \<times> 'a"
  sv_ListImports :: "'a \<Rightarrow> ServiceImport list result \<times> 'a"
  sv_ListPeers :: "'a \<Rightarrow> MeshPeer list result \<times> 'a"
  sv_GetImport :: "ServiceKey \<Rightarrow> 'a \<Rightarrow> ServiceImport option result \<times> 'a"
  sv_ApplyImport :: "ServiceKey \<Rightarrow> (ServiceImport \<Rightarrow> ServiceImport) \<Rightarrow> 'a \<Rightarrow> ServiceImport result \<times> 'a"
  sv_PatchImportStatus :: "ServiceImport \<Rightarrow> 'a \<Rightarrow> unit result \<times> 'a"
  sv_DeleteImport :: "ServiceKey \<Rightarrow> 'a \<Rightarrow> bool result \<times> 'a"
  sv_ListSlices :: "string \<Rightarrow> (string \<times> string) list \<Rightarrow> 'a \<Rightarrow> EndpointSlice list result \<times> 'a"
  sv_ApplySlice :: "string \<times> string \<Rightarrow> (EndpointSlice \<Rightarrow> EndpointSlice) \<Rightarrow> 'a \<Rightarrow> unit result \<times> 'a"
  sv_DeleteSlice :: "string \<times> string \<Rightarrow> 'a \<Rightarrow> bool result \<times> 'a"

section \<open>Imports\<close>

definition DefaultClusterSetCIDR :: string where "DefaultClusterSetCIDR = ''241.0.0.0/8''"

record import_config =
  ic_ClusterSetCIDR :: string
  ic_ClusterSetCIDR6 :: string

definition import_cidr :: "import_config \<Rightarrow> string" where
  "import_cidr cfg = (if ic_ClusterSetCIDR cfg = '''' then DefaultClusterSetCIDR else ic_ClusterSetCIDR cfg)"

definition endpointExportToExported :: "EndpointExport \<Rightarrow> ExportedService" where
  "endpointExportToExported e = \<lparr>es_Namespace = ex_ServiceNamespace (exo_Spec e), es_Name = ex_ServiceName (exo_Spec e),
     es_Endpoint = \<lparr>ee_Cluster = ex_ClusterID (exo_Spec e), ee_Type = ex_Type (exo_Spec e), ee_Ports = ex_Ports (exo_Spec e),
                    ee_IPs = ex_IPs (exo_Spec e), ee_ExportTime = ex_ExportedAtUnix (exo_Spec e)\<rparr>\<rparr>"

text \<open>The key set of a Go map is enumerated over \<^verbatim>\<open>keys\<close>, all keys of the map; \<^verbatim>\<open>sortedKeySet\<close>
  makes the order of the enumeration immaterial.\<close>

definition keysWithIPv6Backends :: "(ServiceKey \<Rightarrow> ExportedEndpoint list) \<Rightarrow> ServiceKey list \<Rightarrow> ServiceKey list" where
  "keysWithIPv6Backends grouped keys =
     filter (\<lambda>k. list_ex (\<lambda>ep. list_ex (\<lambda>ip. CHR '':'' \<in> set ip) (ee_IPs ep)) (grouped k)) keys"

definition sortedKeySet :: "ServiceKey list \<Rightarrow> ServiceKey list" where
  "sortedKeySet m = SortServiceKeys m"

definition vip_of :: "(ServiceKey \<rightharpoonup> string) \<Rightarrow> ServiceKey \<Rightarrow> string list" where
  "vip_of m key = (case m key of Some ip \<Rightarrow> if ip \<noteq> '''' then [ip] else [] | None \<Rightarrow> [])"

definition allocateVIPs ::
  "import_config \<Rightarrow> ServiceKey \<Rightarrow> ImportPlan \<Rightarrow> ServiceKey list \<Rightarrow> (ServiceKey \<Rightarrow> ExportedEndpoint list) \<Rightarrow> string list result" where
  "allocateVIPs cfg key plan keys grouped =
     (if ip_Type plan \<noteq> ClusterSetIP then Inr []
      else case AllocateClusterSetIPs (import_cidr cfg) keys of
        Inl e \<Rightarrow> Inl (''allocating IPv4 ClusterSetIP: '' @ e)
      | Inr v4 \<Rightarrow>
          if ic_ClusterSetCIDR6 cfg = '''' then Inr (vip_of v4 key)
          else let v6Keys = keysWithIPv6Backends grouped keys in
            if key \<notin> set v6Keys then Inr (vip_of v4 key)
            else case AllocateClusterSetIPs (ic_ClusterSetCIDR6 cfg) (sortedKeySet v6Keys) of
              Inl e \<Rightarrow> Inl (''allocating IPv6 ClusterSetIP: '' @ e)
            | Inr v6 \<Rightarrow> Inr (vip_of v4 key @ vip_of v6 key))"

definition of_result :: "'x result \<Rightarrow> ('s, 'x) run" where
  "of_result x = (case x of Inl e \<Rightarrow> failing e | Inr a \<Rightarrow> ret a)"

lemma outcome_of_result [run_simps]: "outcome (of_result x) s = (x, s)"
  by (simp add: of_result_def run_simps split: sum.splits)

definition applyServiceImport ::
  "'a service_client \<Rightarrow> ServiceKey \<Rightarrow> ImportPlan \<Rightarrow> string list \<Rightarrow> ('a, unit) run" where
  "applyServiceImport cl key plan clusterSetIPs =
     bind_run (errorf (''applying ServiceImport '' @ ServiceKey_String key)
       (call (sv_ApplyImport cl key (\<lambda>si. si\<lparr>si_Type := ip_Type plan, si_Ports := ip_Ports plan,
          si_IPs := (if ip_Type plan = ClusterSetIP \<and> clusterSetIPs \<noteq> [] then clusterSetIPs else [])\<rparr>)))) (\<lambda>si.
       if si_Clusters si = ip_Clusters plan then ret ()
       else errorf (''updating ServiceImport '' @ ServiceKey_String key @ '' status'')
         (call (sv_PatchImportStatus cl (si\<lparr>si_Clusters := ip_Clusters plan\<rparr>))))"

definition deleteServiceImport :: "'a service_client \<Rightarrow> ServiceKey \<Rightarrow> ('a, unit) run" where
  "deleteServiceImport cl key =
     bind_run (errorf (''getting ServiceImport '' @ ServiceKey_String key @ '' for deletion'') (call (sv_GetImport cl key))) (\<lambda>found.
       case found of None \<Rightarrow> ret ()
       | Some _ \<Rightarrow> bind_run (errorf (''deleting ServiceImport '' @ ServiceKey_String key) (call (sv_DeleteImport cl key))) (\<lambda>_. ret ()))"

definition applyMirrorSlice :: "'a service_client \<Rightarrow> EndpointSlice \<Rightarrow> ('a, unit) run" where
  "applyMirrorSlice cl wanted = errorf (''applying mirrored EndpointSlice '' @ sl_Namespace wanted @ ''/'' @ sl_Name wanted)
     (call (sv_ApplySlice cl (sl_Namespace wanted, sl_Name wanted) (\<lambda>slice. slice\<lparr>sl_Labels := sl_Labels wanted,
        sl_AddressType := sl_AddressType wanted, sl_Endpoints := sl_Endpoints wanted, sl_Ports := sl_Ports wanted\<rparr>)))"

definition mirror_selector :: "ServiceKey \<Rightarrow> (string \<times> string) list" where
  "mirror_selector key = [(LabelServiceName, sk_Name key), (LabelManagedBy, MirrorManagedBy)]"

definition prune_slice :: "'a service_client \<Rightarrow> string set \<Rightarrow> EndpointSlice \<Rightarrow> ('a, unit) run" where
  "prune_slice cl keep sl = (if sl_Name sl \<in> keep then ret ()
     else bind_run (errorf (''pruning mirrored EndpointSlice '' @ sl_Namespace sl @ ''/'' @ sl_Name sl)
       (call (sv_DeleteSlice cl (sl_Namespace sl, sl_Name sl)))) (\<lambda>_. ret ()))"

definition reconcileMirrorSlices :: "'a service_client \<Rightarrow> ServiceKey \<Rightarrow> ExportedEndpoint list \<Rightarrow> ('a, unit) run" where
  "reconcileMirrorSlices cl key endpoints =
     (let desired = (if endpoints \<noteq> [] then PlanEndpointSlices (sk_Name key) (sk_Namespace key) endpoints else []) in
      bind_run (errorf (''listing mirrored EndpointSlices for '' @ ServiceKey_String key)
          (call (sv_ListSlices cl (sk_Namespace key) (mirror_selector key)))) (\<lambda>existing.
        seq (for_each (applyMirrorSlice cl) desired)
          (for_each (prune_slice cl (sl_Name ` set desired)) existing)))"

definition import_Reconcile :: "'a service_client \<Rightarrow> import_config \<Rightarrow> ServiceKey \<Rightarrow> ('a, unit) run" where
  "import_Reconcile cl cfg key =
     bind_run (errorf ''listing EndpointExports'' (call (sv_ListExports cl))) (\<lambda>items.
       case GroupExports (map endpointExportToExported items) of (grouped, keys) \<Rightarrow>
         let endpoints = grouped key in
         if endpoints = [] then seq (reconcileMirrorSlices cl key []) (deleteServiceImport cl key)
         else let plan = PlanServiceImport endpoints in
           bind_run (of_result (allocateVIPs cfg key plan keys grouped)) (\<lambda>vips.
             seq (applyServiceImport cl key plan vips)
               (reconcileMirrorSlices cl key (if ip_Type plan = Headless then endpoints else []))))"

section \<open>Exports\<close>

definition serviceExportFinalizer :: string where
  "serviceExportFinalizer = ''networking.datawerx.io/serviceexport-cleanup''"

definition reasonExported :: string where "reasonExported = ''Exported''"
definition reasonServiceNotFound :: string where "reasonServiceNotFound = ''ServiceNotFound''"

record Condition =
  cd_Status :: bool
  cd_Reason :: string
  cd_Message :: string
  cd_ObservedGeneration :: int

record ServiceExport =
  sx_Namespace :: string
  sx_Name :: string
  sx_Generation :: int
  sx_Deleting :: bool
  sx_Finalizers :: "string list"
  sx_CreationUnix :: int
  sx_Valid :: "Condition option"

record 'a export_client =
  xc_Get :: "ServiceKey \<Rightarrow> 'a \<Rightarrow> ServiceExport option result \<times> 'a"
  xc_Update :: "ServiceExport \<Rightarrow> 'a \<Rightarrow> unit result \<times> 'a"
  xc_PatchStatus :: "ServiceExport \<Rightarrow> 'a \<Rightarrow> unit result \<times> 'a"
  xc_GetService :: "ServiceKey \<Rightarrow> 'a \<Rightarrow> CoreService option result \<times> 'a"
  xc_ListEndpoints :: "ServiceKey \<Rightarrow> 'a \<Rightarrow> Endpoint list list result \<times> 'a"
  xc_Apply :: "string \<times> string \<Rightarrow> EndpointExportSpec \<Rightarrow> 'a \<Rightarrow> unit result \<times> 'a"
  xc_Delete :: "string \<times> string \<Rightarrow> 'a \<Rightarrow> bool result \<times> 'a"

definition endpointExportName :: "string \<Rightarrow> string \<Rightarrow> string" where
  "endpointExportName clusterID serviceName = SanitizeName clusterID @ ''-'' @ serviceName"

definition withdrawEndpointExport :: "'a export_client \<Rightarrow> string \<Rightarrow> string \<Rightarrow> string \<Rightarrow> ('a, unit) run" where
  "withdrawEndpointExport cl clusterID namespace serviceName =
     bind_run (errorf (''withdrawing EndpointExport for '' @ namespace @ ''/'' @ serviceName)
       (call (xc_Delete cl (namespace, endpointExportName clusterID serviceName)))) (\<lambda>_. ret ())"

definition publishEndpointExport :: "'a export_client \<Rightarrow> string \<Rightarrow> ServiceKey \<Rightarrow> ExportedEndpoint \<Rightarrow> int \<Rightarrow> ('a, unit) run" where
  "publishEndpointExport cl clusterID key endpoint exportedAtUnix =
     errorf (''publishing EndpointExport for '' @ sk_Namespace key @ ''/'' @ sk_Name key)
       (call (xc_Apply cl (sk_Namespace key, endpointExportName clusterID (sk_Name key))
         \<lparr>ex_ClusterID = clusterID, ex_ServiceNamespace = sk_Namespace key, ex_ServiceName = sk_Name key, ex_Type = ee_Type endpoint,
          ex_ExportedAtUnix = exportedAtUnix, ex_Ports = ee_Ports endpoint, ex_IPs = ee_IPs endpoint\<rparr>))"

definition headlessEndpointIPs :: "'a export_client \<Rightarrow> ServiceKey \<Rightarrow> ('a, string list) run" where
  "headlessEndpointIPs cl key = bind_run (errorf (''listing EndpointSlices for '' @ sk_Namespace key @ ''/'' @ sk_Name key)
     (call (xc_ListEndpoints cl key))) (\<lambda>slices. ret (ReadyEndpointIPs slices))"

definition setValidCondition :: "'a export_client \<Rightarrow> ServiceExport \<Rightarrow> bool \<Rightarrow> string \<Rightarrow> string \<Rightarrow> ('a, unit) run" where
  "setValidCondition cl export ok reason message =
     (let desired = \<lparr>cd_Status = ok, cd_Reason = reason, cd_Message = message, cd_ObservedGeneration = sx_Generation export\<rparr> in
      if sx_Valid export = Some desired then ret ()
      else errorf ''updating ServiceExport status'' (call (xc_PatchStatus cl (export\<lparr>sx_Valid := Some desired\<rparr>))))"

definition reconcileExport :: "'a export_client \<Rightarrow> string \<Rightarrow> ServiceKey \<Rightarrow> ServiceExport \<Rightarrow> ('a, unit) run" where
  "reconcileExport cl clusterID key export =
     bind_run (errorf ''fetching referenced Service'' (call (xc_GetService cl key))) (\<lambda>found. case found of
       None \<Rightarrow> seq (withdrawEndpointExport cl clusterID (sx_Namespace export) (sx_Name export))
         (setValidCondition cl export False reasonServiceNotFound ''no Service with this name exists in the namespace'')
     | Some svc \<Rightarrow>
         let base = BuildExportedEndpoint clusterID svc in
         bind_run (if ServiceIsHeadless svc then bind_run (headlessEndpointIPs cl key) (\<lambda>ips. ret (base\<lparr>ee_IPs := ips\<rparr>)) else ret base) (\<lambda>endpoint.
           seq (publishEndpointExport cl clusterID key endpoint (sx_CreationUnix export))
             (setValidCondition cl export True reasonExported
               (''exported as '' @ ee_Type endpoint @ '' with '' @ itoa (length (ee_Ports endpoint)) @ '' port(s)''))))"

definition reconcileDeletion :: "'a export_client \<Rightarrow> string \<Rightarrow> ServiceExport \<Rightarrow> ('a, unit) run" where
  "reconcileDeletion cl clusterID export =
     (if serviceExportFinalizer \<in> set (sx_Finalizers export)
      then seq (withdrawEndpointExport cl clusterID (sx_Namespace export) (sx_Name export))
        (errorf ''removing finalizer'' (call (xc_Update cl (export\<lparr>sx_Finalizers :=
           filter (\<lambda>f. f \<noteq> serviceExportFinalizer) (sx_Finalizers export)\<rparr>))))
      else ret ())"

definition export_Reconcile :: "'a export_client \<Rightarrow> string \<Rightarrow> ServiceKey \<Rightarrow> ('a, unit) run" where
  "export_Reconcile cl clusterID key =
     bind_run (errorf ''fetching ServiceExport'' (call (xc_Get cl key))) (\<lambda>found. case found of
       None \<Rightarrow> ret ()
     | Some export \<Rightarrow>
         if sx_Deleting export then reconcileDeletion cl clusterID export
         else if serviceExportFinalizer \<notin> set (sx_Finalizers export)
         then errorf ''adding finalizer'' (call (xc_Update cl (export\<lparr>sx_Finalizers := sx_Finalizers export @ [serviceExportFinalizer]\<rparr>)))
         else reconcileExport cl clusterID key export)"

section \<open>DNAT services\<close>

definition DefaultFailoverStaleSeconds :: int where "DefaultFailoverStaleSeconds = 300"
definition failoverPollInterval :: int where "failoverPollInterval = 30 * 1000000000"

definition clusterDown :: "MeshPeerStatus \<Rightarrow> int \<Rightarrow> int \<Rightarrow> bool" where
  "clusterDown st now staleAfter =
     (if ms_Phase st = Error then True
      else if now > 0 \<and> ms_LastProbeAttempt st > 0 \<and> now - ms_LastProbeAttempt st \<le> staleAfter
      then \<not> (ms_LastProbeTime st > 0 \<and> now - ms_LastProbeTime st \<le> staleAfter)
      else if ms_LastHandshakeTime st > 0 then now - ms_LastHandshakeTime st > staleAfter
      else False)"

definition DownClusters :: "MeshPeer list \<Rightarrow> int \<Rightarrow> int \<Rightarrow> string \<Rightarrow> bool" where
  "DownClusters peers now staleAfter cid \<longleftrightarrow>
     list_ex (\<lambda>p. sp_ClusterID (mp_Spec p) \<noteq> '''' \<and> sp_ClusterID (mp_Spec p) = cid \<and> clusterDown (mp_Status p) now staleAfter) peers"

definition dnat_backends :: "EndpointExport list \<Rightarrow> (string \<Rightarrow> bool) \<Rightarrow> string \<Rightarrow> string list" where
  "dnat_backends exports down key = concat (map (\<lambda>e. ex_IPs (exo_Spec e))
     (filter (\<lambda>e. ex_Type (exo_Spec e) = ClusterSetIP \<and> \<not> down (ex_ClusterID (exo_Spec e)) \<and>
        ex_ServiceNamespace (exo_Spec e) @ ''/'' @ ex_ServiceName (exo_Spec e) = key) exports))"

fun BuildServiceDNAT :: "ServiceImport list \<Rightarrow> EndpointExport list \<Rightarrow> (string \<Rightarrow> bool) \<Rightarrow> ServiceDNAT list" where
  "BuildServiceDNAT [] exports down = []"
| "BuildServiceDNAT (si # sis) exports down =
     (let b = dnat_backends exports down (si_Namespace si @ ''/'' @ si_Name si) in
      if si_Type si \<noteq> ClusterSetIP \<or> si_IPs si = [] \<or> b = [] then BuildServiceDNAT sis exports down
      else \<lparr>sd_Namespace = si_Namespace si, sd_Name = si_Name si, sd_VIP = hd (si_IPs si),
            sd_Ports = map (\<lambda>p. \<lparr>pd_Protocol = to_lower (sp_Protocol p), pd_Port = sp_Port p\<rparr>) (si_Ports si),
            sd_Backends = b\<rparr> # BuildServiceDNAT sis exports down)"

definition servicenat_Reconcile ::
  "'a service_client \<Rightarrow> (ServiceDNAT list \<Rightarrow> 'd \<Rightarrow> unit result \<times> 'd) \<Rightarrow> int \<Rightarrow> int \<Rightarrow> (('a, 'd) agent, int) run" where
  "servicenat_Reconcile cl sync failoverStaleSeconds now =
     bind_run (errorf ''listing ServiceImports'' (call (at_api (sv_ListImports cl)))) (\<lambda>imports.
     bind_run (errorf ''listing EndpointExports'' (call (at_api (sv_ListExports cl)))) (\<lambda>exports.
     bind_run (if failoverStaleSeconds > 0
               then bind_run (errorf ''listing MeshPeers'' (call (at_api (sv_ListPeers cl))))
                      (\<lambda>peers. ret (DownClusters peers now failoverStaleSeconds))
               else ret (\<lambda>_. False)) (\<lambda>down.
       seq (errorf ''syncing ClusterSetIP NAT'' (call (at_plane (sync (BuildServiceDNAT imports exports down)))))
         (ret (if failoverStaleSeconds > 0 then failoverPollInterval else 0)))))"

section \<open>DNS answers\<close>

datatype rcode = NoError | ServFail | NXDomain | Refused

datatype qtype = TypeA | TypeAAAA | TypeOther nat

record question =
  q_Name :: string
  q_Qtype :: qtype

datatype rdata = RdataA "32 word" | RdataAAAA "128 word"

record rr =
  rr_Name :: string
  rr_TTL :: nat
  rr_Data :: rdata

record reply =
  re_Rcode :: rcode
  re_Authoritative :: bool
  re_Answer :: "rr list"

record ResolvedService =
  rv_Type :: ServiceImportType
  rv_IPs :: "string list"

definition defaultTTL :: nat where "defaultTTL = 5"

definition headlessIPs :: "'a service_client \<Rightarrow> string \<Rightarrow> string \<Rightarrow> ('a, string list) run" where
  "headlessIPs cl namespace name = bind_run (call (sv_ListExports cl)) (\<lambda>items.
     ret (sorted_set (filter (\<lambda>ip. ip \<noteq> '''') (concat (map (\<lambda>e. ex_IPs (exo_Spec e))
       (filter (\<lambda>e. exo_Namespace e = namespace \<and> ex_ServiceNamespace (exo_Spec e) = namespace \<and> ex_ServiceName (exo_Spec e) = name) items))))))"

definition LookupClusterSet :: "'a service_client \<Rightarrow> string \<Rightarrow> string \<Rightarrow> ('a, ResolvedService option) run" where
  "LookupClusterSet cl namespace name =
     bind_run (call (sv_GetImport cl \<lparr>sk_Namespace = namespace, sk_Name = name\<rparr>)) (\<lambda>found. case found of
       None \<Rightarrow> ret None
     | Some si \<Rightarrow>
         if si_Type si = Headless
         then bind_run (headlessIPs cl namespace name) (\<lambda>ips. ret (Some \<lparr>rv_Type = Headless, rv_IPs = ips\<rparr>))
         else ret (Some \<lparr>rv_Type = si_Type si, rv_IPs = si_IPs si\<rparr>))"

definition header_ttl :: "nat \<Rightarrow> nat" where
  "header_ttl ttl = (if ttl = 0 then defaultTTL else ttl)"

definition appendAnswers :: "nat \<Rightarrow> question \<Rightarrow> string list \<Rightarrow> rr list" where
  "appendAnswers ttl q ips = (case q_Qtype q of
      TypeA \<Rightarrow> concat (map (\<lambda>ip. case ParseIP ip of
          Some x \<Rightarrow> (case To4 x of Some v4 \<Rightarrow> [\<lparr>rr_Name = q_Name q, rr_TTL = header_ttl ttl, rr_Data = RdataA v4\<rparr>] | None \<Rightarrow> [])
        | None \<Rightarrow> []) ips)
    | TypeAAAA \<Rightarrow> concat (map (\<lambda>ip. case ParseIP ip of
          Some x \<Rightarrow> if To4 x = None then [\<lparr>rr_Name = q_Name q, rr_TTL = header_ttl ttl, rr_Data = RdataAAAA (To16 x)\<rparr>] else []
        | None \<Rightarrow> []) ips)
    | TypeOther _ \<Rightarrow> [])"

definition dns_reply :: "rcode \<Rightarrow> rr list \<Rightarrow> reply" where
  "dns_reply code answers = \<lparr>re_Rcode = code, re_Authoritative = True, re_Answer = answers\<rparr>"

definition buildReply :: "'a service_client \<Rightarrow> nat \<Rightarrow> question list \<Rightarrow> ('a, reply) run" where
  "buildReply cl ttl qs = (case qs of
      [q] \<Rightarrow>
        if \<not> InClusterSetZone (q_Name q) then ret (dns_reply Refused [])
        else (case ParseClusterSetName (q_Name q) of
            None \<Rightarrow> ret (dns_reply NXDomain [])
          | Some (name, ns) \<Rightarrow>
              on_error (bind_run (LookupClusterSet cl ns name) (\<lambda>found. ret (case found of
                  None \<Rightarrow> dns_reply NXDomain []
                | Some r \<Rightarrow> if rv_IPs r = [] then dns_reply NXDomain [] else dns_reply NoError (appendAnswers ttl q (rv_IPs r)))))
                (\<lambda>_. ret (dns_reply ServFail [])))
    | _ \<Rightarrow> ret (dns_reply Refused []))"

end
