(* ===== verification/Service_Discovery.thy ===== *)
theory Service_Discovery
  imports Service_Controllers
begin

text \<open>
  Service discovery as a whole: the documented behaviour of the API objects as a locale,
  the import reconciler of \<^verbatim>\<open>serviceimport_controller.go\<close> against the import and the mirrored
  slices that the exports determine, and the answers of the DNS server
  (\<^verbatim>\<open>pkg/dnsserver\<close>) on the reconciled objects. An in-memory store with failing calls is the
  instance of the locale.
\<close>

section \<open>What the objects promise\<close>

record svc_view =
  vw_exports :: "EndpointExport list"
  vw_imports :: "ServiceKey \<rightharpoonup> ServiceImport"
  vw_slices :: "string \<times> string \<rightharpoonup> EndpointSlice"

definition key_of :: "ServiceImport \<Rightarrow> ServiceKey" where
  "key_of si = \<lparr>sk_Namespace = si_Namespace si, sk_Name = si_Name si\<rparr>"

definition new_import :: "ServiceKey \<Rightarrow> ServiceImport" where
  "new_import key = \<lparr>si_Namespace = sk_Namespace key, si_Name = sk_Name key, si_Type = '''', si_Ports = [], si_IPs = [], si_Clusters = []\<rparr>"

definition new_slice :: "string \<times> string \<Rightarrow> EndpointSlice" where
  "new_slice k = \<lparr>sl_Name = snd k, sl_Namespace = fst k, sl_Labels = [], sl_AddressType = AddressTypeIPv4, sl_Endpoints = [], sl_Ports = []\<rparr>"

definition matches_labels :: "(string \<times> string) list \<Rightarrow> EndpointSlice \<Rightarrow> bool" where
  "matches_labels sel sl \<longleftrightarrow> list_all (\<lambda>(l, v). map_of (sl_Labels sl) l = Some v) sel"

text \<open>The slices after a pass over the mirrored slices of a service.\<close>

definition mirrored :: "ServiceKey \<Rightarrow> EndpointSlice list \<Rightarrow> (string \<times> string \<rightharpoonup> EndpointSlice) \<Rightarrow> (string \<times> string \<rightharpoonup> EndpointSlice)" where
  "mirrored key ds m = (\<lambda>k. if fst k = sk_Namespace key \<and> snd k \<in> sl_Name ` set ds then fold (\<lambda>w m. m((sl_Namespace w, sl_Name w) \<mapsto> w)) ds Map.empty k
     else if fst k = sk_Namespace key \<and> (\<exists>sl. m k = Some sl \<and> matches_labels (mirror_selector key) sl) then None else m k)"

lemma fold_upd: "fold (\<lambda>w m. m(f w \<mapsto> w)) ds m k = (if k \<in> f ` set ds then fold (\<lambda>w m. m(f w \<mapsto> w)) ds Map.empty k else m k)"
proof (induction ds rule: rev_induct)
  case (snoc d ds)
  then show ?case by (cases "k = f d") (auto simp: fun_upd_def)
qed simp

lemma PlanEndpointSlices_namespace: "sl \<in> set (PlanEndpointSlices name ns eps) \<Longrightarrow> sl_Namespace sl = ns"
proof -
  have "sl \<in> set (mirror_chunks (\<lambda>addrs c. mirrorSlice name ns cluster fam addrs ps c) as j) \<Longrightarrow> sl_Namespace sl = ns" for cluster fam ps as j
    by (induction "\<lambda>addrs c. mirrorSlice name ns cluster fam addrs ps c" as j rule: mirror_chunks.induct)
      (subst (asm) (2) mirror_chunks.simps, auto simp: mirrorSlice_def split: if_splits)
  then show "sl \<in> set (PlanEndpointSlices name ns eps) \<Longrightarrow> sl_Namespace sl = ns" by (auto simp: PlanEndpointSlices_def)
qed

text \<open>The import that a set of contributions determines: \<^verbatim>\<open>None\<close> when no cluster exports the
  service, an error when its virtual address cannot be allocated; and its mirrored slices.\<close>

definition planned_import :: "ServiceKey \<Rightarrow> ImportPlan \<Rightarrow> string list \<Rightarrow> ServiceImport" where
  "planned_import key plan vips = \<lparr>si_Namespace = sk_Namespace key, si_Name = sk_Name key, si_Type = ip_Type plan, si_Ports = ip_Ports plan,
     si_IPs = (if ip_Type plan = ClusterSetIP then vips else []), si_Clusters = ip_Clusters plan\<rparr>"

definition import_of :: "import_config \<Rightarrow> EndpointExport list \<Rightarrow> ServiceKey \<Rightarrow> ServiceImport option result" where
  "import_of cfg items key = (case GroupExports (map endpointExportToExported items) of (grouped, keys) \<Rightarrow>
     if grouped key = [] then Inr None
     else let plan = PlanServiceImport (grouped key) in
       (case allocateVIPs cfg key plan keys grouped of
          Inl e \<Rightarrow> Inl e
        | Inr vips \<Rightarrow> Inr (Some (planned_import key plan vips))))"

definition slices_of :: "EndpointExport list \<Rightarrow> ServiceKey \<Rightarrow> EndpointSlice list" where
  "slices_of items key = (case GroupExports (map endpointExportToExported items) of (grouped, keys) \<Rightarrow>
     if grouped key \<noteq> [] \<and> ip_Type (PlanServiceImport (grouped key)) = Headless
     then PlanEndpointSlices (sk_Name key) (sk_Namespace key) (grouped key) else [])"

text \<open>The documented behaviour of the client on these objects: reads answer the stored
  objects, a write that fails changes nothing, an update keeps the status, and a status
  patch changes only the status.\<close>

locale service_store =
  fixes cl :: "'a service_client" and view :: "'a \<Rightarrow> svc_view"
  assumes ListExports_law: "query_law view (sv_ListExports cl) (\<lambda>xs V. mset xs = mset (vw_exports V))"
    and GetImport_law: "query_law view (sv_GetImport cl key) (\<lambda>found V. found = vw_imports V key)"
    and import_named: "vw_imports (view a) key = Some si \<Longrightarrow> key_of si = key"
    and slice_named: "vw_slices (view a) k = Some sl \<Longrightarrow> (sl_Namespace sl, sl_Name sl) = k"
    and ApplyImport_law: "(\<And>x. key_of (f x) = key_of x \<and> si_Clusters (f x) = si_Clusters x) \<Longrightarrow> sv_ApplyImport cl key f s = (r, s') \<Longrightarrow>
        (case r of Inl _ \<Rightarrow> view s' = view s
         | Inr si \<Rightarrow> si = f (case vw_imports (view s) key of None \<Rightarrow> new_import key | Some x \<Rightarrow> x) \<and>
             view s' = (view s)\<lparr>vw_imports := (vw_imports (view s))(key \<mapsto> si)\<rparr>)"
    and PatchImportStatus_law: "command_law view (sv_PatchImportStatus cl si) (\<lambda>V V'. \<exists>stored. vw_imports V (key_of si) = Some stored \<and>
        V' = V\<lparr>vw_imports := (vw_imports V)(key_of si \<mapsto> stored\<lparr>si_Clusters := si_Clusters si\<rparr>)\<rparr>)"
    and DeleteImport_law: "sv_DeleteImport cl key s = (b, s') \<Longrightarrow>
        view s' = (case b of Inl _ \<Rightarrow> view s | Inr _ \<Rightarrow> (view s)\<lparr>vw_imports := (vw_imports (view s))(key := None)\<rparr>)"
    and ListSlices_law: "query_law view (sv_ListSlices cl ns sel) (\<lambda>xs V. \<forall>k. (\<exists>sl\<in>set xs. (sl_Namespace sl, sl_Name sl) = k) \<longleftrightarrow>
        fst k = ns \<and> (\<exists>sl. vw_slices V k = Some sl \<and> matches_labels sel sl))"
    and ApplySlice_law: "(\<And>x. sl_Namespace (g x) = sl_Namespace x \<and> sl_Name (g x) = sl_Name x) \<Longrightarrow>
        command_law view (sv_ApplySlice cl k g) (\<lambda>V V'. V' = V\<lparr>vw_slices := (vw_slices V)(k \<mapsto>
          g (case vw_slices V k of None \<Rightarrow> new_slice k | Some x \<Rightarrow> x))\<rparr>)"
    and DeleteSlice_law: "sv_DeleteSlice cl k s = (b, s') \<Longrightarrow>
        view s' = (case b of Inl _ \<Rightarrow> view s | Inr _ \<Rightarrow> (view s)\<lparr>vw_slices := (vw_slices (view s))(k := None)\<rparr>)"
begin

lemma applyMirrorSlice_view:
  assumes "outcome (applyMirrorSlice cl w) s = (Inr u, s')"
  shows "view s' = (view s)\<lparr>vw_slices := (vw_slices (view s))((sl_Namespace w, sl_Name w) \<mapsto> w)\<rparr>"
proof -
  let ?g = "\<lambda>slice. slice\<lparr>sl_Labels := sl_Labels w, sl_AddressType := sl_AddressType w, sl_Endpoints := sl_Endpoints w, sl_Ports := sl_Ports w\<rparr>"
  let ?k = "(sl_Namespace w, sl_Name w)"
  have run: "sv_ApplySlice cl ?k ?g s = (Inr (), s')"
    using assms unfolding applyMirrorSlice_def outcome_errorf outcome_call by (simp split: prod.splits sum.splits)
  let ?x = "case vw_slices (view s) ?k of None \<Rightarrow> new_slice ?k | Some x \<Rightarrow> x"
  have "sl_Namespace ?x = sl_Namespace w \<and> sl_Name ?x = sl_Name w"
    by (cases "vw_slices (view s) ?k") (auto simp: new_slice_def dest: slice_named)
  then have "?g ?x = w" by (intro EndpointSlice.equality) simp_all
  then show ?thesis using command_lawD(2) [OF ApplySlice_law run] by simp
qed

lemma apply_all:
  assumes "outcome (for_each (applyMirrorSlice cl) ws) s = (Inr u, s')"
  shows "view s' = (view s)\<lparr>vw_slices := fold (\<lambda>w m. m((sl_Namespace w, sl_Name w) \<mapsto> w)) ws (vw_slices (view s))\<rparr>"
  using assms
proof (induction ws arbitrary: s)
  case (Cons w ws)
  obtain v t where one: "outcome (applyMirrorSlice cl w) s = (Inr v, t)" "outcome (for_each (applyMirrorSlice cl) ws) t = (Inr u, s')"
    using Cons.prems by (auto simp: outcome_seq split: prod.splits sum.splits)
  from Cons.IH [OF one(2)] applyMirrorSlice_view [OF one(1)] show ?case by simp
qed (simp add: outcome_ret)

lemma prune_all:
  assumes "outcome (for_each (prune_slice cl keep) sls) s = (Inr u, s')"
  shows "view s' = (view s)\<lparr>vw_slices := (\<lambda>k. if \<exists>sl\<in>set sls. (sl_Namespace sl, sl_Name sl) = k \<and> sl_Name sl \<notin> keep then None
     else vw_slices (view s) k)\<rparr>"
  using assms
proof (induction sls arbitrary: s)
  case (Cons sl sls)
  obtain v t where one: "outcome (prune_slice cl keep sl) s = (Inr v, t)" "outcome (for_each (prune_slice cl keep) sls) t = (Inr u, s')"
    using Cons.prems by (auto simp: outcome_seq split: prod.splits sum.splits)
  have t: "view t = (if sl_Name sl \<in> keep then view s else (view s)\<lparr>vw_slices := (vw_slices (view s))((sl_Namespace sl, sl_Name sl) := None)\<rparr>)"
  proof (cases "sl_Name sl \<in> keep")
    case False
    then obtain b where "sv_DeleteSlice cl (sl_Namespace sl, sl_Name sl) s = (Inr b, t)"
      using one(1) by (auto simp: prune_slice_def outcome_bind outcome_errorf outcome_call outcome_ret split: prod.splits sum.splits)
    from DeleteSlice_law [OF this] False show ?thesis by simp
  qed (use one(1) in \<open>auto simp: prune_slice_def outcome_ret\<close>)
  show ?case unfolding Cons.IH [OF one(2)] t by (rule svc_view.equality) (auto simp: fun_eq_iff)
qed (simp add: outcome_ret)

lemma reconcileMirrorSlices_view:
  assumes "outcome (reconcileMirrorSlices cl key eps) s = (Inr u, s')"
  shows "view s' = (view s)\<lparr>vw_slices := mirrored key
    (if eps \<noteq> [] then PlanEndpointSlices (sk_Name key) (sk_Namespace key) eps else []) (vw_slices (view s))\<rparr>"
proof -
  define ds where "ds = (if eps \<noteq> [] then PlanEndpointSlices (sk_Name key) (sk_Namespace key) eps else [])"
  have ns: "\<forall>d\<in>set ds. sl_Namespace d = sk_Namespace key" using PlanEndpointSlices_namespace by (auto simp: ds_def)
  obtain existing s1 where l: "sv_ListSlices cl (sk_Namespace key) (mirror_selector key) s = (Inr existing, s1)"
    and rest: "outcome (seq (for_each (applyMirrorSlice cl) ds) (for_each (prune_slice cl (sl_Name ` set ds)) existing)) s1 = (Inr u, s')"
    using assms by (auto simp: reconcileMirrorSlices_def ds_def Let_def outcome_bind outcome_errorf outcome_call prune_slice_def split: prod.splits sum.splits)
  note q = query_lawD [OF ListSlices_law l]
  obtain v s2 where a: "outcome (for_each (applyMirrorSlice cl) ds) s1 = (Inr v, s2)"
    and p: "outcome (for_each (prune_slice cl (sl_Name ` set ds)) existing) s2 = (Inr u, s')"
    using rest by (auto simp: outcome_seq split: prod.splits sum.splits)
  have ex: "(\<exists>sl\<in>set existing. (sl_Namespace sl, sl_Name sl) = k) \<longleftrightarrow>
      fst k = sk_Namespace key \<and> (\<exists>sl. vw_slices (view s) k = Some sl \<and> matches_labels (mirror_selector key) sl)" for k
    using q(2) [OF refl] by blast
  have eq: "(\<lambda>k. if \<exists>sl\<in>set existing. (sl_Namespace sl, sl_Name sl) = k \<and> sl_Name sl \<notin> sl_Name ` set ds then None
        else fold (\<lambda>w m. m((sl_Namespace w, sl_Name w) \<mapsto> w)) ds (vw_slices (view s)) k) = mirrored key ds (vw_slices (view s))"
  proof
      fix k
      have "k \<in> (\<lambda>w. (sl_Namespace w, sl_Name w)) ` set ds \<longleftrightarrow> fst k = sk_Namespace key \<and> snd k \<in> sl_Name ` set ds"
        using ns by (cases k) auto
      moreover have "(\<exists>sl\<in>set existing. (sl_Namespace sl, sl_Name sl) = k \<and> sl_Name sl \<notin> sl_Name ` set ds) \<longleftrightarrow>
          snd k \<notin> sl_Name ` set ds \<and> (\<exists>sl\<in>set existing. (sl_Namespace sl, sl_Name sl) = k)" by auto
      ultimately show "(if \<exists>sl\<in>set existing. (sl_Namespace sl, sl_Name sl) = k \<and> sl_Name sl \<notin> sl_Name ` set ds then None
        else fold (\<lambda>w m. m((sl_Namespace w, sl_Name w) \<mapsto> w)) ds (vw_slices (view s)) k) = mirrored key ds (vw_slices (view s)) k"
        unfolding mirrored_def ex by (subst fold_upd) auto
  qed
  have "vw_slices (view s') = mirrored key ds (vw_slices (view s))"
    unfolding eq [symmetric] prune_all [OF p] apply_all [OF a] q(1) by (simp cong: if_cong)
  moreover have "vw_exports (view s') = vw_exports (view s)" "vw_imports (view s') = vw_imports (view s)" "svc_view.more (view s') = svc_view.more (view s)"
    unfolding prune_all [OF p] apply_all [OF a] q(1) by simp_all
  ultimately show ?thesis unfolding ds_def by (intro svc_view.equality) simp_all
qed

lemma applyServiceImport_view:
  assumes "outcome (applyServiceImport cl key plan vips) s = (Inr u, s')"
  shows "view s' = (view s)\<lparr>vw_imports := (vw_imports (view s))(key \<mapsto> planned_import key plan vips)\<rparr>"
proof -
  let ?f = "\<lambda>si. si\<lparr>si_Type := ip_Type plan, si_Ports := ip_Ports plan,
      si_IPs := (if ip_Type plan = ClusterSetIP \<and> vips \<noteq> [] then vips else [])\<rparr>"
  obtain si s1 where a: "sv_ApplyImport cl key ?f s = (Inr si, s1)"
    and rest: "outcome (if si_Clusters si = ip_Clusters plan then ret ()
       else errorf (''updating ServiceImport '' @ ServiceKey_String key @ '' status'')
         (call (sv_PatchImportStatus cl (si\<lparr>si_Clusters := ip_Clusters plan\<rparr>)))) s1 = (Inr u, s')"
    using assms unfolding applyServiceImport_def outcome_bind outcome_errorf outcome_call by (simp split: prod.splits sum.splits)
  let ?old = "case vw_imports (view s) key of None \<Rightarrow> new_import key | Some x \<Rightarrow> x"
  have law: "si = ?f ?old" "view s1 = (view s)\<lparr>vw_imports := (vw_imports (view s))(key \<mapsto> si)\<rparr>"
    using ApplyImport_law [OF _ a] by (simp_all add: key_of_def)
  have old: "key_of ?old = key"
    by (cases "vw_imports (view s) key") (auto simp: new_import_def key_of_def dest: import_named)
  have k: "key_of si = key" using old law(1) by (simp add: key_of_def)
  have "si_Type si = ip_Type plan" "si_Ports si = ip_Ports plan" "si_IPs si = (if ip_Type plan = ClusterSetIP then vips else [])"
    unfolding law(1) by simp_all
  then have full: "planned_import key plan vips = si\<lparr>si_Clusters := ip_Clusters plan\<rparr>"
    unfolding k [symmetric] by (intro ServiceImport.equality) (simp_all add: planned_import_def key_of_def)
  show ?thesis
  proof (cases "si_Clusters si = ip_Clusters plan")
    case True
    then have "s' = s1" "si\<lparr>si_Clusters := ip_Clusters plan\<rparr> = si" using rest by (simp_all add: outcome_ret flip: True)
    then show ?thesis using law(2) full by simp
  next
    case False
    then have p: "sv_PatchImportStatus cl (si\<lparr>si_Clusters := ip_Clusters plan\<rparr>) s1 = (Inr (), s')"
      using rest by (simp add: outcome_errorf outcome_call split: prod.splits sum.splits)
    have "key_of (si\<lparr>si_Clusters := ip_Clusters plan\<rparr>) = key" using k by (simp add: key_of_def)
    then have "view s' = (view s1)\<lparr>vw_imports := (vw_imports (view s1))(key \<mapsto> si\<lparr>si_Clusters := ip_Clusters plan\<rparr>)\<rparr>"
      using command_lawD(2) [OF PatchImportStatus_law p] law(2) by auto
    then show ?thesis using law(2) full by simp
  qed
qed

lemma deleteServiceImport_view:
  assumes "outcome (deleteServiceImport cl key) s = (Inr u, s')"
  shows "view s' = (view s)\<lparr>vw_imports := (vw_imports (view s))(key := None)\<rparr>"
proof -
  obtain found s1 where g: "sv_GetImport cl key s = (Inr found, s1)"
    and rest: "outcome (case found of None \<Rightarrow> ret () | Some _ \<Rightarrow>
        bind_run (errorf (''deleting ServiceImport '' @ ServiceKey_String key) (call (sv_DeleteImport cl key))) (\<lambda>_. ret ())) s1 = (Inr u, s')"
    using assms unfolding deleteServiceImport_def outcome_bind outcome_errorf outcome_call by (simp split: prod.splits sum.splits)
  note q = query_lawD [OF GetImport_law g]
  show ?thesis
  proof (cases found)
    case None
    then have "vw_imports (view s) key = None" using q(2) by simp
    then have "(view s)\<lparr>vw_imports := (vw_imports (view s))(key := None)\<rparr> = view s" by (intro svc_view.equality) auto
    then show ?thesis using rest None q(1) by (simp add: outcome_ret)
  next
    case (Some x)
    then obtain b where "sv_DeleteImport cl key s1 = (Inr b, s')"
      using rest by (auto simp: outcome_bind outcome_errorf outcome_call outcome_ret split: prod.splits sum.splits)
    from DeleteImport_law [OF this] q(1) show ?thesis by simp
  qed
qed

lemma import_Reconcile_view:
  assumes "outcome (import_Reconcile cl cfg key) s = (Inr u, s')"
  shows "\<exists>items. mset items = mset (vw_exports (view s)) \<and> (\<exists>si. import_of cfg items key = Inr si \<and>
    view s' = (view s)\<lparr>vw_imports := (vw_imports (view s))(key := si),
      vw_slices := mirrored key (slices_of items key) (vw_slices (view s))\<rparr>)"
proof -
  obtain items s1 where l: "sv_ListExports cl s = (Inr items, s1)"
    using assms unfolding import_Reconcile_def outcome_bind outcome_errorf outcome_call by (simp split: prod.splits sum.splits)
  note q = query_lawD [OF ListExports_law l]
  obtain grouped keys where g: "GroupExports (map endpointExportToExported items) = (grouped, keys)" by fastforce
  have run: "outcome (let endpoints = grouped key in
         if endpoints = [] then seq (reconcileMirrorSlices cl key []) (deleteServiceImport cl key)
         else let plan = PlanServiceImport endpoints in
           bind_run (of_result (allocateVIPs cfg key plan keys grouped)) (\<lambda>vips.
             seq (applyServiceImport cl key plan vips)
               (reconcileMirrorSlices cl key (if ip_Type plan = Headless then endpoints else [])))) s1 = (Inr u, s')"
    using assms unfolding import_Reconcile_def outcome_bind outcome_errorf outcome_call l by (simp add: g)
  show ?thesis
  proof (cases "grouped key = []")
    case True
    then obtain v s2 where r: "outcome (reconcileMirrorSlices cl key []) s1 = (Inr v, s2)" "outcome (deleteServiceImport cl key) s2 = (Inr u, s')"
      using run by (auto simp: Let_def outcome_seq split: prod.splits sum.splits)
    have "import_of cfg items key = Inr None" "slices_of items key = []"
      using True g by (simp_all add: import_of_def slices_of_def Let_def)
    moreover have "view s' = (view s)\<lparr>vw_imports := (vw_imports (view s))(key := None), vw_slices := mirrored key [] (vw_slices (view s))\<rparr>"
      unfolding deleteServiceImport_view [OF r(2)] reconcileMirrorSlices_view [OF r(1)] q(1) by simp
    ultimately show ?thesis using q(2) by auto
  next
    case False
    let ?plan = "PlanServiceImport (grouped key)"
    let ?eps = "if ip_Type ?plan = Headless then grouped key else []"
    obtain vips where v: "allocateVIPs cfg key ?plan keys grouped = Inr vips"
      and run2: "outcome (seq (applyServiceImport cl key ?plan vips) (reconcileMirrorSlices cl key ?eps)) s1 = (Inr u, s')"
      using run False by (auto simp: Let_def outcome_bind outcome_of_result split: sum.splits)
    obtain w s2 where r: "outcome (applyServiceImport cl key ?plan vips) s1 = (Inr w, s2)" "outcome (reconcileMirrorSlices cl key ?eps) s2 = (Inr u, s')"
      using run2 by (auto simp: outcome_seq split: prod.splits sum.splits)
    have "import_of cfg items key = Inr (Some (planned_import key ?plan vips))"
      "slices_of items key = (if ?eps \<noteq> [] then PlanEndpointSlices (sk_Name key) (sk_Namespace key) ?eps else [])"
      using False g v by (simp_all add: import_of_def slices_of_def Let_def)
    moreover have "view s' = (view s)\<lparr>vw_imports := (vw_imports (view s))(key \<mapsto> planned_import key ?plan vips),
        vw_slices := mirrored key (if ?eps \<noteq> [] then PlanEndpointSlices (sk_Name key) (sk_Namespace key) ?eps else []) (vw_slices (view s))\<rparr>"
      unfolding reconcileMirrorSlices_view [OF r(2)] applyServiceImport_view [OF r(1)] q(1) by simp
    ultimately show ?thesis using q(2) by auto
  qed
qed

end

section \<open>A store in memory\<close>

record svc_store =
  ss_exports :: "EndpointExport list"
  ss_imports :: "ServiceImport list"
  ss_slices :: "EndpointSlice list"
  ss_peers :: "MeshPeer list"
  ss_faults :: "bool list"

abbreviation slice_key :: "EndpointSlice \<Rightarrow> string \<times> string" where
  "slice_key sl \<equiv> (sl_Namespace sl, sl_Name sl)"

definition ss_view :: "svc_store \<Rightarrow> svc_view" where
  "ss_view s = \<lparr>vw_exports = ss_exports s, vw_imports = keyed_find key_of (ss_imports s), vw_slices = keyed_find slice_key (ss_slices s)\<rparr>"

definition ss_step :: "(svc_store \<Rightarrow> 'x \<times> svc_store) \<Rightarrow> svc_store \<Rightarrow> 'x result \<times> svc_store" where
  "ss_step f s = (let t = s\<lparr>ss_faults := tl (ss_faults s)\<rparr> in
     if ss_faults s \<noteq> [] \<and> hd (ss_faults s) then (Inl ''the server is currently unable to handle the request'', t)
     else case f t of (x, u) \<Rightarrow> (Inr x, u))"

definition put_import :: "ServiceKey \<Rightarrow> ServiceImport option \<Rightarrow> svc_store \<Rightarrow> svc_store" where
  "put_import key new s = s\<lparr>ss_imports := keyed_put key_of key new (ss_imports s)\<rparr>"

definition put_slice :: "string \<times> string \<Rightarrow> EndpointSlice option \<Rightarrow> svc_store \<Rightarrow> svc_store" where
  "put_slice k new s = s\<lparr>ss_slices := keyed_put slice_key k new (ss_slices s)\<rparr>"

definition mem_services :: "svc_store service_client" where
  "mem_services = \<lparr>
     sv_ListExports = ss_step (\<lambda>s. (ss_exports s, s)),
     sv_ListImports = ss_step (\<lambda>s. (ss_imports s, s)),
     sv_ListPeers = ss_step (\<lambda>s. (ss_peers s, s)),
     sv_GetImport = (\<lambda>key. ss_step (\<lambda>s. (keyed_find key_of (ss_imports s) key, s))),
     sv_ApplyImport = (\<lambda>key f. ss_step (\<lambda>s. let x = f (case keyed_find key_of (ss_imports s) key of None \<Rightarrow> new_import key | Some x \<Rightarrow> x)
        in (x, put_import key (Some x) s))),
     sv_PatchImportStatus = (\<lambda>si s. case keyed_find key_of (ss_imports s) (key_of si) of
        None \<Rightarrow> (Inl ''not found'', s)
      | Some x \<Rightarrow> ss_step (\<lambda>s. ((), put_import (key_of si) (Some (x\<lparr>si_Clusters := si_Clusters si\<rparr>)) s)) s),
     sv_DeleteImport = (\<lambda>key. ss_step (\<lambda>s. (True, put_import key None s))),
     sv_ListSlices = (\<lambda>ns sel. ss_step (\<lambda>s. (filter (\<lambda>sl. sl_Namespace sl = ns \<and> matches_labels sel sl \<and>
        keyed_find slice_key (ss_slices s) (slice_key sl) = Some sl) (ss_slices s), s))),
     sv_ApplySlice = (\<lambda>k g. ss_step (\<lambda>s. ((), put_slice k (Some (g (case keyed_find slice_key (ss_slices s) k of None \<Rightarrow> new_slice k | Some x \<Rightarrow> x))) s))),
     sv_DeleteSlice = (\<lambda>k. ss_step (\<lambda>s. (True, put_slice k None s)))\<rparr>"

lemma ss_view_faults [simp]: "ss_view (s\<lparr>ss_faults := l\<rparr>) = ss_view s"
  by (simp add: ss_view_def)

lemma ss_step_cases:
  assumes "ss_step f s = (r, s')"
  shows "(\<exists>e. r = Inl e \<and> ss_view s' = ss_view s) \<or> (\<exists>t x. ss_view t = ss_view s \<and> f t = (x, s') \<and> r = Inr x)"
  using assms ss_view_faults by (auto simp: ss_step_def Let_def split: if_splits prod.splits)

lemma ss_view_put_import:
  "(\<And>x. new = Some x \<Longrightarrow> key_of x = key) \<Longrightarrow>
     ss_view (put_import key new s) = (ss_view s)\<lparr>vw_imports := (vw_imports (ss_view s))(key := new)\<rparr>"
  by (simp add: ss_view_def put_import_def keyed_find_put)

lemma ss_view_put_slice:
  "(\<And>x. new = Some x \<Longrightarrow> slice_key x = k) \<Longrightarrow>
     ss_view (put_slice k new s) = (ss_view s)\<lparr>vw_slices := (vw_slices (ss_view s))(k := new)\<rparr>"
  by (simp add: ss_view_def put_slice_def keyed_find_put)

interpretation mem_svc: service_store mem_services ss_view
proof
  show "query_law ss_view (sv_ListExports mem_services) (\<lambda>xs V. mset xs = mset (vw_exports V))"
    by (auto simp: query_law_def mem_services_def ss_view_def dest!: ss_step_cases)
next
  fix key
  show "query_law ss_view (sv_GetImport mem_services key) (\<lambda>found V. found = vw_imports V key)"
    by (auto simp: query_law_def mem_services_def ss_view_def dest!: ss_step_cases)
next
  show "vw_imports (ss_view a) key = Some si \<Longrightarrow> key_of si = key" for a key si
    by (auto simp: ss_view_def dest: keyed_find_key)
next
  show "vw_slices (ss_view a) k = Some sl \<Longrightarrow> slice_key sl = k" for a k sl
    by (auto simp: ss_view_def dest: keyed_find_key)
next
  fix f :: "ServiceImport \<Rightarrow> ServiceImport" and key s and r :: "ServiceImport result" and s'
  assume f: "\<And>x. key_of (f x) = key_of x \<and> si_Clusters (f x) = si_Clusters x" and run: "sv_ApplyImport mem_services key f s = (r, s')"
  let ?old = "\<lambda>t. case vw_imports (ss_view t) key of None \<Rightarrow> new_import key | Some x \<Rightarrow> x"
  have named: "key_of (f (?old t)) = key" for t
    using f by (cases "vw_imports (ss_view t) key") (auto simp: new_import_def key_of_def ss_view_def dest: keyed_find_key)
  from run [unfolded mem_services_def service_client.simps, THEN ss_step_cases]
  show "case r of Inl _ \<Rightarrow> ss_view s' = ss_view s | Inr si \<Rightarrow> si = f (?old s) \<and> ss_view s' = (ss_view s)\<lparr>vw_imports := (vw_imports (ss_view s))(key \<mapsto> si)\<rparr>"
  proof (elim disjE exE conjE)
    fix t x assume t: "ss_view t = ss_view s" "(let x = f (case keyed_find key_of (ss_imports t) key of None \<Rightarrow> new_import key | Some x \<Rightarrow> x)
        in (x, put_import key (Some x) t)) = (x, s')" "r = Inr x"
    have x: "x = f (?old t)" "s' = put_import key (Some x) t" using t(2) by (auto simp: Let_def ss_view_def)
    have "ss_view s' = (ss_view t)\<lparr>vw_imports := (vw_imports (ss_view t))(key \<mapsto> x)\<rparr>"
      unfolding x(2) by (rule ss_view_put_import) (use named x(1) in auto)
    then show ?thesis using t(1,3) x(1) by simp
  qed auto
next
  fix si
  show "command_law ss_view (sv_PatchImportStatus mem_services si) (\<lambda>V V'. \<exists>stored. vw_imports V (key_of si) = Some stored \<and>
        V' = V\<lparr>vw_imports := (vw_imports V)(key_of si \<mapsto> stored\<lparr>si_Clusters := si_Clusters si\<rparr>)\<rparr>)"
    unfolding command_law_def
  proof (intro allI impI)
    fix s r s' assume run: "sv_PatchImportStatus mem_services si s = (r, s')"
    show "case r of Inl _ \<Rightarrow> ss_view s' = ss_view s | Inr _ \<Rightarrow> \<exists>stored. vw_imports (ss_view s) (key_of si) = Some stored \<and>
        ss_view s' = (ss_view s)\<lparr>vw_imports := (vw_imports (ss_view s))(key_of si \<mapsto> stored\<lparr>si_Clusters := si_Clusters si\<rparr>)\<rparr>"
    proof (cases "keyed_find key_of (ss_imports s) (key_of si)")
      case None
      then show ?thesis using run by (auto simp: mem_services_def)
    next
      case (Some x)
      have k: "key_of (x\<lparr>si_Clusters := si_Clusters si\<rparr>) = key_of si" using keyed_find_key [OF Some] by (simp add: key_of_def)
      have "ss_step (\<lambda>s. ((), put_import (key_of si) (Some (x\<lparr>si_Clusters := si_Clusters si\<rparr>)) s)) s = (r, s')"
        using run Some by (simp add: mem_services_def)
      from ss_step_cases [OF this] show ?thesis
      proof (elim disjE exE conjE)
        fix t y assume t: "ss_view t = ss_view s" "((), put_import (key_of si) (Some (x\<lparr>si_Clusters := si_Clusters si\<rparr>)) t) = (y, s')" "r = Inr y"
        have "ss_view s' = (ss_view t)\<lparr>vw_imports := (vw_imports (ss_view t))(key_of si \<mapsto> x\<lparr>si_Clusters := si_Clusters si\<rparr>)\<rparr>"
          using t(2) ss_view_put_import [of "Some (x\<lparr>si_Clusters := si_Clusters si\<rparr>)" "key_of si" t] k by auto
        then show ?thesis using t(1,3) Some by (simp add: ss_view_def)
      qed auto
    qed
  qed
next
  fix key s b s' assume "sv_DeleteImport mem_services key s = (b, s')"
  from this [unfolded mem_services_def service_client.simps, THEN ss_step_cases]
  show "ss_view s' = (case b of Inl _ \<Rightarrow> ss_view s | Inr _ \<Rightarrow> (ss_view s)\<lparr>vw_imports := (vw_imports (ss_view s))(key := None)\<rparr>)"
    using ss_view_put_import [of None key] by auto
next
  fix ns sel
  show "query_law ss_view (sv_ListSlices mem_services ns sel) (\<lambda>xs V. \<forall>k. (\<exists>sl\<in>set xs. slice_key sl = k) \<longleftrightarrow>
        fst k = ns \<and> (\<exists>sl. vw_slices V k = Some sl \<and> matches_labels sel sl))"
  proof -
    have eq: "(\<exists>sl\<in>set (filter (\<lambda>sl. sl_Namespace sl = ns \<and> matches_labels sel sl \<and> keyed_find slice_key (ss_slices t) (slice_key sl) = Some sl) (ss_slices t)).
          slice_key sl = k) \<longleftrightarrow> fst k = ns \<and> (\<exists>sl. vw_slices (ss_view t) k = Some sl \<and> matches_labels sel sl)" (is "?L \<longleftrightarrow> ?R") for t k
    proof
      show "?L \<Longrightarrow> ?R" by (auto simp: ss_view_def)
      assume ?R
      then obtain sl where sl: "fst k = ns" "keyed_find slice_key (ss_slices t) k = Some sl" "matches_labels sel sl"
        by (auto simp: ss_view_def)
      have "slice_key sl = k" "sl \<in> set (ss_slices t)" using keyed_find_key [OF sl(2)] by auto
      then show ?L using sl by (intro bexI [of _ sl]) auto
    qed
    show ?thesis unfolding query_law_def
    proof (intro allI impI)
      fix s r s' assume "sv_ListSlices mem_services ns sel s = (r, s')"
      from this [unfolded mem_services_def service_client.simps, THEN ss_step_cases]
      show "ss_view s' = ss_view s \<and> (\<forall>xs. r = Inr xs \<longrightarrow> (\<forall>k. (\<exists>sl\<in>set xs. slice_key sl = k) \<longleftrightarrow>
        fst k = ns \<and> (\<exists>sl. vw_slices (ss_view s) k = Some sl \<and> matches_labels sel sl)))"
      proof (elim disjE exE conjE)
        fix t xs assume t: "ss_view t = ss_view s" "(filter (\<lambda>sl. sl_Namespace sl = ns \<and> matches_labels sel sl \<and>
            keyed_find slice_key (ss_slices t) (slice_key sl) = Some sl) (ss_slices t), t) = (xs, s')" "r = Inr xs"
        from t(2) have "s' = t" "xs = filter (\<lambda>sl. sl_Namespace sl = ns \<and> matches_labels sel sl \<and>
            keyed_find slice_key (ss_slices t) (slice_key sl) = Some sl) (ss_slices t)" by auto
        then show ?thesis using t(1,3) eq [of t, unfolded t(1)] by (intro conjI allI impI) (simp_all only: sum.inject)
      qed simp
    qed
  qed
next
  fix g :: "EndpointSlice \<Rightarrow> EndpointSlice" and k
  assume g: "\<And>x. sl_Namespace (g x) = sl_Namespace x \<and> sl_Name (g x) = sl_Name x"
  show "command_law ss_view (sv_ApplySlice mem_services k g) (\<lambda>V V'. V' = V\<lparr>vw_slices := (vw_slices V)(k \<mapsto>
          g (case vw_slices V k of None \<Rightarrow> new_slice k | Some x \<Rightarrow> x))\<rparr>)"
    unfolding command_law_def
  proof (intro allI impI)
    fix s r s' assume run: "sv_ApplySlice mem_services k g s = (r, s')"
    let ?old = "\<lambda>t. case vw_slices (ss_view t) k of None \<Rightarrow> new_slice k | Some x \<Rightarrow> x"
    have named: "slice_key (g (?old t)) = k" for t
      using g by (cases "vw_slices (ss_view t) k") (auto simp: new_slice_def ss_view_def dest: keyed_find_key)
    from run [unfolded mem_services_def service_client.simps, THEN ss_step_cases]
    show "case r of Inl _ \<Rightarrow> ss_view s' = ss_view s | Inr _ \<Rightarrow> ss_view s' = (ss_view s)\<lparr>vw_slices := (vw_slices (ss_view s))(k \<mapsto> g (?old s))\<rparr>"
    proof (elim disjE exE conjE)
      fix t x assume t: "ss_view t = ss_view s" "((), put_slice k (Some (g (case keyed_find slice_key (ss_slices t) k of None \<Rightarrow> new_slice k | Some x \<Rightarrow> x))) t) = (x, s')" "r = Inr x"
      have s': "s' = put_slice k (Some (g (?old t))) t" using t(2) by (simp add: ss_view_def)
      have "ss_view s' = (ss_view t)\<lparr>vw_slices := (vw_slices (ss_view t))(k \<mapsto> g (?old t))\<rparr>"
        unfolding s' by (rule ss_view_put_slice) (use named in auto)
      then show ?thesis using t(1,3) by simp
    qed auto
  qed
next
  fix k s b s' assume "sv_DeleteSlice mem_services k s = (b, s')"
  from this [unfolded mem_services_def service_client.simps, THEN ss_step_cases]
  show "ss_view s' = (case b of Inl _ \<Rightarrow> ss_view s | Inr _ \<Rightarrow> (ss_view s)\<lparr>vw_slices := (vw_slices (ss_view s))(k := None)\<rparr>)"
    using ss_view_put_slice [of None k] by auto
qed

section \<open>Every cluster derives the same import\<close>

text \<open>What the exports of a fleet satisfy: a cluster contributes to a service once, and
  a namespace is a DNS label.\<close>

definition one_per_cluster :: "EndpointExport list \<Rightarrow> bool" where
  "one_per_cluster items \<longleftrightarrow> (\<forall>a \<in> set (map endpointExportToExported items). \<forall>b \<in> set (map endpointExportToExported items).
     ExportedService_Key a = ExportedService_Key b \<longrightarrow> ee_Cluster (es_Endpoint a) = ee_Cluster (es_Endpoint b) \<longrightarrow> a = b) \<and>
   (\<forall>a \<in> set (map endpointExportToExported items). CHR ''/'' \<notin> set (es_Namespace a))"

lemma GroupExports_perm:
  assumes "mset items = mset items'" "one_per_cluster items"
  shows "GroupExports (map endpointExportToExported items) = GroupExports (map endpointExportToExported items')"
proof -
  let ?xs = "map endpointExportToExported items" and ?ys = "map endpointExportToExported items'"
  have m: "mset ?xs = mset ?ys" using assms(1) by simp
  have "sort_key ee_Cluster (group_of ?xs k) = sort_key ee_Cluster (group_of ?ys k)" for k
  proof (rule go_slice.srt_perm_invariant)
    show "inj_on ee_Cluster (set (group_of ?xs k))"
      using assms(2) unfolding one_per_cluster_def inj_on_def group_of_def by (auto simp del: map_map) metis
    show "mset (group_of ?xs k) = mset (group_of ?ys k)" unfolding group_of_def using m by simp
  qed
  moreover have "sort_key ServiceKey_String (remdups (map ExportedService_Key ?xs)) = sort_key ServiceKey_String (remdups (map ExportedService_Key ?ys))"
  proof (rule go_slice.srt_perm_invariant)
    show "inj_on ServiceKey_String (set (remdups (map ExportedService_Key ?xs)))"
      using assms(2) by (intro ServiceKey_String_inj) (auto simp: one_per_cluster_def ExportedService_Key_def)
    have "set ?xs = set ?ys" using m by (rule mset_eq_setD)
    then show "mset (remdups (map ExportedService_Key ?xs)) = mset (remdups (map ExportedService_Key ?ys))"
      by (intro set_eq_iff_mset_eq_distinct [THEN iffD1]) (simp_all del: map_map)
  qed
  ultimately show ?thesis unfolding GroupExports_def by simp
qed

lemma import_of_perm:
  assumes "mset items = mset items'" "one_per_cluster items"
  shows "import_of cfg items = import_of cfg items'" "slices_of items = slices_of items'"
  unfolding import_of_def slices_of_def GroupExports_perm [OF assms] by simp_all

text \<open>The answer that the exports of the fleet determine.\<close>

definition fleet_ips :: "import_config \<Rightarrow> EndpointExport list \<Rightarrow> ServiceKey \<Rightarrow> string list" where
  "fleet_ips cfg items key = (case import_of cfg items key of
     Inr (Some si) \<Rightarrow>
       if si_Type si = Headless
       then sorted_set (filter (\<lambda>ip. ip \<noteq> '''') (concat (map (\<lambda>e. ex_IPs (exo_Spec e)) (filter (\<lambda>e. exo_Namespace e = sk_Namespace key \<and>
              ex_ServiceNamespace (exo_Spec e) = sk_Namespace key \<and> ex_ServiceName (exo_Spec e) = sk_Name key) items))))
       else si_IPs si
   | _ \<Rightarrow> [])"

definition fleet_reply :: "nat \<Rightarrow> question \<Rightarrow> string list \<Rightarrow> reply" where
  "fleet_reply ttl q ips = (if ips = [] then dns_reply NXDomain [] else dns_reply NoError (appendAnswers ttl q ips))"

context service_store
begin

lemma headlessIPs_view:
  assumes "outcome (headlessIPs cl ns name) s = (r, s')"
  shows "view s' = view s \<and> (\<forall>ips. r = Inr ips \<longrightarrow> ips = sorted_set (filter (\<lambda>ip. ip \<noteq> '''') (concat (map (\<lambda>e. ex_IPs (exo_Spec e))
    (filter (\<lambda>e. exo_Namespace e = ns \<and> ex_ServiceNamespace (exo_Spec e) = ns \<and> ex_ServiceName (exo_Spec e) = name) (vw_exports (view s)))))))"
proof -
  obtain l t where l: "sv_ListExports cl s = (l, t)" by fastforce
  note q = query_lawD [OF ListExports_law l]
  have "set items = set (vw_exports (view s))" if "l = Inr items" for items
    using q(2) [OF that] by (rule mset_eq_setD)
  then show ?thesis
    using assms l q(1) unfolding headlessIPs_def outcome_bind outcome_call
    by (cases l) (auto simp: outcome_ret intro!: sorted_set_cong)
qed

lemma LookupClusterSet_fleet:
  assumes stored: "import_of cfg (vw_exports (view s)) key = Inr (vw_imports (view s) key)"
    and run: "outcome (LookupClusterSet cl (sk_Namespace key) (sk_Name key)) s = (r, s')"
  shows "view s' = view s \<and> (\<forall>x. r = Inr x \<longrightarrow> (case x of None \<Rightarrow> [] | Some v \<Rightarrow> rv_IPs v) = fleet_ips cfg (vw_exports (view s)) key)"
proof -
  obtain g t where g: "sv_GetImport cl \<lparr>sk_Namespace = sk_Namespace key, sk_Name = sk_Name key\<rparr> s = (g, t)" by fastforce
  note q = query_lawD [OF GetImport_law g]
  show ?thesis
  proof (cases g)
    case (Inl e)
    then show ?thesis using run g q(1) by (auto simp: LookupClusterSet_def outcome_bind outcome_call)
  next
    case (Inr found)
    have found: "found = vw_imports (view s) key" using q(2) [OF Inr] by (cases key) simp
    show ?thesis
    proof (cases "\<exists>si. found = Some si \<and> si_Type si = Headless")
      case True
      then obtain si where si: "found = Some si" "si_Type si = Headless" by blast
      obtain l u where l: "outcome (headlessIPs cl (sk_Namespace key) (sk_Name key)) t = (l, u)" by fastforce
      have f: "import_of cfg (vw_exports (view s)) key = Inr (Some si)" using stored found si by simp
      from headlessIPs_view [OF l] show ?thesis
        using run g Inr q(1) si f l by (cases l) (auto simp: LookupClusterSet_def outcome_bind outcome_call outcome_ret fleet_ips_def)
    next
      case False
      have f: "import_of cfg (vw_exports (view s)) key = Inr found" using stored found by simp
      show ?thesis using run g Inr q(1) False f
        by (auto simp: LookupClusterSet_def outcome_bind outcome_call outcome_ret fleet_ips_def split: option.splits)
    qed
  qed
qed

lemma buildReply_fleet:
  assumes name: "ParseClusterSetName (q_Name q) = Some (sk_Name key, sk_Namespace key)"
    and stored: "import_of cfg (vw_exports (view s)) key = Inr (vw_imports (view s) key)"
    and run: "outcome (buildReply cl ttl [q]) s = (r, s')"
  shows "view s' = view s \<and> (r = Inr (dns_reply ServFail []) \<or> r = Inr (fleet_reply ttl q (fleet_ips cfg (vw_exports (view s)) key)))"
proof -
  have zone: "InClusterSetZone (q_Name q)"
    using name by (auto simp: ParseClusterSetName_def InClusterSetZone_def Let_def split: if_splits)
  obtain x t where x: "outcome (LookupClusterSet cl (sk_Namespace key) (sk_Name key)) s = (x, t)" by fastforce
  note l = LookupClusterSet_fleet [OF stored x]
  show ?thesis
    using run l x zone name
    by (cases x) (auto simp: buildReply_def outcome_on_error outcome_bind outcome_ret fleet_reply_def split: option.splits)
qed

end

text \<open>C4. Service discovery is a function of the exports. Take two clusters whose copies of
  the exports are the same up to order, with any imports, slices and history they may have,
  and let a reconcile of the same service succeed in each: both then store the same import
  (the one the exports determine, or none), and the two DNS servers give the same answer to
  every question for that name, address for address, unless reading fails and they answer
  with a server failure. The virtual address of a service is therefore the same everywhere,
  although no cluster talks to another to agree on it. The clients and their stores are
  arbitrary, under the documented behaviour of the API.\<close>

theorem clusters_answer_alike:
  assumes "service_store cl view" "service_store cl' view'"
    and "mset (vw_exports (view s)) = mset (vw_exports (view' t))" "one_per_cluster (vw_exports (view s))"
    and "outcome (import_Reconcile cl cfg key) s = (Inr u, s')" "outcome (import_Reconcile cl' cfg key) t = (Inr v, t')"
    and "ParseClusterSetName (q_Name q) = Some (sk_Name key, sk_Namespace key)"
    and "outcome (buildReply cl ttl [q]) s' = (Inr a, s'')" "outcome (buildReply cl' ttl [q]) t' = (Inr b, t'')"
    and "re_Rcode a \<noteq> ServFail" "re_Rcode b \<noteq> ServFail"
  shows "vw_imports (view s') key = vw_imports (view' t') key \<and> a = b \<and>
    Inr (vw_imports (view s') key) = import_of cfg (vw_exports (view s)) key"
proof -
  obtain xs si where x: "mset xs = mset (vw_exports (view s))" "import_of cfg xs key = Inr si"
    "view s' = (view s)\<lparr>vw_imports := (vw_imports (view s))(key := si), vw_slices := mirrored key (slices_of xs key) (vw_slices (view s))\<rparr>"
    using service_store.import_Reconcile_view [OF assms(1,5)] by blast
  obtain ys sj where y: "mset ys = mset (vw_exports (view' t))" "import_of cfg ys key = Inr sj"
    "view' t' = (view' t)\<lparr>vw_imports := (vw_imports (view' t))(key := sj), vw_slices := mirrored key (slices_of ys key) (vw_slices (view' t))\<rparr>"
    using service_store.import_Reconcile_view [OF assms(2,6)] by blast
  have i: "import_of cfg (vw_exports (view s)) = import_of cfg xs" "import_of cfg (vw_exports (view s)) = import_of cfg ys"
    "import_of cfg (vw_exports (view s)) = import_of cfg (vw_exports (view' t))"
    by (rule import_of_perm(1) [OF _ assms(4)], use x(1) y(1) assms(3) in simp)+
  have sji: "si = sj" using i x(2) y(2) by simp
  have a: "import_of cfg (vw_exports (view s')) key = Inr (vw_imports (view s') key)"
    and b: "import_of cfg (vw_exports (view' t')) key = Inr (vw_imports (view' t') key)"
    using x(2,3) y(2,3) i by simp_all
  have "set (vw_exports (view s')) = set (vw_exports (view' t'))"
    using assms(3) [THEN mset_eq_setD] x(3) y(3) by simp
  then have ips: "fleet_ips cfg (vw_exports (view s')) key = fleet_ips cfg (vw_exports (view' t')) key"
    unfolding fleet_ips_def using a b x(3) y(3) sji by (auto split: sum.splits option.splits intro!: sorted_set_cong)
  have "a = fleet_reply ttl q (fleet_ips cfg (vw_exports (view s')) key)"
    using service_store.buildReply_fleet [OF assms(1,7) a assms(8)] assms(10) by (auto simp: dns_reply_def)
  moreover have "b = fleet_reply ttl q (fleet_ips cfg (vw_exports (view' t')) key)"
    using service_store.buildReply_fleet [OF assms(2,7) b assms(9)] assms(11) by (auto simp: dns_reply_def)
  ultimately show ?thesis using ips sji a x(3) y(3) by simp
qed

definition shop_export :: "string \<Rightarrow> string list \<Rightarrow> EndpointExport" where
  "shop_export c ips = \<lparr>exo_Namespace = ''prod'', exo_Name = c, exo_Spec = \<lparr>ex_ClusterID = c, ex_ServiceNamespace = ''prod'',
     ex_ServiceName = ''shop'', ex_Type = ClusterSetIP, ex_ExportedAtUnix = 7, ex_Ports = [], ex_IPs = ips\<rparr>\<rparr>"

definition shop_store :: "EndpointExport list \<Rightarrow> svc_store" where
  "shop_store items = \<lparr>ss_exports = items, ss_imports = [], ss_slices = [], ss_peers = [], ss_faults = []\<rparr>"

definition shop_key :: ServiceKey where
  "shop_key = \<lparr>sk_Namespace = ''prod'', sk_Name = ''shop''\<rparr>"

definition shop_config :: import_config where
  "shop_config = \<lparr>ic_ClusterSetCIDR = ''10.0.0.0/30'', ic_ClusterSetCIDR6 = ''''\<rparr>"

lemmas import_eval = shop_export_def shop_key_def shop_config_def GroupExports_def group_of_def endpointExportToExported_def
  ExportedService_Key_def PlanServiceImport_def export_order_def allocateVIPs_def import_cidr_def shop_pool alloc_eval mergePorts_def
  ClusterSetIP_def Headless_def vip_of_def dns_sortedPorts_def

lemmas store_eval = shop_store_def import_Reconcile_def run_simps mem_services_def ss_step_def applyServiceImport_def reconcileMirrorSlices_def
  deleteServiceImport_def keyed_find_def keyed_put_def put_import_def put_slice_def key_of_def new_import_def matches_labels_def

definition shop_exports :: "EndpointExport list" where
  "shop_exports = [shop_export ''east'' [''10.1.0.1''], shop_export ''west'' [''10.2.0.1'']]"

abbreviation shop_pass :: "EndpointExport list \<Rightarrow> unit result \<times> svc_store" where
  "shop_pass items \<equiv> outcome (import_Reconcile mem_services shop_config shop_key) (shop_store items)"

lemma shop_reconciles:
  "fst (shop_pass shop_exports) = Inr () \<and> ss_faults (snd (shop_pass shop_exports)) = []"
  "fst (shop_pass (rev shop_exports)) = Inr () \<and> ss_faults (snd (shop_pass (rev shop_exports))) = []"
  by (simp_all add: shop_exports_def store_eval import_eval go_eval)

lemma mem_buildReply: "\<exists>a s'. outcome (buildReply mem_services ttl qs) s = (Inr a, s')"
  by (simp add: buildReply_def run_simps split: list.splits option.splits prod.splits sum.splits)

lemma buildReply_quiet:
  assumes "ss_faults s = []" "outcome (buildReply mem_services ttl qs) s = (Inr a, s')"
  shows "re_Rcode a \<noteq> ServFail"
  using assms by (auto simp: buildReply_def LookupClusterSet_def headlessIPs_def run_simps mem_services_def ss_step_def dns_reply_def split: list.splits option.splits prod.splits sum.splits if_splits)

theorem clusters_answer_alike_witness:
  "\<exists>s' t' a b. shop_pass shop_exports = (Inr (), s') \<and> shop_pass (rev shop_exports) = (Inr (), t') \<and>
     fst (outcome (buildReply mem_services 30 [\<lparr>q_Name = ''shop.prod.svc.clusterset.local.'', q_Qtype = TypeA\<rparr>]) s') = Inr a \<and>
     fst (outcome (buildReply mem_services 30 [\<lparr>q_Name = ''shop.prod.svc.clusterset.local.'', q_Qtype = TypeA\<rparr>]) t') = Inr b \<and>
     vw_imports (ss_view s') shop_key = vw_imports (ss_view t') shop_key \<and> a = b"
proof -
  let ?q = "\<lparr>q_Name = ''shop.prod.svc.clusterset.local.'', q_Qtype = TypeA\<rparr>"
  obtain s' t' where st: "shop_pass shop_exports = (Inr (), s')" "shop_pass (rev shop_exports) = (Inr (), t')"
      "ss_faults s' = []" "ss_faults t' = []"
    using shop_reconciles by (metis prod.collapse)
  obtain a s'' b t'' where ab: "outcome (buildReply mem_services 30 [?q]) s' = (Inr a, s'')" "outcome (buildReply mem_services 30 [?q]) t' = (Inr b, t'')"
    using mem_buildReply by blast
  have "mset (vw_exports (ss_view (shop_store shop_exports))) = mset (vw_exports (ss_view (shop_store (rev shop_exports))))"
    by (simp add: ss_view_def shop_store_def)
  moreover have "one_per_cluster (vw_exports (ss_view (shop_store shop_exports)))"
    by (simp add: one_per_cluster_def ss_view_def shop_store_def shop_exports_def shop_export_def endpointExportToExported_def)
  moreover have "ParseClusterSetName (q_Name ?q) = Some (sk_Name shop_key, sk_Namespace shop_key)"
    by (simp add: ParseClusterSetName_def shop_key_def normalizeName_def clusterSetZoneSuffix_def ClusterSetDomain_def go_eval)
  ultimately have "vw_imports (ss_view s') shop_key = vw_imports (ss_view t') shop_key \<and> a = b"
    using clusters_answer_alike [OF mem_svc.service_store_axioms mem_svc.service_store_axioms, of "shop_store shop_exports" "shop_store (rev shop_exports)"
        shop_config shop_key _ s' _ t' ?q 30 a s'' b t'']
      st ab buildReply_quiet [OF st(3) ab(1)] buildReply_quiet [OF st(4) ab(2)] by blast
  then show ?thesis using st ab by auto
qed

section \<open>Events\<close>

text \<open>Which imports are reconciled when an export changes: the one of its service.\<close>

definition endpointExportToServiceRequest :: "EndpointExport \<Rightarrow> ServiceKey list" where
  "endpointExportToServiceRequest ee = [\<lparr>sk_Namespace = ex_ServiceNamespace (exo_Spec ee), sk_Name = ex_ServiceName (exo_Spec ee)\<rparr>]"

definition export_event :: "import_config \<Rightarrow> EndpointExport \<Rightarrow> svc_store \<Rightarrow> unit result \<times> svc_store" where
  "export_event cfg ee s = outcome (for_each (import_Reconcile mem_services cfg) (endpointExportToServiceRequest ee))
     (s\<lparr>ss_exports := ss_exports s @ [ee]\<rparr>)"

definition small_config :: import_config where
  "small_config = \<lparr>ic_ClusterSetCIDR = ''10.0.0.0/29'', ic_ClusterSetCIDR6 = ''''\<rparr>"

definition web_export :: "string \<Rightarrow> EndpointExport" where
  "web_export ns = \<lparr>exo_Namespace = ns, exo_Name = ''east-web'', exo_Spec = \<lparr>ex_ClusterID = ''east'', ex_ServiceNamespace = ns,
     ex_ServiceName = ''web'', ex_Type = ClusterSetIP, ex_ExportedAtUnix = 7, ex_Ports = [], ex_IPs = [''10.1.0.1'']\<rparr>\<rparr>"

definition web_import :: "string \<Rightarrow> ServiceImport" where
  "web_import ns = \<lparr>si_Namespace = ns, si_Name = ''web'', si_Type = ClusterSetIP, si_Ports = [], si_IPs = [''10.0.0.6''], si_Clusters = [''east'']\<rparr>"

lemma small_pool:
  "ParseCIDR ''10.0.0.0/29'' = Inr (IP16 (v4_in_v6 0xA000000), \<lparr>net_IP = IP4 0xA000000, net_Mask = CIDRMask 29 32\<rparr>)"
  by (simp add: go_eval)

lemma first_event:
  "export_event small_config (web_export ''prod'') (shop_store []) =
     (Inr (), (shop_store [web_export ''prod''])\<lparr>ss_imports := [web_import ''prod'']\<rparr>)"
  by (simp add: export_event_def endpointExportToServiceRequest_def small_config_def web_export_def web_import_def small_pool store_eval import_eval go_eval)

lemma second_event:
  "export_event small_config (web_export ''a'') ((shop_store [web_export ''prod''])\<lparr>ss_imports := [web_import ''prod'']\<rparr>) =
     (Inr (), (shop_store [web_export ''prod'', web_export ''a''])\<lparr>ss_imports := [web_import ''a'', web_import ''prod'']\<rparr>)"
  by (simp add: export_event_def endpointExportToServiceRequest_def small_config_def web_export_def web_import_def small_pool store_eval import_eval go_eval)

text \<open>C36. An import can keep an address that belongs to another service. An event on an export
  reconciles only the service of that export, but the addresses are a function of all
  services: a new service whose name sorts first takes the address of an existing one it
  collides with, and the existing import is not recomputed. After two events, each handled
  with success, the imports of two services hold the same virtual address, and the older one
  is not the import that the exports determine.\<close>

theorem export_event_leaves_stale_address:
  "\<exists>s s' i j. export_event small_config (web_export ''prod'') (shop_store []) = (Inr (), s) \<and>
     export_event small_config (web_export ''a'') s = (Inr (), s') \<and>
     vw_imports (ss_view s') \<lparr>sk_Namespace = ''prod'', sk_Name = ''web''\<rparr> = Some i \<and>
     vw_imports (ss_view s') \<lparr>sk_Namespace = ''a'', sk_Name = ''web''\<rparr> = Some j \<and>
     si_IPs i = [''10.0.0.6''] \<and> si_IPs j = [''10.0.0.6''] \<and>
     import_of small_config (ss_exports s') \<lparr>sk_Namespace = ''prod'', sk_Name = ''web''\<rparr> = Inr (Some (i\<lparr>si_IPs := [''10.0.0.1'']\<rparr>))"
proof -
  let ?s' = "(shop_store [web_export ''prod'', web_export ''a''])\<lparr>ss_imports := [web_import ''a'', web_import ''prod'']\<rparr>"
  have "vw_imports (ss_view ?s') \<lparr>sk_Namespace = ns, sk_Name = ''web''\<rparr> = Some (web_import ns)" if "ns \<in> {''prod'', ''a''}" for ns
    using that by (auto simp: ss_view_def keyed_find_def key_of_def web_import_def)
  moreover have "import_of small_config (ss_exports ?s') \<lparr>sk_Namespace = ''prod'', sk_Name = ''web''\<rparr> = Inr (Some ((web_import ''prod'')\<lparr>si_IPs := [''10.0.0.1'']\<rparr>))"
    by (simp add: import_of_def planned_import_def small_config_def web_export_def web_import_def small_pool shop_store_def import_eval go_eval)
  moreover have "si_IPs (web_import ns) = [''10.0.0.6'']" for ns by (simp add: web_import_def)
  ultimately show ?thesis using first_event second_event by blast
qed

end
