(* ===== verification/Control_Plane.thy ===== *)
theory Control_Plane
  imports Peer_Controller
begin

text \<open>
  \<^verbatim>\<open>pkg/client\<close>: where the topology comes from. The retry policy and the request loop of the
  client of the managed control plane (\<^verbatim>\<open>retry.go\<close>, \<^verbatim>\<open>controlplane.go\<close>), and the client of the free
  tier, which reads the stored peers.
\<close>

section \<open>Retry policy\<close>

text \<open>Durations are 64-bit signed nanoseconds and wrap as in Go.\<close>

type_synonym duration = "64 word"

record RetryPolicy =
  rp_MaxAttempts :: int
  rp_BaseDelay :: duration
  rp_MaxDelay :: duration

definition DefaultRetryPolicy :: RetryPolicy where
  "DefaultRetryPolicy = \<lparr>rp_MaxAttempts = 4, rp_BaseDelay = 200 * 1000000, rp_MaxDelay = 5 * 1000000000\<rparr>"

fun backoff_loop :: "RetryPolicy \<Rightarrow> duration \<Rightarrow> nat \<Rightarrow> duration" where
  "backoff_loop p d 0 = (if 0 <s rp_MaxDelay p \<and> rp_MaxDelay p <s d then rp_MaxDelay p else d)"
| "backoff_loop p d (Suc n) = (let d' = d * 2 in
     if 0 <s rp_MaxDelay p \<and> rp_MaxDelay p \<le>s d' then rp_MaxDelay p
     else if d' \<le>s 0 then rp_MaxDelay p
     else backoff_loop p d' n)"

definition backoff :: "RetryPolicy \<Rightarrow> nat \<Rightarrow> duration" where
  "backoff p n = (if rp_BaseDelay p \<le>s 0 then 0 else backoff_loop p (rp_BaseDelay p) n)"

definition rp_attempts :: "RetryPolicy \<Rightarrow> nat" where
  "rp_attempts p = (if rp_MaxAttempts p < 1 then 1 else nat (rp_MaxAttempts p))"

definition isRetryableStatus :: "int \<Rightarrow> bool" where
  "isRetryableStatus code \<longleftrightarrow> code = 429 \<or> code \<ge> 500 \<and> code \<le> 599"

lemma double_signed:
  fixes d :: duration
  assumes "0 <s d"
  shows "sint (d * 2) = (if 2 * sint d < 2 ^ 63 then 2 * sint d else 2 * sint d - 2 ^ 64)"
proof -
  have r: "0 < sint d" "sint d < 2 ^ 63" using assms sint_range_size [of d] by (simp_all add: word_sless_alt word_size)
  have "sint (d * 2) = signed_take_bit 63 (sint d * sint (2 :: duration))" by (simp add: sint_word_ariths(3))
  also have "\<dots> = signed_take_bit 63 (2 * sint d)" by (simp add: mult.commute)
  also have "\<dots> = (2 * sint d + 2 ^ 63) mod 2 ^ 64 - 2 ^ 63"
    by (simp add: signed_take_bit_eq_take_bit_shift take_bit_eq_mod)
  finally have eq: "sint (d * 2) = (2 * sint d + 2 ^ 63) mod 2 ^ 64 - 2 ^ 63" .
  show ?thesis
  proof (cases "2 * sint d < 2 ^ 63")
    case True
    then have "(2 * sint d + 2 ^ 63) mod 2 ^ 64 = 2 * sint d + 2 ^ 63" using r by (intro mod_pos_pos_trivial) simp_all
    then show ?thesis using eq True by simp
  next
    case False
    then have "(2 * sint d + 2 ^ 63 - 2 ^ 64) mod 2 ^ 64 = 2 * sint d + 2 ^ 63 - 2 ^ 64" using r by (intro mod_pos_pos_trivial) simp_all
    then have "(2 * sint d + 2 ^ 63) mod 2 ^ 64 = 2 * sint d + 2 ^ 63 - 2 ^ 64" by (simp only: minus_mod_self2)
    then show ?thesis using eq False by simp
  qed
qed

lemma backoff_loop_exact:
  assumes "0 <s rp_MaxDelay p" "0 <s d"
  shows "sint (backoff_loop p d n) = min (sint (rp_MaxDelay p)) (sint d * 2 ^ n)"
  using assms(2)
proof (induction n arbitrary: d)
  case 0
  then show ?case using assms(1) by (simp add: word_sless_alt)
next
  case (Suc n)
  let ?m = "sint (rp_MaxDelay p)"
  have pos: "0 < sint d" "0 < ?m" using Suc.prems assms(1) by (simp_all add: word_sless_alt)
  have m: "?m < 2 ^ 63" using sint_range_size [of "rp_MaxDelay p"] by (simp add: word_size)
  have "2 * sint d \<le> sint d * 2 ^ Suc n" using pos(1) by simp
  then have cap: "min ?m (sint d * 2 ^ Suc n) = ?m" if "?m \<le> 2 * sint d" using that by simp
  show ?case
  proof (cases "2 * sint d < 2 ^ 63")
    case True
    then have dd: "sint (d * 2) = 2 * sint d" using double_signed [OF Suc.prems] by simp
    then have up: "0 <s d * 2" using pos by (simp add: word_sless_alt)
    show ?thesis
    proof (cases "?m \<le> 2 * sint d")
      case True
      then show ?thesis using cap assms(1) dd by (simp add: word_sle_eq)
    next
      case False
      then have "backoff_loop p d (Suc n) = backoff_loop p (d * 2) n"
        using dd up by (simp add: word_sle_eq word_sless_alt)
      then show ?thesis using Suc.IH [OF up] dd by (simp add: mult.assoc mult.left_commute)
    qed
  next
    case False
    then have dd: "sint (d * 2) = 2 * sint d - 2 ^ 64" "2 * sint d < 2 ^ 64"
      using double_signed [OF Suc.prems] sint_range_size [of d] by (simp_all add: word_size)
    then have "backoff_loop p d (Suc n) = rp_MaxDelay p" using pos(2) by (simp add: word_sle_eq word_sless_alt)
    then show ?thesis using cap False m by simp
  qed
qed

section \<open>The client of the managed control plane\<close>

text \<open>The network, the token source, the timer and the random source are parameters: a failing
  \<^verbatim>\<open>tr_Build\<close> is a request that cannot be built, a failing \<^verbatim>\<open>tr_Do\<close> a transport error and a
  failing \<^verbatim>\<open>tr_Sleep\<close> a cancelled context; \<^verbatim>\<open>tr_Rand\<close> is absent when jitter is disabled.\<close>

record 'b Response =
  rs_StatusCode :: int
  rs_Body :: 'b

record ('w, 'b) transport =
  tr_Build :: "string \<Rightarrow> unit result"
  tr_Do :: "string \<Rightarrow> string \<Rightarrow> string \<Rightarrow> 'b option \<Rightarrow> 'w \<Rightarrow> 'b Response result \<times> 'w"
  tr_Load :: "'w \<Rightarrow> string \<times> 'w"
  tr_Sleep :: "duration \<Rightarrow> 'w \<Rightarrow> unit result \<times> 'w"
  tr_Rand :: "(duration \<Rightarrow> 'w \<Rightarrow> duration \<times> 'w) option"

text \<open>The client. \<^verbatim>\<open>cp_log\<close> is no field of the code: it records what the client does.\<close>

datatype event = Slept duration | Sent string | Refreshed

record 'w cp_client =
  cp_Endpoint :: string
  cp_token :: string
  cp_retry :: RetryPolicy
  cp_world :: 'w
  cp_log :: "event list"

definition logged :: "event \<Rightarrow> 'w cp_client \<Rightarrow> 'w cp_client" where
  "logged ev c = c\<lparr>cp_log := cp_log c @ [ev]\<rparr>"

definition fullJitter :: "('w, 'b) transport \<Rightarrow> duration \<Rightarrow> 'w \<Rightarrow> duration \<times> 'w" where
  "fullJitter tr d w = (if d \<le>s 0 then (0, w) else case tr_Rand tr of None \<Rightarrow> (d, w) | Some int63n \<Rightarrow> int63n (d + 1) w)"

datatype responseAction = actionReturn | actionRefresh | actionRetry

definition classifyResponse ::
  "('w, 'b) transport \<Rightarrow> int \<Rightarrow> bool \<Rightarrow> 'w cp_client \<Rightarrow> responseAction \<times> bool \<times> 'w cp_client" where
  "classifyResponse tr code refreshed c =
     (if (code = 401 \<or> code = 403) \<and> \<not> refreshed
      then case tr_Load tr (cp_world c) of (raw, w) \<Rightarrow>
        (let tok = trim_space raw; c' = logged Refreshed (c\<lparr>cp_world := w\<rparr>) in
         (actionRefresh, True, if tok \<noteq> '''' then c'\<lparr>cp_token := tok\<rparr> else c'))
      else if isRetryableStatus code then (actionRetry, refreshed, c)
      else (actionReturn, refreshed, c))"

definition doAttempt ::
  "('w, 'b) transport \<Rightarrow> string \<Rightarrow> string \<Rightarrow> string \<Rightarrow> 'b option \<Rightarrow> bool \<Rightarrow> 'w cp_client \<Rightarrow>
     'b Response result \<times> responseAction \<times> bool \<times> 'w cp_client" where
  "doAttempt tr verb url path body refreshed c = (case tr_Build tr url of
      Inl e \<Rightarrow> (Inl (''building request for '' @ path @ '': '' @ e), actionReturn, refreshed, c)
    | Inr _ \<Rightarrow> (case tr_Do tr verb url (cp_token c) body (cp_world c) of (r, w) \<Rightarrow>
        (let c' = logged (Sent (cp_token c)) (c\<lparr>cp_world := w\<rparr>) in
         case r of
           Inl e \<Rightarrow> (Inl (''transport error: '' @ e), actionRetry, refreshed, c')
         | Inr resp \<Rightarrow> (case classifyResponse tr (rs_StatusCode resp) refreshed c' of
             (actionRefresh, ref, c2) \<Rightarrow> (Inl '''', actionRefresh, ref, c2)
           | (actionRetry, ref, c2) \<Rightarrow> (Inl (''retryable HTTP '' @ itoa_int (rs_StatusCode resp)), actionRetry, ref, c2)
           | (actionReturn, ref, c2) \<Rightarrow> (Inr resp, actionReturn, ref, c2)))))"

definition backoff_sleep :: "('w, 'b) transport \<Rightarrow> nat \<Rightarrow> 'w cp_client \<Rightarrow> unit result \<times> 'w cp_client" where
  "backoff_sleep tr n c = (if n = 0 then (Inr (), c)
     else case fullJitter tr (backoff (cp_retry c) (n - 1)) (cp_world c) of (d, w) \<Rightarrow>
       (case tr_Sleep tr d w of (r, w') \<Rightarrow> (r, logged (Slept d) (c\<lparr>cp_world := w'\<rparr>))))"

lemma logged_fields [simp]:
  "cp_retry (logged ev c) = cp_retry c" "cp_token (logged ev c) = cp_token c" "cp_log (logged ev c) = cp_log c @ [ev]"
  "cp_Endpoint (logged ev c) = cp_Endpoint c" "cp_world (logged ev c) = cp_world c"
  by (simp_all add: logged_def)

lemma backoff_sleep_retry: "backoff_sleep tr n c = (r, c') \<Longrightarrow> cp_retry c' = cp_retry c"
  by (auto simp: backoff_sleep_def split: if_splits prod.splits)

lemma doAttempt_refresh:
  assumes "doAttempt tr verb url path body refreshed c = (r, act, refreshed', c')"
  shows "cp_retry c' = cp_retry c" "act = actionRefresh \<Longrightarrow> \<not> refreshed \<and> refreshed'" "act \<noteq> actionRefresh \<Longrightarrow> refreshed' = refreshed"
  using assms by (auto simp: doAttempt_def classifyResponse_def Let_def split: sum.splits prod.splits if_splits responseAction.splits)

lemma doAttempt_step:
  "(r, act, refreshed', c') = doAttempt tr verb url path body refreshed c \<Longrightarrow>
     cp_retry c' = cp_retry c \<and> (if act = actionRefresh then \<not> refreshed \<and> refreshed' else refreshed' = refreshed)"
  using doAttempt_refresh [OF sym] by metis

text \<open>The loop: a refresh repeats the attempt with the same index.\<close>

function authorized_loop ::
  "('w, 'b) transport \<Rightarrow> string \<Rightarrow> string \<Rightarrow> string \<Rightarrow> 'b option \<Rightarrow> nat \<Rightarrow> bool \<Rightarrow> go_error option \<Rightarrow> 'w cp_client \<Rightarrow>
     'b Response result \<times> 'w cp_client" where
  "authorized_loop tr verb url path body n refreshed lastErr c =
     (if n < rp_attempts (cp_retry c)
      then case backoff_sleep tr n c of
          (Inl e, c1) \<Rightarrow> (Inl e, c1)
        | (Inr _, c1) \<Rightarrow> (case doAttempt tr verb url path body refreshed c1 of
            (r, actionReturn, ref, c2) \<Rightarrow> (r, c2)
          | (r, actionRefresh, ref, c2) \<Rightarrow> authorized_loop tr verb url path body n ref lastErr c2
          | (r, actionRetry, ref, c2) \<Rightarrow> authorized_loop tr verb url path body (Suc n) ref
              (case r of Inl e \<Rightarrow> Some e | Inr _ \<Rightarrow> None) c2)
      else (Inl (''after '' @ itoa (rp_attempts (cp_retry c)) @ '' attempts: '' @
              (case lastErr of None \<Rightarrow> ''exhausted '' @ itoa (rp_attempts (cp_retry c)) @ '' attempts'' | Some e \<Rightarrow> e)), c))"
  by pat_completeness auto
termination
  by (relation "measure (\<lambda>(tr, verb, url, path, body, n, refreshed, lastErr, c).
        2 * (rp_attempts (cp_retry c) - n) + (if refreshed then 0 else 1))")
    (auto dest!: backoff_sleep_retry [OF sym] doAttempt_step)

declare authorized_loop.simps [simp del]

definition authorizedDo :: "('w, 'b) transport \<Rightarrow> string \<Rightarrow> string \<Rightarrow> 'b option \<Rightarrow> 'w cp_client \<Rightarrow> 'b Response result \<times> 'w cp_client" where
  "authorizedDo tr verb path body c = authorized_loop tr verb (cp_Endpoint c @ path) path body 0 False None c"

text \<open>The calls of the control plane. A body is decoded by the given function.\<close>

record RemotePeerConfig =
  rc_ClusterID :: string
  rc_PublicKey :: string
  rc_Endpoint :: string
  rc_PodCIDRs :: "string list"
  rc_ServiceCIDRs :: "string list"

definition AllowedIPs :: "RemotePeerConfig \<Rightarrow> string list" where
  "AllowedIPs r = rc_PodCIDRs r @ rc_ServiceCIDRs r"

definition EnterpriseSSOTokenEnv :: string where
  "EnterpriseSSOTokenEnv = ''DataWerx_ENTERPRISE_SSO_TOKEN''"

definition NewEnterpriseControlPlaneClient :: "string \<Rightarrow> 'w \<Rightarrow> 'w cp_client" where
  "NewEnterpriseControlPlaneClient endpoint w =
     \<lparr>cp_Endpoint = rev (dropWhile (\<lambda>ch. ch = CHR ''/'') (rev endpoint)), cp_token = '''', cp_retry = DefaultRetryPolicy, cp_world = w, cp_log = []\<rparr>"

definition Authenticate :: "('w, 'b) transport \<Rightarrow> 'w cp_client \<Rightarrow> unit result \<times> 'w cp_client" where
  "Authenticate tr c =
     (if cp_Endpoint c = '''' then (Inl ''enterprise control plane: empty endpoint; set DataWerx_SAAS_ENDPOINT'', c)
      else case tr_Load tr (cp_world c) of (raw, w) \<Rightarrow>
        (let token = trim_space raw; c1 = c\<lparr>cp_world := w\<rparr> in
         if token = '''' then (Inl (''enterprise control plane: '' @ EnterpriseSSOTokenEnv @
              '' is unset; an OIDC/SSO machine token is required for the premium tier''), c1)
         else case authorizedDo tr ''GET'' ''/api/v1/auth/whoami'' None (c1\<lparr>cp_token := token\<rparr>) of
             (Inl e, c2) \<Rightarrow> (Inl (''enterprise control plane: auth probe: '' @ e), c2)
           | (Inr resp, c2) \<Rightarrow>
               if rs_StatusCode resp = 200 then (Inr (), c2)
               else if rs_StatusCode resp = 401 \<or> rs_StatusCode resp = 403
               then (Inl (''enterprise control plane: SSO token rejected (HTTP '' @ itoa_int (rs_StatusCode resp) @ ''); refresh the OIDC credential''), c2)
               else (Inl (''enterprise control plane: unexpected auth probe status HTTP '' @ itoa_int (rs_StatusCode resp)), c2)))"

definition with_token :: "('w, 'b) transport \<Rightarrow> ('w cp_client \<Rightarrow> 'x result \<times> 'w cp_client) \<Rightarrow> 'w cp_client \<Rightarrow> 'x result \<times> 'w cp_client" where
  "with_token tr k c = (if cp_token c = ''''
     then case Authenticate tr c of (Inl e, c1) \<Rightarrow> (Inl e, c1) | (Inr _, c1) \<Rightarrow> k c1
     else k c)"

definition FetchTopologyWithRevision ::
  "('w, 'b) transport \<Rightarrow> ('b \<Rightarrow> (string \<times> RemotePeerConfig list) result) \<Rightarrow> 'w cp_client \<Rightarrow> (RemotePeerConfig list \<times> string) result \<times> 'w cp_client" where
  "FetchTopologyWithRevision tr decode = with_token tr (\<lambda>c. case authorizedDo tr ''GET'' ''/api/v1/topology'' None c of
      (Inl e, c1) \<Rightarrow> (Inl (''enterprise control plane: topology fetch: '' @ e), c1)
    | (Inr resp, c1) \<Rightarrow>
        if rs_StatusCode resp \<noteq> 200
        then (Inl (''enterprise control plane: topology fetch returned HTTP '' @ itoa_int (rs_StatusCode resp)), c1)
        else (case decode (rs_Body resp) of
            Inl e \<Rightarrow> (Inl (''enterprise control plane: decoding topology payload: '' @ e), c1)
          | Inr (revision, peers) \<Rightarrow> (Inr (peers, revision), c1)))"

definition PushEvidence :: "('w, 'b) transport \<Rightarrow> 'b \<Rightarrow> 'w cp_client \<Rightarrow> unit result \<times> 'w cp_client" where
  "PushEvidence tr payload = with_token tr (\<lambda>c. case authorizedDo tr ''POST'' ''/api/v1/evidence'' (Some payload) c of
      (Inl e, c1) \<Rightarrow> (Inl (''enterprise control plane: evidence push: '' @ e), c1)
    | (Inr resp, c1) \<Rightarrow>
        if rs_StatusCode resp \<noteq> 200
        then (Inl (''enterprise control plane: evidence push returned HTTP '' @ itoa_int (rs_StatusCode resp)), c1)
        else (Inr (), c1))"

text \<open>The free tier: the peers are the stored objects that are not being deleted.\<close>

definition local_FetchTopology :: "('a \<Rightarrow> MeshPeer list result \<times> 'a) \<Rightarrow> 'a \<Rightarrow> RemotePeerConfig list result \<times> 'a" where
  "local_FetchTopology list_peers a = (case list_peers a of
      (Inl e, a') \<Rightarrow> (Inl (''local gitops client: listing MeshPeers: '' @ e), a')
    | (Inr items, a') \<Rightarrow> (Inr (map (\<lambda>mp. \<lparr>rc_ClusterID = sp_ClusterID (mp_Spec mp), rc_PublicKey = sp_PublicKey (mp_Spec mp),
          rc_Endpoint = sp_Endpoint (mp_Spec mp), rc_PodCIDRs = sp_PodCIDRs (mp_Spec mp), rc_ServiceCIDRs = sp_ServiceCIDRs (mp_Spec mp)\<rparr>)
        (filter (\<lambda>mp. \<not> mp_Deleting mp) items)), a'))"

section \<open>What the loop does\<close>

definition is_sent :: "event \<Rightarrow> bool" where
  "is_sent ev \<longleftrightarrow> (case ev of Sent _ \<Rightarrow> True | _ \<Rightarrow> False)"

definition sent :: "event list \<Rightarrow> nat" where
  "sent evs = length (filter is_sent evs)"

definition refreshes :: "event list \<Rightarrow> nat" where
  "refreshes evs = length (filter (\<lambda>ev. ev = Refreshed) evs)"

definition slept_within :: "duration \<Rightarrow> event list \<Rightarrow> bool" where
  "slept_within m evs \<longleftrightarrow> (\<forall>d. Slept d \<in> set evs \<longrightarrow> 0 \<le>s d \<and> d \<le>s m)"

lemma event_counts [simp]:
  "sent (xs @ ys) = sent xs + sent ys" "refreshes (xs @ ys) = refreshes xs + refreshes ys" "sent [] = 0" "refreshes [] = 0"
  "slept_within m (xs @ ys) \<longleftrightarrow> slept_within m xs \<and> slept_within m ys" "slept_within m []"
  "sent (Sent t # xs) = Suc (sent xs)" "sent (Refreshed # xs) = sent xs" "sent (Slept d # xs) = sent xs"
  "refreshes (Sent t # xs) = refreshes xs" "refreshes (Refreshed # xs) = Suc (refreshes xs)" "refreshes (Slept d # xs) = refreshes xs"
  "slept_within m (Sent t # xs) = slept_within m xs" "slept_within m (Refreshed # xs) = slept_within m xs"
  "slept_within m (Slept d # xs) \<longleftrightarrow> 0 \<le>s d \<and> d \<le>s m \<and> slept_within m xs"
  by (auto simp: sent_def refreshes_def slept_within_def is_sent_def)

text \<open>What the code relies on: the documented range of \<^verbatim>\<open>rand.Int63n\<close>, and a policy with a cap.\<close>

definition fair_rand :: "('w, 'b) transport \<Rightarrow> bool" where
  "fair_rand tr \<longleftrightarrow> (\<forall>int63n. tr_Rand tr = Some int63n \<longrightarrow> (\<forall>m w. 0 <s m \<longrightarrow> 0 \<le>s fst (int63n m w) \<and> fst (int63n m w) <s m))"

definition capped :: "RetryPolicy \<Rightarrow> bool" where
  "capped p \<longleftrightarrow> 0 <s rp_MaxDelay p \<and> sint (rp_MaxDelay p) < 2 ^ 63 - 1"

lemma backoff_range:
  assumes "capped p"
  shows "0 \<le> sint (backoff p n)" "sint (backoff p n) \<le> sint (rp_MaxDelay p)"
  using assms backoff_loop_exact [of p "rp_BaseDelay p" n]
  by (auto simp: backoff_def capped_def word_sle_eq word_sless_alt min_def not_le)

lemma fullJitter_range:
  assumes "fair_rand tr" "0 \<le> sint d" "sint d < 2 ^ 63 - 1" "fullJitter tr d w = (j, w')"
  shows "0 \<le>s j \<and> j \<le>s d"
proof (cases "d \<le>s 0 \<or> tr_Rand tr = None")
  case True
  then show ?thesis using assms by (auto simp: fullJitter_def word_sle_eq split: if_splits)
next
  case False
  then obtain f where f: "tr_Rand tr = Some f" "0 < sint d" by (auto simp: word_sle_eq)
  have s: "sint (d + 1) = sint d + 1"
    using f(2) assms(3) by (simp add: sint_word_ariths(1) signed_take_bit_int_eq_self)
  then have "0 <s d + 1" using f(2) by (simp add: word_sless_alt)
  then have "0 \<le>s fst (f (d + 1) w) \<and> fst (f (d + 1) w) <s d + 1" using assms(1) f(1) by (simp add: fair_rand_def)
  moreover have "j = fst (f (d + 1) w)" using assms(4) False f by (simp add: fullJitter_def)
  ultimately show ?thesis using s by (simp add: word_sle_eq word_sless_alt)
qed

lemma backoff_sleep_log:
  assumes "fair_rand tr" "capped (cp_retry c)" "backoff_sleep tr n c = (r, c')"
  shows "\<exists>evs. cp_log c' = cp_log c @ evs \<and> sent evs = 0 \<and> refreshes evs = 0 \<and> slept_within (rp_MaxDelay (cp_retry c)) evs"
proof (cases n)
  case 0
  then show ?thesis using assms by (auto simp: backoff_sleep_def intro!: exI [of _ "[]"])
next
  case (Suc m)
  let ?d = "backoff (cp_retry c) m"
  obtain j w where j: "fullJitter tr ?d (cp_world c) = (j, w)" by fastforce
  note b = backoff_range [OF assms(2), of m]
  have "sint ?d < 2 ^ 63 - 1" using b(2) assms(2) by (simp add: capped_def)
  from fullJitter_range [OF assms(1) b(1) this j] have "0 \<le>s j \<and> j \<le>s rp_MaxDelay (cp_retry c)"
    using b(2) by (simp add: word_sle_eq)
  then show ?thesis using assms(3) Suc j by (auto simp: backoff_sleep_def split: prod.splits intro!: exI [of _ "[Slept j]"])
qed

lemma doAttempt_log:
  assumes "doAttempt tr verb url path body refreshed c = (r, act, refreshed', c')"
  shows "\<exists>evs. cp_log c' = cp_log c @ evs \<and> (\<forall>m. slept_within m evs) \<and>
    (case act of
       actionRefresh \<Rightarrow> sent evs = 1 \<and> refreshes evs = 1
     | actionRetry \<Rightarrow> sent evs = 1 \<and> refreshes evs = 0 \<and> (\<exists>e. r = Inl e)
     | actionReturn \<Rightarrow> refreshes evs = 0 \<and> (case r of
         Inl _ \<Rightarrow> sent evs = 0 \<and> (\<exists>e. tr_Build tr url = Inl e)
       | Inr resp \<Rightarrow> sent evs = 1 \<and> \<not> isRetryableStatus (rs_StatusCode resp) \<and>
           (rs_StatusCode resp \<in> {401, 403} \<longrightarrow> refreshed)))"
proof (cases "tr_Build tr url")
  case (Inl e)
  then show ?thesis using assms by (auto simp: doAttempt_def intro!: exI [of _ "[]"])
next
  case (Inr u)
  obtain x w where do: "tr_Do tr verb url (cp_token c) body (cp_world c) = (x, w)" by fastforce
  show ?thesis
  proof (cases x)
    case (Inl e)
    then show ?thesis using assms Inr do by (auto simp: doAttempt_def Let_def intro!: exI [of _ "[Sent (cp_token c)]"])
  next
    case (Inr resp)
    note resp = this
    let ?code = "rs_StatusCode resp"
    show ?thesis
    proof (cases "?code \<in> {401, 403} \<and> \<not> refreshed")
      case True
      then show ?thesis using assms \<open>tr_Build tr url = Inr u\<close> do resp
        by (auto simp: doAttempt_def classifyResponse_def Let_def split: prod.splits if_splits
            intro!: exI [of _ "[Sent (cp_token c), Refreshed]"])
    next
      case False
      then show ?thesis using assms \<open>tr_Build tr url = Inr u\<close> do resp
        by (auto simp: doAttempt_def classifyResponse_def Let_def split: if_splits intro!: exI [of _ "[Sent (cp_token c)]"])
    qed
  qed
qed

text \<open>What holds of the events of a run of the loop and its result.\<close>

definition loop_ok :: "('w, 'b) transport \<Rightarrow> string \<Rightarrow> RetryPolicy \<Rightarrow> nat \<Rightarrow> bool \<Rightarrow> 'b Response result \<Rightarrow> event list \<Rightarrow> bool" where
  "loop_ok tr url p n refreshed r evs \<longleftrightarrow>
     slept_within (rp_MaxDelay p) evs \<and> refreshes evs \<le> (if refreshed then 0 else 1) \<and>
     sent evs \<le> (rp_attempts p - n) + refreshes evs \<and>
     (case r of
        Inr resp \<Rightarrow> \<not> isRetryableStatus (rs_StatusCode resp) \<and> (rs_StatusCode resp \<in> {401, 403} \<longrightarrow> refreshed \<or> 0 < refreshes evs)
      | Inl _ \<Rightarrow> sent evs = (rp_attempts p - n) + refreshes evs \<or> (\<exists>e. tr_Build tr url = Inl e) \<or>
          (\<exists>d w. \<exists>e. fst (tr_Sleep tr d w) = Inl e))"

lemma authorized_loop_ok:
  assumes "fair_rand tr" "capped (cp_retry c)" "n \<le> rp_attempts (cp_retry c)"
    and "authorized_loop tr verb url path body n refreshed lastErr c = (r, c')"
  shows "\<exists>evs. cp_log c' = cp_log c @ evs \<and> loop_ok tr url (cp_retry c) n refreshed r evs"
  using assms
proof (induction tr verb url path body n refreshed lastErr c rule: authorized_loop.induct)
  case (1 tr verb url path body n refreshed lastErr c)
  let ?p = "cp_retry c"
  show ?case
  proof (cases "n < rp_attempts ?p")
    case False
    then show ?thesis using 1(5,6) by (subst (asm) authorized_loop.simps) (auto simp: loop_ok_def intro!: exI [of _ "[]"])
  next
    case True
    obtain u c1 where sl: "backoff_sleep tr n c = (u, c1)" by fastforce
    obtain es where es: "cp_log c1 = cp_log c @ es" "sent es = 0" "refreshes es = 0" "slept_within (rp_MaxDelay ?p) es"
      using backoff_sleep_log [OF 1(3,4) sl] by blast
    note ret = backoff_sleep_retry [OF sl]
    show ?thesis
    proof (cases u)
      case (Inl e)
      have "\<exists>d w e. fst (tr_Sleep tr d w) = Inl e"
        using sl Inl by (auto simp: backoff_sleep_def split: if_splits prod.splits) (metis fst_conv)
      moreover have "r = Inl e \<and> c' = c1" using 1(6) True sl Inl by (subst (asm) authorized_loop.simps) simp
      ultimately show ?thesis using es by (auto simp: loop_ok_def)
    next
      case (Inr v)
      obtain x act ref c2 where da: "doAttempt tr verb url path body refreshed c1 = (x, act, ref, c2)" by (metis prod_cases4)
      obtain ds where ds: "cp_log c2 = cp_log c1 @ ds" "\<forall>m. slept_within m ds"
        and act: "case act of actionRefresh \<Rightarrow> sent ds = 1 \<and> refreshes ds = 1
     | actionRetry \<Rightarrow> sent ds = 1 \<and> refreshes ds = 0 \<and> (\<exists>e. x = Inl e)
     | actionReturn \<Rightarrow> refreshes ds = 0 \<and> (case x of
         Inl _ \<Rightarrow> sent ds = 0 \<and> (\<exists>e. tr_Build tr url = Inl e)
       | Inr resp \<Rightarrow> sent ds = 1 \<and> \<not> isRetryableStatus (rs_StatusCode resp) \<and>
           (rs_StatusCode resp \<in> {401, 403} \<longrightarrow> refreshed))"
        using doAttempt_log [OF da] by blast
      note st = doAttempt_refresh [OF da] ret
      show ?thesis
      proof (cases act)
        case actionReturn
        then have "r = x \<and> c' = c2" using 1(6) True sl Inr da by (subst (asm) authorized_loop.simps) simp
        then show ?thesis using es ds act actionReturn True
          by (intro exI [of _ "es @ ds"]) (auto simp: loop_ok_def split: sum.splits)
      next
        case actionRefresh
        then have run: "authorized_loop tr verb url path body n ref lastErr c2 = (r, c')"
          using 1(6) True sl Inr da by (subst (asm) authorized_loop.simps) simp
        obtain fs where fs: "cp_log c' = cp_log c2 @ fs" "loop_ok tr url ?p n ref r fs"
          using 1(1) [OF True sl [symmetric] Inr da [symmetric] refl actionRefresh refl] 1(3-5) st run by auto
        then show ?thesis using es ds act actionRefresh st
          by (intro exI [of _ "es @ ds @ fs"]) (auto simp: loop_ok_def split: sum.splits)
      next
        case actionRetry
        then have run: "authorized_loop tr verb url path body (Suc n) ref (case x of Inl e \<Rightarrow> Some e | Inr _ \<Rightarrow> None) c2 = (r, c')"
          using 1(6) True sl Inr da by (subst (asm) authorized_loop.simps) simp
        obtain fs where fs: "cp_log c' = cp_log c2 @ fs" "loop_ok tr url ?p (Suc n) ref r fs"
          using 1(2) [OF True sl [symmetric] Inr da [symmetric] refl actionRetry refl] 1(3-5) st run True by auto
        then show ?thesis using es ds act actionRetry st True
          by (intro exI [of _ "es @ ds @ fs"]) (auto simp: loop_ok_def split: sum.splits)
      qed
    qed
  qed
qed

text \<open>C12. Requests to the managed control plane end. For every network, token source and timer,
  the retry loop sends at most one request per allowed attempt, plus one if the token was
  refreshed, which happens at most once; every pause is between zero and the configured cap,
  with 64-bit arithmetic; a response is handed to the caller only if its status is not
  retryable, and an authorization failure only after a refresh; and the caller gets an error
  only after all attempts were used, unless the request cannot be built or the wait is
  cancelled.\<close>

theorem authorizedDo_bounded:
  assumes "fair_rand tr" "capped (cp_retry c)" "authorizedDo tr verb path body c = (r, c')"
  shows "\<exists>evs. cp_log c' = cp_log c @ evs \<and> slept_within (rp_MaxDelay (cp_retry c)) evs \<and> refreshes evs \<le> 1 \<and>
    sent evs \<le> rp_attempts (cp_retry c) + refreshes evs \<and>
    (case r of
       Inr resp \<Rightarrow> \<not> isRetryableStatus (rs_StatusCode resp) \<and> (rs_StatusCode resp \<in> {401, 403} \<longrightarrow> refreshes evs = 1)
     | Inl _ \<Rightarrow> sent evs = rp_attempts (cp_retry c) + refreshes evs \<or> (\<exists>e. tr_Build tr (cp_Endpoint c @ path) = Inl e) \<or>
         (\<exists>d w e. fst (tr_Sleep tr d w) = Inl e))"
proof -
  have "authorized_loop tr verb (cp_Endpoint c @ path) path body 0 False None c = (r, c')"
    using assms(3) by (simp add: authorizedDo_def)
  from authorized_loop_ok [OF assms(1,2) _ this]
  obtain evs where "cp_log c' = cp_log c @ evs" "loop_ok tr (cp_Endpoint c @ path) (cp_retry c) 0 False r evs" by auto
  then show ?thesis by (intro exI [of _ evs]) (auto simp: loop_ok_def split: sum.splits)
qed

text \<open>A network that answers with a list of status codes.\<close>

definition scripted :: "(int list, string) transport" where
  "scripted = \<lparr>tr_Build = (\<lambda>_. Inr ()),
     tr_Do = (\<lambda>_ _ _ _ codes. case codes of [] \<Rightarrow> (Inl ''connection refused'', []) | c # cs \<Rightarrow> (Inr \<lparr>rs_StatusCode = c, rs_Body = ''{}''\<rparr>, cs)),
     tr_Load = (\<lambda>w. ('' fresh '', w)), tr_Sleep = (\<lambda>_ w. (Inr (), w)), tr_Rand = None\<rparr>"

definition managed_client :: "int list \<Rightarrow> int list cp_client" where
  "managed_client codes = \<lparr>cp_Endpoint = ''https://mesh'', cp_token = ''old'', cp_retry = DefaultRetryPolicy, cp_world = codes, cp_log = []\<rparr>"

lemma scripted_run:
  "authorizedDo scripted ''GET'' ''/t'' None (managed_client [503, 401, 200]) =
     (Inr \<lparr>rs_StatusCode = 200, rs_Body = ''{}''\<rparr>,
      (managed_client [])\<lparr>cp_token := ''fresh'', cp_log := [Sent ''old'', Slept 200000000, Sent ''old'', Refreshed, Slept 200000000, Sent ''fresh'']\<rparr>)"
  by (simp add: authorizedDo_def authorized_loop.simps scripted_def managed_client_def DefaultRetryPolicy_def rp_attempts_def
      backoff_sleep_def doAttempt_def classifyResponse_def isRetryableStatus_def fullJitter_def backoff_def logged_def word_sle_eq go_eval)

theorem authorizedDo_bounded_witness:
  "fair_rand scripted \<and> capped DefaultRetryPolicy \<and>
   (\<exists>r c'. authorizedDo scripted ''GET'' ''/t'' None (managed_client [503, 401, 200]) = (Inr r, c') \<and> sent (cp_log c') \<le> 4 + refreshes (cp_log c') \<and>
      slept_within (5 * 1000000000) (cp_log c'))"
proof -
  have fair: "fair_rand scripted" "capped DefaultRetryPolicy" by (simp_all add: fair_rand_def scripted_def capped_def DefaultRetryPolicy_def word_sless_alt)
  then have "capped (cp_retry (managed_client [503, 401, 200]))" by (simp add: managed_client_def)
  from authorizedDo_bounded [OF fair(1) this scripted_run] show ?thesis
    using fair scripted_run by (auto simp: managed_client_def DefaultRetryPolicy_def rp_attempts_def)
qed

end
