(* ===== verification/Topology_Syncer.thy ===== *)
theory Topology_Syncer
  imports Control_Plane Topology_Conflicts
begin

text \<open>
  \<^verbatim>\<open>pkg/syncer\<close>: the runnable that mirrors the topology of a control plane into \<^verbatim>\<open>MeshPeer\<close>
  objects. One pass fetches, reports conflicts, upserts the listed clusters and prunes the
  managed objects that are not listed any more.
\<close>

section \<open>Objects and client\<close>

definition managedByLabel :: string where "managedByLabel = ''app.kubernetes.io/managed-by''"
definition managedByValue :: string where "managedByValue = ''datawerx-topology-syncer''"

text \<open>The fields of a \<^verbatim>\<open>MeshPeer\<close> that the syncer reads and writes. \<^verbatim>\<open>sc_Apply\<close> is the library's
  \<^verbatim>\<open>CreateOrUpdate\<close>; \<^verbatim>\<open>sc_Delete\<close> answers \<^verbatim>\<open>False\<close> for a not-found error.\<close>

record ManagedPeer =
  mo_Name :: string
  mo_Labels :: "(string \<times> string) list"
  mo_Deleting :: bool
  mo_Spec :: MeshPeerSpec

record 'a sync_client =
  sc_Apply :: "string \<Rightarrow> (ManagedPeer \<Rightarrow> ManagedPeer) \<Rightarrow> 'a \<Rightarrow> unit result \<times> 'a"
  sc_List :: "string \<times> string \<Rightarrow> 'a \<Rightarrow> ManagedPeer list result \<times> 'a"
  sc_Delete :: "string \<Rightarrow> 'a \<Rightarrow> bool result \<times> 'a"

record ('c, 'a) Syncer =
  sy_CP :: 'c
  sy_K8s :: 'a
  sy_LocalClusterID :: string
  sy_OnConflicts :: "TopologyConflict list list"
  sy_lastRevision :: string
  sy_applied :: bool

section \<open>The pass\<close>

definition toIdentities :: "RemotePeerConfig list \<Rightarrow> PeerIdentity list" where
  "toIdentities = map (\<lambda>p. \<lparr>pi_ClusterID = rc_ClusterID p, pi_PublicKey = rc_PublicKey p, pi_Endpoint = rc_Endpoint p, pi_CIDRs = AllowedIPs p\<rparr>)"

definition reportConflicts :: "RemotePeerConfig list \<Rightarrow> ('c, 'a) Syncer \<Rightarrow> ('c, 'a) Syncer" where
  "reportConflicts peers s = s\<lparr>sy_OnConflicts := sy_OnConflicts s @ [DetectTopologyConflicts (toIdentities peers)]\<rparr>"

definition put_label :: "string \<Rightarrow> string \<Rightarrow> (string \<times> string) list \<Rightarrow> (string \<times> string) list" where
  "put_label k v m = (k, v) # filter (\<lambda>(l, _). l \<noteq> k) m"

definition stamp :: "RemotePeerConfig \<Rightarrow> ManagedPeer \<Rightarrow> ManagedPeer" where
  "stamp rc mp = mp\<lparr>mo_Labels := put_label managedByLabel managedByValue (mo_Labels mp),
     mo_Spec := \<lparr>sp_ClusterID = rc_ClusterID rc, sp_PublicKey = rc_PublicKey rc, sp_Endpoint = rc_Endpoint rc,
       sp_PodCIDRs = rc_PodCIDRs rc, sp_ServiceCIDRs = rc_ServiceCIDRs rc\<rparr>\<rparr>"

definition upsert :: "'a sync_client \<Rightarrow> RemotePeerConfig \<Rightarrow> ('a, unit) run" where
  "upsert cl rc = errorf (''upserting MeshPeer '' @ SanitizeName (rc_ClusterID rc)) (call (sc_Apply cl (SanitizeName (rc_ClusterID rc)) (stamp rc)))"

definition foreign :: "string \<Rightarrow> RemotePeerConfig \<Rightarrow> bool" where
  "foreign lid p \<longleftrightarrow> \<not> (rc_ClusterID p = '''' \<or> rc_ClusterID p = lid)"

fun upsertDesired :: "'a sync_client \<Rightarrow> string \<Rightarrow> RemotePeerConfig list \<Rightarrow> 'a \<Rightarrow> (string list \<times> bool) \<times> 'a" where
  "upsertDesired cl lid [] a = (([], True), a)"
| "upsertDesired cl lid (p # ps) a =
     (if \<not> foreign lid p then upsertDesired cl lid ps a
      else case outcome (upsert cl p) a of
          (Inl _, a1) \<Rightarrow> (case upsertDesired cl lid ps a1 of ((desired, _), a2) \<Rightarrow> ((desired, False), a2))
        | (Inr _, a1) \<Rightarrow> (case upsertDesired cl lid ps a1 of ((desired, ok), a2) \<Rightarrow> ((SanitizeName (rc_ClusterID p) # desired, ok), a2)))"

definition prune_peer :: "'a sync_client \<Rightarrow> string list \<Rightarrow> ManagedPeer \<Rightarrow> ('a, unit) run" where
  "prune_peer cl desired mp =
     (if mo_Name mp \<in> set desired then ret ()
      else if mo_Deleting mp then ret ()
      else bind_run (errorf (''deleting stale MeshPeer '' @ mo_Name mp) (call (sc_Delete cl (mo_Name mp)))) (\<lambda>_. ret ()))"

definition prune :: "'a sync_client \<Rightarrow> string list \<Rightarrow> ('a, unit) run" where
  "prune cl desired = bind_run (errorf ''listing managed MeshPeers'' (call (sc_List cl (managedByLabel, managedByValue)))) (\<lambda>items.
     for_each (prune_peer cl desired) items)"

definition syncOnce :: "('c \<Rightarrow> (RemotePeerConfig list \<times> string) result \<times> 'c) \<Rightarrow> 'a sync_client \<Rightarrow> ('c, 'a) Syncer \<Rightarrow> ('c, 'a) Syncer" where
  "syncOnce fetch cl s = (case fetch (sy_CP s) of
      (Inl _, c) \<Rightarrow> s\<lparr>sy_CP := c\<rparr>
    | (Inr (peers, revision), c) \<Rightarrow>
        let s = s\<lparr>sy_CP := c\<rparr> in
        if sy_applied s \<and> revision \<noteq> '''' \<and> revision = sy_lastRevision s then s
        else let s = reportConflicts peers s in
          (case upsertDesired cl (sy_LocalClusterID s) peers (sy_K8s s) of ((desired, ok), a) \<Rightarrow>
            let s = s\<lparr>sy_K8s := a\<rparr> in
            if \<not> ok then s
            else (case outcome (prune cl desired) a of
                (Inl _, a') \<Rightarrow> s\<lparr>sy_K8s := a'\<rparr>
              | (Inr _, a') \<Rightarrow> s\<lparr>sy_K8s := a', sy_lastRevision := revision, sy_applied := True\<rparr>)))"

section \<open>What the objects promise\<close>

type_synonym peer_view = "string \<rightharpoonup> ManagedPeer"

definition new_peer :: "string \<Rightarrow> ManagedPeer" where
  "new_peer n = \<lparr>mo_Name = n, mo_Labels = [], mo_Deleting = False,
     mo_Spec = \<lparr>sp_ClusterID = '''', sp_PublicKey = '''', sp_Endpoint = '''', sp_PodCIDRs = [], sp_ServiceCIDRs = []\<rparr>\<rparr>"

definition managed :: "ManagedPeer \<Rightarrow> bool" where
  "managed mp \<longleftrightarrow> map_of (mo_Labels mp) managedByLabel = Some managedByValue"

lemma managed_stamp [simp]: "managed (stamp rc mp)"
  by (simp add: managed_def stamp_def put_label_def)

lemma stamp_fields [simp]: "mo_Name (stamp rc mp) = mo_Name mp" "mo_Deleting (stamp rc mp) = mo_Deleting mp"
  by (simp_all add: stamp_def)

definition applied_peer :: "RemotePeerConfig \<Rightarrow> peer_view \<Rightarrow> peer_view" where
  "applied_peer p V = (let n = SanitizeName (rc_ClusterID p) in V(n \<mapsto> stamp p (case V n of None \<Rightarrow> new_peer n | Some x \<Rightarrow> x)))"

definition peer_name :: "RemotePeerConfig \<Rightarrow> string" where
  "peer_name p = SanitizeName (rc_ClusterID p)"

definition spec_of :: "RemotePeerConfig \<Rightarrow> MeshPeerSpec" where
  "spec_of rc = \<lparr>sp_ClusterID = rc_ClusterID rc, sp_PublicKey = rc_PublicKey rc, sp_Endpoint = rc_Endpoint rc,
     sp_PodCIDRs = rc_PodCIDRs rc, sp_ServiceCIDRs = rc_ServiceCIDRs rc\<rparr>"

lemma spec_of_stamp: "mo_Spec (stamp p x) = spec_of p"
  by (simp add: stamp_def spec_of_def)

lemma applied_peer_at: "applied_peer p V n = (if n = peer_name p then Some (stamp p (case V n of None \<Rightarrow> new_peer n | Some x \<Rightarrow> x)) else V n)"
  by (auto simp: applied_peer_def peer_name_def Let_def)

text \<open>The last entry of the topology with a given name decides.\<close>

lemma fold_applied_peer:
  "case find (\<lambda>p. peer_name p = n) (rev ps) of
      None \<Rightarrow> fold applied_peer ps V n = V n
    | Some p \<Rightarrow> \<exists>x. fold applied_peer ps V n = Some x \<and> managed x \<and> mo_Spec x = spec_of p"
proof (induction ps rule: rev_induct)
  case (snoc p ps)
  have "fold applied_peer (ps @ [p]) V n = applied_peer p (fold applied_peer ps V) n" by simp
  also have "\<dots> = (if n = peer_name p then Some (stamp p (case fold applied_peer ps V n of None \<Rightarrow> new_peer n | Some x \<Rightarrow> x)) else fold applied_peer ps V n)"
    by (rule applied_peer_at)
  finally show ?case using snoc.IH by (cases "n = peer_name p") (auto simp: spec_of_stamp split: option.splits)
qed simp

definition gone :: "peer_view \<Rightarrow> string \<Rightarrow> bool" where
  "gone V n \<longleftrightarrow> (\<forall>x. V n = Some x \<longrightarrow> mo_Deleting x)"

locale managed_store =
  fixes cl :: "'a sync_client" and view :: "'a \<Rightarrow> peer_view"
  assumes named: "view a n = Some mp \<Longrightarrow> mo_Name mp = n"
    and Apply_law: "(\<And>x. mo_Name (g x) = mo_Name x) \<Longrightarrow>
      command_law view (sc_Apply cl n g) (\<lambda>V V'. V' = V(n \<mapsto> g (case V n of None \<Rightarrow> new_peer n | Some x \<Rightarrow> x)))"
    and List_law: "query_law view (sc_List cl (k, v)) (\<lambda>xs V. set xs = {x. \<exists>n. V n = Some x \<and> map_of (mo_Labels x) k = Some v})"
    and Delete_law: "sc_Delete cl n a = (r, a') \<Longrightarrow> (case r of
        Inl _ \<Rightarrow> view a' = view a
      | Inr _ \<Rightarrow> view a' = (view a)(n := None) \<or> (\<exists>x. view a n = Some x \<and> view a' = (view a)(n \<mapsto> x\<lparr>mo_Deleting := True\<rparr>)))"
begin

lemma upsert_view:
  "outcome (upsert cl p) a = (r, a') \<Longrightarrow> view a' = (case r of Inl _ \<Rightarrow> view a | Inr _ \<Rightarrow> applied_peer p (view a))"
  using command_lawD [OF Apply_law [of "stamp p" "SanitizeName (rc_ClusterID p)"]]
  by (auto simp: upsert_def outcome_errorf outcome_call applied_peer_def Let_def split: sum.splits prod.splits)

lemma upsertDesired_view:
  assumes "upsertDesired cl lid ps a = ((desired, ok), a')"
  shows "set desired \<subseteq> peer_name ` set (filter (foreign lid) ps) \<and>
    (ok \<longrightarrow> set desired = peer_name ` set (filter (foreign lid) ps) \<and> view a' = fold applied_peer (filter (foreign lid) ps) (view a)) \<and>
    (\<forall>n. n \<notin> peer_name ` set (filter (foreign lid) ps) \<longrightarrow> view a' n = view a n) \<and> (\<forall>n. view a n \<noteq> None \<longrightarrow> view a' n \<noteq> None)"
  using assms
proof (induction ps arbitrary: a desired ok a')
  case (Cons p ps)
  show ?case
  proof (cases "foreign lid p")
    case False
    then show ?thesis using Cons by simp
  next
    case True
    obtain x a1 where x: "outcome (upsert cl p) a = (x, a1)" by fastforce
    obtain ds k a2 where rest: "upsertDesired cl lid ps a1 = ((ds, k), a2)" by (metis surj_pair)
    note IH = Cons.IH [OF rest] and u = upsert_view [OF x]
    have new: "view a1 n \<noteq> None" if "view a n \<noteq> None" for n
      using u that by (auto simp: applied_peer_at split: sum.splits)
    have off: "view a1 n = view a n" if "n \<noteq> peer_name p" for n
      using u that by (auto simp: applied_peer_at split: sum.splits)
    show ?thesis
    proof (cases x)
      case (Inl e)
      then have "desired = ds" "\<not> ok" "a' = a2" using Cons.prems True x rest by auto
      then show ?thesis using IH new off True by auto
    next
      case (Inr v)
      then have "desired = peer_name p # ds" "ok = k" "a' = a2" using Cons.prems True x rest by (auto simp: peer_name_def)
      then show ?thesis using IH new off True u Inr by auto
    qed
  qed
qed simp

lemma prune_all:
  assumes "outcome (for_each (prune_peer cl desired) items) a = (r, a')"
    and "\<forall>mp \<in> set items. mo_Deleting mp \<longrightarrow> gone (view a) (mo_Name mp)"
  shows "(\<forall>n. view a' n = view a n \<or> gone (view a') n \<and> n \<in> mo_Name ` set items - set desired) \<and>
    (\<forall>n. gone (view a) n \<longrightarrow> gone (view a') n) \<and> (r = Inr () \<longrightarrow> (\<forall>mp \<in> set items. mo_Name mp \<in> set desired \<or> gone (view a') (mo_Name mp)))"
  using assms
proof (induction items arbitrary: a)
  case (Cons mp items)
  obtain x a1 where x: "outcome (prune_peer cl desired mp) a = (x, a1)" by fastforce
  have one: "(\<forall>n. view a1 n = view a n \<or> gone (view a1) n \<and> n = mo_Name mp \<and> n \<notin> set desired) \<and>
      (x = Inr () \<longrightarrow> mo_Name mp \<in> set desired \<or> gone (view a1) (mo_Name mp))"
  proof (cases "mo_Name mp \<in> set desired \<or> mo_Deleting mp")
    case True
    then show ?thesis using x Cons.prems(2) by (auto simp: prune_peer_def outcome_ret split: if_splits)
  next
    case False
    obtain d t where d: "sc_Delete cl (mo_Name mp) a = (d, t)" by fastforce
    then have "a1 = t" "\<forall>e. d = Inl e \<longrightarrow> (\<exists>e'. x = Inl e')"
      using x False by (auto simp: prune_peer_def run_simps split: sum.splits)
    then show ?thesis using Delete_law [OF d] False by (cases d) (auto simp: gone_def split: if_splits)
  qed
  have keep: "gone (view a1) n" if "gone (view a) n" for n using one that by (metis gone_def)
  show ?case
  proof (cases x)
    case (Inl e)
    then have "r = Inl e" "a' = a1" using Cons.prems(1) x by (simp_all add: outcome_seq)
    then show ?thesis using one keep by auto
  next
    case (Inr v)
    then have run: "outcome (for_each (prune_peer cl desired) items) a1 = (r, a')" using Cons.prems(1) x by (simp add: outcome_seq)
    have "\<forall>mp \<in> set items. mo_Deleting mp \<longrightarrow> gone (view a1) (mo_Name mp)" using Cons.prems(2) keep by simp
    note IH = Cons.IH [OF run this]
    show ?thesis
    proof (intro conjI allI impI)
      show "view a' n = view a n \<or> gone (view a') n \<and> n \<in> mo_Name ` set (mp # items) - set desired" for n
        using IH one by (metis DiffE DiffI imageI image_eqI insert_iff list.set_intros(1) list.set(2) set_subset_Cons subset_image_iff image_mono subsetD)
      show "gone (view a') n" if "gone (view a) n" for n using IH keep that by blast
      show "\<forall>mp \<in> set (mp # items). mo_Name mp \<in> set desired \<or> gone (view a') (mo_Name mp)" if "r = Inr ()"
        using IH one Inr that by auto
    qed
  qed
qed (simp add: outcome_ret)

lemma prune_view:
  assumes "outcome (prune cl desired) a = (r, a')"
  shows "(\<forall>n. view a' n = view a n \<or> gone (view a') n \<and> n \<notin> set desired \<and> (\<exists>x. view a n = Some x \<and> managed x)) \<and>
    (r = Inr () \<longrightarrow> (\<forall>n x. view a' n = Some x \<and> managed x \<longrightarrow> n \<in> set desired \<or> mo_Deleting x))"
proof -
  obtain l t where l: "sc_List cl (managedByLabel, managedByValue) a = (l, t)" by fastforce
  note q = query_lawD [OF List_law l]
  show ?thesis
  proof (cases l)
    case (Inl e)
    then show ?thesis using assms l q(1) by (auto simp: prune_def outcome_bind outcome_errorf outcome_call)
  next
    case (Inr items)
    have items: "set items = {x. \<exists>n. view a n = Some x \<and> managed x}" using q(2) [OF Inr] by (simp add: managed_def)
    have names: "mo_Name x = n" if "view a n = Some x" for n x using named that .
    have run: "outcome (for_each (prune_peer cl desired) items) t = (r, a')"
      using assms l Inr by (simp add: prune_def outcome_bind outcome_errorf outcome_call)
    have "\<forall>mp \<in> set items. mo_Deleting mp \<longrightarrow> gone (view t) (mo_Name mp)"
      using items names q(1) by (auto simp: gone_def)
    note P = prune_all [OF run this, unfolded q(1)]
    show ?thesis
    proof (intro conjI allI impI)
      show "view a' n = view a n \<or> gone (view a') n \<and> n \<notin> set desired \<and> (\<exists>x. view a n = Some x \<and> managed x)" for n
      proof (cases "view a' n = view a n")
        case False
        then have g: "gone (view a') n" "n \<notin> set desired" "n \<in> mo_Name ` set items" using P by blast+
        then obtain mp where mp: "mp \<in> set items" "n = mo_Name mp" by blast
        then obtain m where "view a m = Some mp" "managed mp" using items by blast
        then show ?thesis using g mp(2) names by auto
      qed simp
      show "n \<in> set desired \<or> mo_Deleting x" if "r = Inr ()" "view a' n = Some x \<and> managed x" for n x
      proof (cases "gone (view a') n")
        case True
        then show ?thesis using that by (simp add: gone_def)
      next
        case False
        then have "view a n = Some x" using P that(2) by metis
        then have "x \<in> set items" "mo_Name x = n" using items that(2) names by auto
        then show ?thesis using P that(1) False by blast
      qed
    qed
  qed
qed

lemma syncOnce_view:
  assumes "fetch (sy_CP s) = (Inr (peers, revision), c)" "\<not> (sy_applied s \<and> revision \<noteq> '''' \<and> revision = sy_lastRevision s)"
    and "syncOnce fetch cl s = s'" and ps: "ps = filter (foreign (sy_LocalClusterID s)) peers"
  shows "(\<forall>n x. view (sy_K8s s) n = Some x \<and> \<not> managed x \<and> n \<notin> peer_name ` set ps \<longrightarrow> view (sy_K8s s') n = Some x) \<and>
    (\<forall>n \<in> peer_name ` set ps. view (sy_K8s s) n \<noteq> None \<longrightarrow> view (sy_K8s s') n \<noteq> None) \<and>
    ((sy_lastRevision s', sy_applied s') = (sy_lastRevision s, sy_applied s) \<or>
     (sy_lastRevision s', sy_applied s') = (revision, True) \<and>
     (\<forall>n. case find (\<lambda>p. peer_name p = n) (rev ps) of
        Some p \<Rightarrow> \<exists>x. view (sy_K8s s') n = Some x \<and> managed x \<and> mo_Spec x = spec_of p
      | None \<Rightarrow> \<forall>x. view (sy_K8s s') n = Some x \<and> managed x \<longrightarrow> mo_Deleting x))"
proof -
  obtain desired ok a where up: "upsertDesired cl (sy_LocalClusterID s) peers (sy_K8s s) = ((desired, ok), a)" by (metis surj_pair)
  note U = upsertDesired_view [OF up, folded ps]
  show ?thesis
  proof (cases ok)
    case False
    then have "sy_K8s s' = a" "sy_lastRevision s' = sy_lastRevision s" "sy_applied s' = sy_applied s"
      using assms(1-3) up by (auto simp: syncOnce_def reportConflicts_def Let_def)
    then show ?thesis using U by auto
  next
    case True
    then have V: "set desired = peer_name ` set ps" "view a = fold applied_peer ps (view (sy_K8s s))" using U by auto
    obtain r a' where pr: "outcome (prune cl desired) a = (r, a')" by fastforce
    note P = prune_view [OF pr]
    have k8s: "sy_K8s s' = a'" using assms(1-3) up True pr by (auto simp: syncOnce_def reportConflicts_def Let_def split: sum.splits)
    have kept: "\<forall>n x. view (sy_K8s s) n = Some x \<and> \<not> managed x \<and> n \<notin> peer_name ` set ps \<longrightarrow> view a' n = Some x"
      using U P by (metis option.inject)
    have live: "\<forall>n \<in> peer_name ` set ps. view (sy_K8s s) n \<noteq> None \<longrightarrow> view a' n \<noteq> None"
      using U P V(1) by metis
    show ?thesis
    proof (cases r)
      case (Inl e)
      then have "sy_lastRevision s' = sy_lastRevision s" "sy_applied s' = sy_applied s"
        using assms(1-3) up True pr by (auto simp: syncOnce_def reportConflicts_def Let_def)
      then show ?thesis using kept live k8s by simp
    next
      case (Inr u)
      then have rev: "sy_lastRevision s' = revision" "sy_applied s' = True"
        using assms(1-3) up True pr by (auto simp: syncOnce_def reportConflicts_def Let_def)
      have "case find (\<lambda>p. peer_name p = n) (rev ps) of
          Some p \<Rightarrow> \<exists>x. view a' n = Some x \<and> managed x \<and> mo_Spec x = spec_of p
        | None \<Rightarrow> \<forall>x. view a' n = Some x \<and> managed x \<longrightarrow> mo_Deleting x" for n
      proof (cases "find (\<lambda>p. peer_name p = n) (rev ps)")
        case None
        then have "n \<notin> set desired" using V(1) by (auto simp: find_None_iff)
        then show ?thesis using P Inr None by auto
      next
        case (Some p)
        have "p \<in> set (rev ps) \<and> peer_name p = n" using Some unfolding find_Some_iff by (metis nth_mem)
        then have "n \<in> set desired" using V(1) by auto
        then have "view a' n = view a n" using P by blast
        then show ?thesis using fold_applied_peer [where n = n and ps = ps and V = "view (sy_K8s s)"] V(2) Some by simp
      qed
      then show ?thesis using kept live unfolding k8s rev by blast
    qed
  qed
qed

end

section \<open>A store in memory\<close>

record peer_store =
  po_peers :: "ManagedPeer list"
  po_faults :: "bool list"

definition po_view :: "peer_store \<Rightarrow> peer_view" where
  "po_view s = keyed_find mo_Name (po_peers s)"

definition po_step :: "(peer_store \<Rightarrow> 'x \<times> peer_store) \<Rightarrow> peer_store \<Rightarrow> 'x result \<times> peer_store" where
  "po_step f s = (let t = s\<lparr>po_faults := tl (po_faults s)\<rparr> in
     if po_faults s \<noteq> [] \<and> hd (po_faults s) then (Inl ''the server is currently unable to handle the request'', t)
     else case f t of (x, u) \<Rightarrow> (Inr x, u))"

definition po_put :: "string \<Rightarrow> ManagedPeer option \<Rightarrow> peer_store \<Rightarrow> peer_store" where
  "po_put n new s = s\<lparr>po_peers := keyed_put mo_Name n new (po_peers s)\<rparr>"

text \<open>Peers carry a finalizer when they are programmed, so that deletion only marks them.\<close>

definition mem_peers :: "(ManagedPeer \<Rightarrow> bool) \<Rightarrow> peer_store sync_client" where
  "mem_peers finalized = \<lparr>
     sc_Apply = (\<lambda>n g. po_step (\<lambda>s. ((), po_put n (Some (g (case keyed_find mo_Name (po_peers s) n of None \<Rightarrow> new_peer n | Some x \<Rightarrow> x))) s))),
     sc_List = (\<lambda>(k, v). po_step (\<lambda>s. (filter (\<lambda>x. map_of (mo_Labels x) k = Some v \<and> keyed_find mo_Name (po_peers s) (mo_Name x) = Some x) (po_peers s), s))),
     sc_Delete = (\<lambda>n. po_step (\<lambda>s. case keyed_find mo_Name (po_peers s) n of
         None \<Rightarrow> (False, s)
       | Some x \<Rightarrow> (True, po_put n (if finalized x then Some (x\<lparr>mo_Deleting := True\<rparr>) else None) s)))\<rparr>"

lemma po_view_faults [simp]: "po_view (s\<lparr>po_faults := l\<rparr>) = po_view s"
  by (simp add: po_view_def)

lemma po_step_cases:
  assumes "po_step f s = (r, s')"
  shows "(\<exists>e. r = Inl e \<and> po_view s' = po_view s) \<or> (\<exists>t x. po_view t = po_view s \<and> f t = (x, s') \<and> r = Inr x)"
  using assms po_view_faults by (auto simp: po_step_def Let_def split: if_splits prod.splits)

lemma po_view_put: "(\<And>x. new = Some x \<Longrightarrow> mo_Name x = n) \<Longrightarrow> po_view (po_put n new s) = (po_view s)(n := new)"
  by (simp add: po_view_def po_put_def keyed_find_put)

interpretation mem_sync: managed_store "mem_peers finalized" po_view
proof
  show "po_view a n = Some mp \<Longrightarrow> mo_Name mp = n" for a n mp by (auto simp: po_view_def dest: keyed_find_key)
next
  fix g :: "ManagedPeer \<Rightarrow> ManagedPeer" and n assume g: "\<And>x. mo_Name (g x) = mo_Name x"
  have nm: "mo_Name (g (case keyed_find mo_Name xs n of None \<Rightarrow> new_peer n | Some x \<Rightarrow> x)) = n" for xs
    using g by (cases "keyed_find mo_Name xs n") (auto simp: new_peer_def dest: keyed_find_key)
  show "command_law po_view (sc_Apply (mem_peers finalized) n g) (\<lambda>V V'. V' = V(n \<mapsto> g (case V n of None \<Rightarrow> new_peer n | Some x \<Rightarrow> x)))"
    unfolding command_law_def
  proof (intro allI impI)
    fix s r s' assume "sc_Apply (mem_peers finalized) n g s = (r, s')"
    from this [unfolded mem_peers_def sync_client.simps, THEN po_step_cases]
    show "case r of Inl _ \<Rightarrow> po_view s' = po_view s | Inr _ \<Rightarrow> po_view s' = (po_view s)(n \<mapsto> g (case po_view s n of None \<Rightarrow> new_peer n | Some x \<Rightarrow> x))"
    proof (elim disjE exE conjE)
      fix t x assume t: "po_view t = po_view s" "r = Inr x" "((), po_put n (Some (g (case keyed_find mo_Name (po_peers t) n of None \<Rightarrow> new_peer n | Some x \<Rightarrow> x))) t) = (x, s')"
      let ?y = "g (case po_view t n of None \<Rightarrow> new_peer n | Some x \<Rightarrow> x)"
      have "po_view (po_put n (Some ?y) t) = (po_view t)(n \<mapsto> ?y)"
        by (rule po_view_put) (use nm [of "po_peers t"] in \<open>auto simp: po_view_def\<close>)
      then show ?thesis using t by (auto simp: po_view_def)
    qed simp
  qed
next
  fix k v
  show "query_law po_view (sc_List (mem_peers finalized) (k, v)) (\<lambda>xs V. set xs = {x. \<exists>n. V n = Some x \<and> map_of (mo_Labels x) k = Some v})"
    unfolding query_law_def
  proof (intro allI impI)
    fix s r s' assume "sc_List (mem_peers finalized) (k, v) s = (r, s')"
    from this [unfolded mem_peers_def sync_client.simps prod.case, THEN po_step_cases]
    show "po_view s' = po_view s \<and> (\<forall>xs. r = Inr xs \<longrightarrow> set xs = {x. \<exists>n. po_view s n = Some x \<and> map_of (mo_Labels x) k = Some v})"
    proof (elim disjE exE conjE)
      fix t xs assume t: "po_view t = po_view s" "(filter (\<lambda>x. map_of (mo_Labels x) k = Some v \<and> keyed_find mo_Name (po_peers t) (mo_Name x) = Some x) (po_peers t), t) = (xs, s')" "r = Inr xs"
      have "po_view s n = Some x \<Longrightarrow> mo_Name x = n \<and> x \<in> set (po_peers t)" for n x
        using t(1) keyed_find_key unfolding po_view_def by metis
      then show ?thesis using t by (auto simp: po_view_def)
    qed simp
  qed
next
  fix n a r a' assume "sc_Delete (mem_peers finalized) n a = (r, a')"
  from this [unfolded mem_peers_def sync_client.simps, THEN po_step_cases]
  show "case r of Inl _ \<Rightarrow> po_view a' = po_view a
      | Inr _ \<Rightarrow> po_view a' = (po_view a)(n := None) \<or> (\<exists>x. po_view a n = Some x \<and> po_view a' = (po_view a)(n \<mapsto> x\<lparr>mo_Deleting := True\<rparr>))"
  proof (elim disjE exE conjE)
    fix t x assume t: "po_view t = po_view a" "r = Inr x" "(case keyed_find mo_Name (po_peers t) n of None \<Rightarrow> (False, t)
       | Some x \<Rightarrow> (True, po_put n (if finalized x then Some (x\<lparr>mo_Deleting := True\<rparr>) else None) t)) = (x, a')"
    show ?thesis
    proof (cases "po_view t n")
      case None
      then have "a' = t" using t(3) by (simp add: po_view_def)
      then show ?thesis using None t(1,2) by (auto simp: fun_upd_idem)
    next
      case (Some mp)
      then have "a' = po_put n (if finalized mp then Some (mp\<lparr>mo_Deleting := True\<rparr>) else None) t" "mo_Name mp = n"
        using t(3) by (auto simp: po_view_def dest: keyed_find_key)
      then have "po_view a' = (po_view t)(n := if finalized mp then Some (mp\<lparr>mo_Deleting := True\<rparr>) else None)"
        by (auto intro!: po_view_put split: if_splits)
      then show ?thesis using Some t(1,2) by auto
    qed
  qed simp
qed

section \<open>Properties\<close>

text \<open>C8. A pass of the topology syncer converges and never harms. When the fetched topology has
  to be applied, then whatever calls fail: a peer that the syncer does not manage and whose
  name is not in the topology is unchanged, and no object of a cluster in the topology
  disappears. Either the recorded revision is unchanged, so that the next pass runs again, or
  it is the fetched one and the stored peers are those of the topology: each listed cluster
  (the last entry of a name, without the local cluster) has its object with the advertised
  specification, and every other managed peer is gone or being deleted.\<close>

theorem syncOnce_converges:
  assumes "managed_store cl view" "fetch (sy_CP s) = (Inr (peers, revision), c)"
    and "\<not> (sy_applied s \<and> revision \<noteq> '''' \<and> revision = sy_lastRevision s)" "syncOnce fetch cl s = s'"
    and "ps = filter (foreign (sy_LocalClusterID s)) peers"
  shows "(\<forall>n x. view (sy_K8s s) n = Some x \<and> \<not> managed x \<and> n \<notin> peer_name ` set ps \<longrightarrow> view (sy_K8s s') n = Some x) \<and>
    (\<forall>n \<in> peer_name ` set ps. view (sy_K8s s) n \<noteq> None \<longrightarrow> view (sy_K8s s') n \<noteq> None) \<and>
    ((sy_lastRevision s', sy_applied s') = (sy_lastRevision s, sy_applied s) \<or>
     (sy_lastRevision s', sy_applied s') = (revision, True) \<and>
     (\<forall>n. case find (\<lambda>p. peer_name p = n) (rev ps) of
        Some p \<Rightarrow> \<exists>x. view (sy_K8s s') n = Some x \<and> managed x \<and> mo_Spec x = spec_of p
      | None \<Rightarrow> \<forall>x. view (sy_K8s s') n = Some x \<and> managed x \<longrightarrow> mo_Deleting x))"
  by (rule managed_store.syncOnce_view [OF assms])

text \<open>A control plane that answers a list of topologies in turn.\<close>

definition replay :: "(RemotePeerConfig list \<times> string) list \<Rightarrow> (RemotePeerConfig list \<times> string) result \<times> (RemotePeerConfig list \<times> string) list" where
  "replay w = (case w of [] \<Rightarrow> (Inl ''unreachable'', []) | x # xs \<Rightarrow> (Inr x, xs))"

definition east :: RemotePeerConfig where
  "east = \<lparr>rc_ClusterID = ''east'', rc_PublicKey = ''k'', rc_Endpoint = ''e:51820'', rc_PodCIDRs = [''10.1.0.0/16''], rc_ServiceCIDRs = []\<rparr>"

definition hand_made :: ManagedPeer where
  "hand_made = \<lparr>mo_Name = ''east'', mo_Labels = [(''team'', ''net'')], mo_Deleting = False,
     mo_Spec = \<lparr>sp_ClusterID = ''east'', sp_PublicKey = ''own'', sp_Endpoint = ''own:51820'', sp_PodCIDRs = [''10.9.0.0/16''], sp_ServiceCIDRs = []\<rparr>\<rparr>"

definition fresh_syncer :: "((RemotePeerConfig list \<times> string) list, peer_store) Syncer" where
  "fresh_syncer = \<lparr>sy_CP = [([east], ''r1''), ([], ''r2'')], sy_K8s = \<lparr>po_peers = [hand_made], po_faults = []\<rparr>, sy_LocalClusterID = ''west'',
     sy_OnConflicts = [], sy_lastRevision = '''', sy_applied = False\<rparr>"

lemmas sync_eval = syncOnce_def replay_def reportConflicts_def foreign_def upsert_def run_simps mem_peers_def po_step_def po_put_def
  keyed_find_def keyed_put_def stamp_def put_label_def prune_def prune_peer_def managedByLabel_def managedByValue_def

lemma east_name: "SanitizeName ''east'' = ''east''"
  by (simp add: SanitizeName_def sanitize_rune_def maxSanitizedNameLen_def go_eval)

lemma first_pass:
  "sy_K8s (syncOnce replay (mem_peers (\<lambda>_. False)) fresh_syncer) = \<lparr>po_peers = [stamp east hand_made], po_faults = []\<rparr> \<and>
   sy_lastRevision (syncOnce replay (mem_peers (\<lambda>_. False)) fresh_syncer) = ''r1''"
  by (simp add: sync_eval fresh_syncer_def east_def hand_made_def east_name)

theorem syncOnce_converges_witness:
  "\<exists>s'. syncOnce replay (mem_peers (\<lambda>_. False)) fresh_syncer = s' \<and> sy_lastRevision s' = ''r1'' \<and>
     (\<exists>x. po_view (sy_K8s s') ''east'' = Some x \<and> managed x \<and> mo_Spec x = spec_of east)"
proof -
  let ?s' = "syncOnce replay (mem_peers (\<lambda>_. False)) fresh_syncer"
  have f: "replay (sy_CP fresh_syncer) = (Inr ([east], ''r1''), [([], ''r2'')])" by (simp add: replay_def fresh_syncer_def)
  have n: "\<not> (sy_applied fresh_syncer \<and> ''r1'' \<noteq> '''' \<and> ''r1'' = sy_lastRevision fresh_syncer)" by (simp add: fresh_syncer_def)
  have ps: "[east] = filter (foreign (sy_LocalClusterID fresh_syncer)) [east]" by (simp add: foreign_def east_def fresh_syncer_def)
  have nm: "peer_name east = ''east''" by (simp add: peer_name_def east_def east_name)
  have "sy_lastRevision fresh_syncer \<noteq> ''r1''" by (simp add: fresh_syncer_def)
  then have "\<forall>n. case find (\<lambda>p. peer_name p = n) (rev [east]) of
      Some p \<Rightarrow> \<exists>x. po_view (sy_K8s ?s') n = Some x \<and> managed x \<and> mo_Spec x = spec_of p
    | None \<Rightarrow> \<forall>x. po_view (sy_K8s ?s') n = Some x \<and> managed x \<longrightarrow> mo_Deleting x"
    using syncOnce_converges [where fetch = replay and s = fresh_syncer, OF mem_sync.managed_store_axioms [of "\<lambda>_. False"] f n refl ps]
      first_pass [THEN conjunct2] by (elim conjE disjE) simp_all
  then show ?thesis using nm first_pass by (auto dest!: spec [of _ "''east''"])
qed


end
