(* ===== verification/Mesh_Analysis.thy ===== *)
theory Mesh_Analysis
  imports Meshfw_Plan Topology_Conflicts
begin

text \<open>
  The read-only analyses over declared state: the expected reachability of the peers
  (\<^verbatim>\<open>pkg/reach\<close>), the impact of a policy or peer change (\<^verbatim>\<open>pkg/impact\<close>) and the connectivity
  report (\<^verbatim>\<open>pkg/slo\<close>), and how their verdicts relate to the firewall chain and the topology
  validation that the data plane uses.
\<close>

section \<open>Expected reachability\<close>

text \<open>\<^verbatim>\<open>pkg/reach\<close>: for each peer, whether the compiled policies let it reach the protected
  destinations.\<close>

datatype reach_status = StatusReachable | StatusBlocked | StatusDegraded | StatusUnreachable

record DestReach =
  dr_Dest :: string
  dr_Allowed :: bool

record Reachability =
  rb_Cluster :: string
  rb_Status :: reach_status
  rb_Reason :: string
  rb_Dests :: "DestReach list"

record ReachPeer =
  rp_ClusterID :: string
  rp_Connected :: bool
  rp_Conflict :: bool
  rp_CIDRs :: "string list"

definition anySources :: "string list" where
  "anySources = ['''', ''0.0.0.0/0'', ''::/0'']"

definition peerAllowed :: "string list \<Rightarrow> Access list \<Rightarrow> string \<Rightarrow> bool" where
  "peerAllowed cidrs accepts dest = list_ex (\<lambda>a. \<not> (ac_Dest a \<noteq> '''' \<and> ac_Dest a \<noteq> dest) \<and>
     (ac_Source a \<in> set anySources \<or> ac_Source a \<in> set cidrs)) accepts"

definition destLabel :: "string \<Rightarrow> string" where
  "destLabel d = (if d = '''' then ''<all mesh ingress>'' else d)"

definition reachFor :: "ReachPeer \<Rightarrow> Access list \<Rightarrow> string list \<Rightarrow> Reachability" where
  "reachFor p accepts protected =
     (let r = (\<lambda>st why ds. \<lparr>rb_Cluster = rp_ClusterID p, rb_Status = st, rb_Reason = why, rb_Dests = ds\<rparr>) in
      if \<not> rp_Connected p then r StatusUnreachable
        ''peer is not connected; the tunnel is not established, so no traffic flows regardless of policy'' []
      else if rp_Conflict p then r StatusDegraded
        ''peer is connected but a CIDR overlap makes its routing ambiguous; resolve the conflict (renumber or enable remap) before reachability is reliable'' []
      else if protected = [] then r StatusReachable
        ''connected and no MeshNetworkPolicy restricts ingress on this cluster; open by default'' []
      else let dests = map (\<lambda>d. \<lparr>dr_Dest = destLabel d, dr_Allowed = peerAllowed (rp_CIDRs p) accepts d\<rparr>) protected;
               allowed = length (filter dr_Allowed dests) in
        if allowed = 0 then r StatusBlocked
          ''connected, but every protected destination is default-deny and no ingress rule permits this cluster'' dests
        else if allowed = length protected then r StatusReachable
          ''connected and mesh policy permits this cluster to every protected destination'' dests
        else r StatusReachable
          ''connected and mesh policy permits this cluster to some protected destinations; see the per-destination breakdown for the rest'' dests)"

definition reach_Plan :: "ReachPeer list \<Rightarrow> Policy list \<Rightarrow> (string \<Rightarrow> string list) \<Rightarrow> Reachability list" where
  "reach_Plan peers policies clusterCIDRs =
     (let decisions = Interpret (BuildFirewall policies clusterCIDRs);
          protected = sorted_set (de_Protected decisions)
      in sort_key rb_Cluster (map (\<lambda>p. reachFor p (de_Accepts decisions) protected) peers))"

text \<open>The verdicts against the chain. Sources are compared as text, so the comparison decides
  about packets only if no other source of the policies covers an address of the peer.\<close>

definition sources_aligned :: "ReachPeer \<Rightarrow> Policy list \<Rightarrow> (string \<Rightarrow> string list) \<Rightarrow> bool" where
  "sources_aligned p policies clusterCIDRs \<longleftrightarrow> (\<forall>pol \<in> set policies. \<forall>ing \<in> set (pc_Ingress pol). \<forall>s \<in> set (resolveSources (ir_From ing) clusterCIDRs).
     s \<in> set anySources \<or> s \<in> set (rp_CIDRs p) \<or> (\<forall>c \<in> set (rp_CIDRs p). \<forall>a. \<not> (cidr_matches s a \<and> cidr_matches c a)))"

definition from_peer :: "ReachPeer \<Rightarrow> packet \<Rightarrow> bool" where
  "from_peer p pk \<longleftrightarrow> (\<exists>c \<in> set (rp_CIDRs p). cidr_matches c (pk_src pk))"

lemma reachFor_fields [simp]: "rb_Cluster (reachFor p accepts protected) = rp_ClusterID p"
  by (simp add: reachFor_def Let_def)

lemma reachFor_blocked:
  "rb_Status (reachFor p accepts protected) = StatusBlocked \<longleftrightarrow>
     rp_Connected p \<and> \<not> rp_Conflict p \<and> protected \<noteq> [] \<and> (\<forall>d \<in> set protected. \<not> peerAllowed (rp_CIDRs p) accepts d)"
  by (auto simp: reachFor_def Let_def filter_empty_conv)

lemma access_origin:
  assumes "api_protocols policies" "a \<in> set (de_Accepts (Interpret (BuildFirewall policies clusterCIDRs)))"
  shows "ac_Dest a \<in> set (de_Protected (Interpret (BuildFirewall policies clusterCIDRs))) \<and>
    (\<exists>pol \<in> set policies. \<exists>ing \<in> set (pc_Ingress pol). ac_Source a \<in> set (resolveSources (ir_From ing) clusterCIDRs) \<and> isIPv4CIDR (ac_Source a))"
  using assms(2) unfolding Interpret_sets [OF assms(1)]
  by (auto simp: policy_keys_def ingress_keys_def port_keys_def access_of_def split: if_splits) blast+

lemma blocked_drops:
  assumes "api_protocols policies" "sources_aligned p policies clusterCIDRs" "from_peer p pk" "\<not> pk_established pk"
    and "reachFor p (de_Accepts (Interpret (BuildFirewall policies clusterCIDRs))) (sorted_set (de_Protected (Interpret (BuildFirewall policies clusterCIDRs)))) = r"
    and "rb_Status r = StatusBlocked"
  shows "\<not> (\<exists>a \<in> set (de_Accepts (Interpret (BuildFirewall policies clusterCIDRs))). access_allows a pk)"
proof
  let ?D = "Interpret (BuildFirewall policies clusterCIDRs)"
  assume "\<exists>a \<in> set (de_Accepts ?D). access_allows a pk"
  then obtain a where a: "a \<in> set (de_Accepts ?D)" "access_allows a pk" by blast
  note org = access_origin [OF assms(1) a(1)]
  have "\<not> peerAllowed (rp_CIDRs p) (de_Accepts ?D) (ac_Dest a)"
    using assms(5,6) reachFor_blocked org by auto
  then have no: "ac_Source a \<notin> set anySources" "ac_Source a \<notin> set (rp_CIDRs p)"
    using a(1) by (auto simp: peerAllowed_def list_ex_iff)
  then have "cidr_matches (ac_Source a) (pk_src pk)" using a(2) by (auto simp: access_allows_def anySources_def)
  moreover obtain c where "c \<in> set (rp_CIDRs p)" "cidr_matches c (pk_src pk)" using assms(3) by (auto simp: from_peer_def)
  ultimately show False using org assms(2) no unfolding sources_aligned_def by blast
qed

lemma allowed_accepts:
  assumes "api_protocols policies" "peerAllowed (rp_CIDRs p) (de_Accepts (Interpret (BuildFirewall policies clusterCIDRs))) d"
  shows "\<exists>s proto port. (s \<in> set anySources \<or> s \<in> set (rp_CIDRs p)) \<and> (\<forall>pk. cidr_matches s (pk_src pk) \<and> dest_matches d pk \<and>
     (proto = '''' \<or> proto = pk_proto pk \<and> port = itoa (pk_dport pk)) \<longrightarrow> chain_verdict (fw_chain (BuildFirewall policies clusterCIDRs)) pk = VAccept)"
proof -
  let ?D = "Interpret (BuildFirewall policies clusterCIDRs)"
  obtain a where a: "a \<in> set (de_Accepts ?D)" "ac_Dest a = '''' \<or> ac_Dest a = d" "ac_Source a \<in> set anySources \<or> ac_Source a \<in> set (rp_CIDRs p)"
    using assms(2) by (auto simp: peerAllowed_def list_ex_iff)
  have "chain_verdict (fw_chain (BuildFirewall policies clusterCIDRs)) pk = VAccept"
    if "cidr_matches (ac_Source a) (pk_src pk)" "dest_matches d pk" "ac_Protocol a = '''' \<or> ac_Protocol a = pk_proto pk \<and> ac_Port a = itoa (pk_dport pk)" for pk
  proof -
    have "access_allows a pk" using that a(2) by (auto simp: access_allows_def dest_matches_def)
    then show ?thesis using a(1) by (auto simp: Interpret_verdict [OF assms(1), symmetric] decision_verdict_def)
  qed
  then show ?thesis using a(3) by blast
qed


definition db_policy :: Policy where
  "db_policy = \<lparr>pc_Name = ''db'', pc_Destinations = [''10.0.0.0/8''],
     pc_Ingress = [\<lparr>ir_From = [\<lparr>ps_ClusterIDs = [], ps_CIDRs = [''11.0.0.0/8'']\<rparr>], ir_Ports = []\<rparr>]\<rparr>"

definition reach_peer :: "string \<Rightarrow> ReachPeer" where
  "reach_peer c = \<lparr>rp_ClusterID = ''b'', rp_Connected = True, rp_Conflict = False, rp_CIDRs = [c]\<rparr>"

definition db_packet :: packet where
  "db_packet = \<lparr>pk_src = 0x0b010001, pk_dst = 0x0a000001, pk_proto = ''tcp'', pk_dport = 5432, pk_established = False\<rparr>"

lemma db_protocols: "api_protocols [db_policy]"
  by (simp add: api_protocols_def db_policy_def)

lemma db_ranges: "isIPv4CIDR ''10.0.0.0/8''" "isIPv4CIDR ''11.0.0.0/8''"
  by (simp_all add: isIPv4CIDR_def go_eval)

lemma db_firewall: "BuildFirewall [db_policy] cl = \<lparr>rs_Rules = [\<lparr>ru_Chain = FWChain, ru_Args = conntrackArgs\<rparr>,
     \<lparr>ru_Chain = FWChain, ru_Args = acceptArgs ''11.0.0.0/8'' ''10.0.0.0/8'' '''' ''''\<rparr>,
     \<lparr>ru_Chain = FWChain, ru_Args = dropArgs ''10.0.0.0/8''\<rparr>], rs_Skipped = []\<rparr>"
  by (simp add: BuildFirewall_def addPolicy_def addIngress_def addAccept_def db_policy_def db_ranges ruleset_def Let_def dedupe_def go_eval)

lemma db_decisions: "Interpret (BuildFirewall [db_policy] cl) =
   \<lparr>de_Accepts = [\<lparr>ac_Source = ''11.0.0.0/8'', ac_Dest = ''10.0.0.0/8'', ac_Protocol = '''', ac_Port = ''''\<rparr>], de_Protected = [''10.0.0.0/8'']\<rparr>"
  by (simp add: db_firewall Interpret_def interpret_rule_def conntrackArgs_def acceptArgs_def dropArgs_def hasArg_def Let_def)

lemma db_accepts: "chain_verdict (fw_chain (BuildFirewall [db_policy] cl)) db_packet = VAccept"
  by (simp add: db_firewall fw_chain_def conntrackArgs_def acceptArgs_def cidr_matches_def parse_net_def db_packet_def go_eval)


text \<open>C39. The matrix can call a peer blocked that the firewall lets in: the sources of the rules
  are compared with the ranges of the peer as text, so a rule for a larger range is missed.
  The peer with range 11.1.0.0/16 is reported as blocked under a policy that admits
  11.0.0.0/8, and its packets are accepted.\<close>

theorem reach_blocks_accepted_peer:
  "(\<exists>r. reach_Plan [reach_peer ''11.1.0.0/16''] [db_policy] (\<lambda>_. []) = [r] \<and> rb_Status r = StatusBlocked) \<and>
   from_peer (reach_peer ''11.1.0.0/16'') db_packet \<and>
   chain_verdict (fw_chain (BuildFirewall [db_policy] (\<lambda>_. []))) db_packet = VAccept"
proof (intro conjI)
  show "\<exists>r. reach_Plan [reach_peer ''11.1.0.0/16''] [db_policy] (\<lambda>_. []) = [r] \<and> rb_Status r = StatusBlocked"
    by (simp add: reach_Plan_def db_decisions reachFor_def reach_peer_def peerAllowed_def anySources_def)
  show "from_peer (reach_peer ''11.1.0.0/16'') db_packet"
    by (simp add: from_peer_def reach_peer_def cidr_matches_def parse_net_def db_packet_def go_eval)
qed (rule db_accepts)

section \<open>Impact of a change\<close>

text \<open>\<^verbatim>\<open>pkg/impact\<close>: what a proposed set of policies would expose and deny, as a difference of
  the decisions read back from the two compiled chains. The exposures of the code are the
  accesses of \<^verbatim>\<open>meshfw\<close>; a Go map with them as keys is a list without repetitions.\<close>

definition orAny :: "string \<Rightarrow> string" where
  "orAny s = (if s = '''' then ''any'' else s)"

definition arrow :: string where
  "arrow = '' '' @ [char_of (226 :: nat), char_of (134 :: nat), char_of (146 :: nat)] @ '' ''"

definition Exposure_String :: "Access \<Rightarrow> string" where
  "Exposure_String e = orAny (ac_Source e) @ arrow @ orAny (ac_Dest e) @ '' ('' @
     (if ac_Port e \<noteq> '''' then ac_Protocol e @ ''/'' @ ac_Port e else ''all ports'') @ '')''"

record PolicyImpact =
  pi_NewlyExposed :: "Access list"
  pi_NewlyDenied :: "Access list"
  pi_NewlyProtected :: "string list"
  pi_NoLongerProtected :: "string list"
  pi_Warnings :: "string list"
  pi_Skipped :: "string list"

definition diffExposures :: "Access list \<Rightarrow> Access list \<Rightarrow> Access list" where
  "diffExposures a b = sort_key Exposure_String (filter (\<lambda>e. e \<notin> set a) (remdups b))"

definition diffStrings :: "string list \<Rightarrow> string list \<Rightarrow> string list" where
  "diffStrings a b = sort (filter (\<lambda>s. s \<notin> set a) (remdups b))"

definition dedupeStrings :: "string list \<Rightarrow> string list" where
  "dedupeStrings xs = remdups_adj xs"

definition policyWarnings :: "Policy list \<Rightarrow> (string \<rightharpoonup> string list) \<Rightarrow> string list" where
  "policyWarnings policies clusterCIDRs = dedupeStrings (sort (concat (map (\<lambda>p.
     let name = (if pc_Name p = '''' then ''<unnamed>'' else pc_Name p) in
     (if pc_Destinations p = [] then [''policy '' @ quote name @ '' has no destinations: it makes ALL mesh ingress default-deny on this cluster''] else []) @
     concat (map (\<lambda>ing. concat (map (\<lambda>sel.
       map (\<lambda>c. ''policy '' @ quote name @ '' allows from '' @ c @ '': any source on the mesh is permitted'')
         (filter (\<lambda>c. c = ''0.0.0.0/0'' \<or> c = ''::/0'') (ps_CIDRs sel)) @
       map (\<lambda>cid. ''policy '' @ quote name @ '' references cluster '' @ quote cid @
          '' which is not known to the topology: it resolves to no sources (the rule allows nothing)'')
         (filter (\<lambda>cid. clusterCIDRs cid = None) (ps_ClusterIDs sel))) (ir_From ing))) (pc_Ingress p))) policies)))"

definition AnalyzePolicyChange :: "Policy list \<Rightarrow> Policy list \<Rightarrow> (string \<rightharpoonup> string list) \<Rightarrow> PolicyImpact" where
  "AnalyzePolicyChange current proposed clusterCIDRs =
     (let cidrs = (\<lambda>cid. case clusterCIDRs cid of None \<Rightarrow> [] | Some cs \<Rightarrow> cs);
          cur = Interpret (BuildFirewall current cidrs);
          prop = Interpret (BuildFirewall proposed cidrs)
      in \<lparr>pi_NewlyExposed = diffExposures (de_Accepts cur) (de_Accepts prop),
          pi_NewlyDenied = diffExposures (de_Accepts prop) (de_Accepts cur),
          pi_NewlyProtected = diffStrings (de_Protected cur) (de_Protected prop),
          pi_NoLongerProtected = diffStrings (de_Protected prop) (de_Protected cur),
          pi_Warnings = policyWarnings proposed clusterCIDRs,
          pi_Skipped = rs_Skipped (BuildFirewall proposed cidrs)\<rparr>)"

definition passes_packet :: "Policy list \<Rightarrow> (string \<Rightarrow> string list) \<Rightarrow> packet \<Rightarrow> bool" where
  "passes_packet policies cidrs pk \<longleftrightarrow> chain_verdict (fw_chain (BuildFirewall policies cidrs)) pk \<noteq> VDrop"

lemma set_diffs [simp]:
  "set (diffExposures a b) = set b - set a" "set (diffStrings xs ys) = set ys - set xs"
  by (auto simp: diffExposures_def diffStrings_def)

lemma opened_by:
  assumes "api_protocols current" "api_protocols proposed" "\<not> passes_packet current cidrs pk" "passes_packet proposed cidrs pk"
  shows "(\<exists>e \<in> set (de_Accepts (Interpret (BuildFirewall proposed cidrs))) - set (de_Accepts (Interpret (BuildFirewall current cidrs))). access_allows e pk) \<or>
    (\<exists>d \<in> set (de_Protected (Interpret (BuildFirewall current cidrs))) - set (de_Protected (Interpret (BuildFirewall proposed cidrs))). dest_matches d pk)"
  using assms(3,4) unfolding passes_packet_def Interpret_verdict [OF assms(1), symmetric] Interpret_verdict [OF assms(2), symmetric]
  by (auto simp: decision_verdict_def split: if_splits)

text \<open>C13. The dry run of a policy change misses nothing. If a packet would be dropped under the
  current policies and pass under the proposed ones, then the report lists, as newly exposed,
  an access that admits the packet, or, as no longer protected, a destination of the packet;
  and if a packet passes now and would be dropped, the report lists a denied access that
  admits it or a newly protected destination of it.\<close>

theorem AnalyzePolicyChange_complete:
  assumes "api_protocols current" "api_protocols proposed"
    and "cidrs = (\<lambda>cid. case clusterCIDRs cid of None \<Rightarrow> [] | Some cs \<Rightarrow> cs)"
  shows "(\<not> passes_packet current cidrs pk \<and> passes_packet proposed cidrs pk \<longrightarrow>
       (\<exists>e \<in> set (pi_NewlyExposed (AnalyzePolicyChange current proposed clusterCIDRs)). access_allows e pk) \<or>
       (\<exists>d \<in> set (pi_NoLongerProtected (AnalyzePolicyChange current proposed clusterCIDRs)). dest_matches d pk)) \<and>
    (passes_packet current cidrs pk \<and> \<not> passes_packet proposed cidrs pk \<longrightarrow>
       (\<exists>e \<in> set (pi_NewlyDenied (AnalyzePolicyChange current proposed clusterCIDRs)). access_allows e pk) \<or>
       (\<exists>d \<in> set (pi_NewlyProtected (AnalyzePolicyChange current proposed clusterCIDRs)). dest_matches d pk))"
  using opened_by [OF assms(1,2)] opened_by [OF assms(2,1)]
  by (simp add: AnalyzePolicyChange_def Let_def assms(3))

lemma db_closed: "chain_verdict (fw_chain (BuildFirewall [db_policy\<lparr>pc_Ingress := []\<rparr>] cl)) db_packet = VDrop"
proof -
  have "BuildFirewall [db_policy\<lparr>pc_Ingress := []\<rparr>] cl = \<lparr>rs_Rules = [\<lparr>ru_Chain = FWChain, ru_Args = conntrackArgs\<rparr>,
     \<lparr>ru_Chain = FWChain, ru_Args = dropArgs ''10.0.0.0/8''\<rparr>], rs_Skipped = []\<rparr>"
    by (simp add: BuildFirewall_def addPolicy_def db_policy_def db_ranges ruleset_def Let_def dedupe_def go_eval)
  then show ?thesis by (simp add: fw_chain_def conntrackArgs_def dropArgs_def cidr_matches_def parse_net_def db_packet_def go_eval)
qed

theorem AnalyzePolicyChange_complete_witness:
  "\<not> passes_packet [db_policy\<lparr>pc_Ingress := []\<rparr>] (\<lambda>_. []) db_packet \<and> passes_packet [db_policy] (\<lambda>_. []) db_packet \<and>
   ((\<exists>e \<in> set (pi_NewlyExposed (AnalyzePolicyChange [db_policy\<lparr>pc_Ingress := []\<rparr>] [db_policy] Map.empty)). access_allows e db_packet) \<or>
    (\<exists>d \<in> set (pi_NoLongerProtected (AnalyzePolicyChange [db_policy\<lparr>pc_Ingress := []\<rparr>] [db_policy] Map.empty)). dest_matches d db_packet))"
proof -
  have p: "api_protocols [db_policy\<lparr>pc_Ingress := []\<rparr>]" by (simp add: api_protocols_def)
  have c: "(\<lambda>_. []) = (\<lambda>cid. case Map.empty cid of None \<Rightarrow> [] | Some cs \<Rightarrow> cs)" by simp
  have v: "\<not> passes_packet [db_policy\<lparr>pc_Ingress := []\<rparr>] (\<lambda>_. []) db_packet" "passes_packet [db_policy] (\<lambda>_. []) db_packet"
    by (simp_all add: passes_packet_def db_closed db_accepts)
  then show ?thesis using AnalyzePolicyChange_complete [OF p db_protocols c] by blast
qed

record PeerImpact =
  pm_Phase :: MeshPeerPhase
  pm_Routable :: "string list"
  pm_Withheld :: "string list"
  pm_Dangerous :: "string list"
  pm_NewConflicts :: "string list"
  pm_Message :: string

definition conflictSet :: "TopologyConflict list \<Rightarrow> string set" where
  "conflictSet cs = set (map TopologyConflict_String cs)"

definition identity_of :: "MeshPeerSpec \<Rightarrow> PeerIdentity" where
  "identity_of spec = \<lparr>pi_ClusterID = sp_ClusterID spec, pi_PublicKey = sp_PublicKey spec, pi_Endpoint = sp_Endpoint spec, pi_CIDRs = AllCIDRs spec\<rparr>"

definition AnalyzePeerChange :: "MeshPeerSpec \<Rightarrow> string list \<Rightarrow> PeerIdentity list \<Rightarrow> PeerImpact" where
  "AnalyzePeerChange proposed localCIDRs existing =
     (let plan = PlanPeer proposed localCIDRs;
          before = conflictSet (DetectTopologyConflicts existing);
          after = DetectTopologyConflicts (existing @ [identity_of proposed])
      in \<lparr>pm_Phase = pl_Phase plan, pm_Routable = pl_RoutableCIDRs plan, pm_Withheld = pl_ConflictingCIDRs plan,
          pm_Dangerous = DangerousCIDRs (AllCIDRs proposed),
          pm_NewConflicts = sort (filter (\<lambda>s. s \<notin> before) (map TopologyConflict_String after)), pm_Message = pl_Message plan\<rparr>)"

definition impact_Safe :: "PeerImpact \<Rightarrow> bool" where
  "impact_Safe p \<longleftrightarrow> pm_Withheld p = [] \<and> pm_Dangerous p = [] \<and> pm_NewConflicts p = []"

text \<open>A peer change that is called safe keeps a sound topology sound, and every range it
  advertises is routed.\<close>

lemma AnalyzePeerChange_safe:
  assumes "topology_sound existing" "impact_Safe (AnalyzePeerChange proposed localCIDRs existing)"
  shows "topology_sound (existing @ [identity_of proposed])"
    "pm_Phase (AnalyzePeerChange proposed localCIDRs existing) = Connected"
    "pm_Routable (AnalyzePeerChange proposed localCIDRs existing) = AllCIDRs proposed"
proof -
  have "DetectTopologyConflicts existing = []" using assms(1) DetectTopologyConflicts_Nil_iff by blast
  then have "DetectTopologyConflicts (existing @ [identity_of proposed]) = []"
    using assms(2) by (simp add: impact_Safe_def AnalyzePeerChange_def Let_def conflictSet_def)
      (metis length_0_conv length_map length_sort)
  then show sound: "topology_sound (existing @ [identity_of proposed])" by (simp only: DetectTopologyConflicts_Nil_iff)
  then have key: "sp_PublicKey proposed \<noteq> ''''"
    by (auto simp: topology_sound_def peer_complete_def identity_of_def)
  have "pl_ConflictingCIDRs (PlanPeer proposed localCIDRs) = []"
    using assms(2) by (simp add: impact_Safe_def AnalyzePeerChange_def Let_def)
  then show "pm_Phase (AnalyzePeerChange proposed localCIDRs existing) = Connected"
    "pm_Routable (AnalyzePeerChange proposed localCIDRs existing) = AllCIDRs proposed"
    using key by (auto simp: AnalyzePeerChange_def Let_def plan_simps filter_empty_conv filter_True)
qed

section \<open>Connectivity report\<close>

text \<open>\<^verbatim>\<open>pkg/slo\<close>: expected reachability against the observed age of the last handshake.\<close>

datatype slo_verdict = VerdictHealthy | VerdictImpaired | VerdictBlocked | VerdictDegraded | VerdictDown

record slo_signal =
  sg_Cluster :: string
  sg_Verdict :: slo_verdict
  sg_Expected :: reach_status
  sg_TunnelLive :: bool
  sg_Reason :: string

definition slo_live :: "int \<Rightarrow> int \<Rightarrow> bool" where
  "slo_live age staleAfter \<longleftrightarrow> age \<ge> 0 \<and> age \<le> staleAfter"

definition signalFor :: "Reachability \<Rightarrow> bool \<Rightarrow> slo_signal" where
  "signalFor r live = (let s = (\<lambda>v why. \<lparr>sg_Cluster = rb_Cluster r, sg_Verdict = v, sg_Expected = rb_Status r, sg_TunnelLive = live, sg_Reason = why\<rparr>) in
     case rb_Status r of
       StatusUnreachable \<Rightarrow> s VerdictDown (rb_Reason r)
     | StatusDegraded \<Rightarrow> s VerdictDegraded (rb_Reason r)
     | StatusBlocked \<Rightarrow> s VerdictBlocked ''mesh policy default-denies this cluster; its unreachability is intended, not a fault''
     | StatusReachable \<Rightarrow>
         if live then s VerdictHealthy ''policy and topology permit this cluster and the tunnel is passing traffic (recent handshake)''
         else s VerdictImpaired (''policy and topology permit this cluster, but the WireGuard handshake is stale or absent '' @
           [char_of (226 :: nat), char_of (128 :: nat), char_of (148 :: nat)] @
           '' traffic is likely not flowing; check endpoint reachability, keys, and firewalls''))"

definition Assess :: "Reachability list \<Rightarrow> (string \<rightharpoonup> int) \<Rightarrow> int \<Rightarrow> slo_signal list" where
  "Assess matrix liveness staleAfter = sort_key sg_Cluster (map (\<lambda>r. signalFor r (case liveness (rb_Cluster r) of
     None \<Rightarrow> False | Some age \<Rightarrow> slo_live age staleAfter)) matrix)"

definition report_Healthy :: "slo_signal list \<Rightarrow> bool" where
  "report_Healthy sigs \<longleftrightarrow> list_all (\<lambda>s. sg_Verdict s \<noteq> VerdictImpaired) sigs"

text \<open>A report is healthy exactly when every peer that is expected to reach this cluster has a
  recent handshake.\<close>

lemma report_Healthy_iff:
  "report_Healthy (Assess (reach_Plan peers policies cidrs) liveness staleAfter) \<longleftrightarrow>
     (\<forall>r \<in> set (reach_Plan peers policies cidrs). rb_Status r = StatusReachable \<longrightarrow>
        (\<exists>age. liveness (rb_Cluster r) = Some age \<and> 0 \<le> age \<and> age \<le> staleAfter))"
  by (auto simp: report_Healthy_def Assess_def list_all_iff signalFor_def Let_def slo_live_def split: reach_status.splits option.splits)

end
