(* ===== verification/Mesh_Health.thy ===== *)
theory Mesh_Health
  imports Mesh_Analysis
begin

text \<open>
  The read-only state of a mesh: the health report of \<^verbatim>\<open>pkg/verify/verify.go\<close>, the snapshot of
  \<^verbatim>\<open>snapshot.go\<close>, the rule-based diagnosis of \<^verbatim>\<open>diagnose.go\<close>, and the reachability matrix and
  connectivity report that are built from a snapshot. The lemmas say when a report fails, when
  a finding is critical, and how far the four views of one snapshot agree.
\<close>

section \<open>Health report\<close>

datatype check_status = StatusPass | StatusWarn | StatusFail

definition check_String :: "check_status \<Rightarrow> string" where
  "check_String s = (case s of StatusPass \<Rightarrow> ''PASS'' | StatusWarn \<Rightarrow> ''WARN'' | StatusFail \<Rightarrow> ''FAIL'')"

definition UnmarshalText :: "string \<Rightarrow> check_status result" where
  "UnmarshalText text =
     (if text = ''PASS'' then Inr StatusPass
      else if text = ''WARN'' then Inr StatusWarn
      else if text = ''FAIL'' then Inr StatusFail
      else Inl (''unknown verify.Status '' @ quote text))"

record Check =
  ck_Name :: string
  ck_Status :: check_status
  ck_Detail :: string

type_synonym Report = "Check list"

definition report_add :: "string \<Rightarrow> check_status \<Rightarrow> string \<Rightarrow> Report \<Rightarrow> Report" where
  "report_add name st detail r = r @ [\<lparr>ck_Name = name, ck_Status = st, ck_Detail = detail\<rparr>]"

definition report_Failed :: "Report \<Rightarrow> bool" where
  "report_Failed r = list_ex (\<lambda>c. ck_Status c = StatusFail) r"

record PeerInfo =
  pn_ClusterID :: string
  pn_Phase :: string
  pn_LastHandshake :: int

record ExportInfo =
  en_Namespace :: string
  en_Name :: string
  en_Valid :: bool

record Inputs =
  in_RequiredCRDs :: "string list"
  in_PresentCRDs :: "string \<Rightarrow> bool"
  in_AgentFound :: bool
  in_AgentDesired :: int
  in_AgentReady :: int
  in_Peers :: "PeerInfo list"
  in_Exports :: "ExportInfo list"
  in_ImportsClusterSetIP :: nat
  in_ImportsHeadless :: nat
  in_Now :: int

definition StaleHandshakeSeconds :: int where "StaleHandshakeSeconds = 300"

definition RequiredCRDs :: "string list" where
  "RequiredCRDs = [''meshpeers.networking.datawerx.io'', ''endpointexports.networking.datawerx.io'',
     ''serviceexports.multicluster.x-k8s.io'', ''serviceimports.multicluster.x-k8s.io'']"

definition checkCRDs :: "Inputs \<Rightarrow> Report \<Rightarrow> Report" where
  "checkCRDs i = (let missing = sort (filter (\<lambda>c. \<not> in_PresentCRDs i c) (in_RequiredCRDs i)); n = length (in_RequiredCRDs i) in
     if missing = [] then report_add ''CRDs installed'' StatusPass (itoa n @ ''/'' @ itoa n @ '' present'')
     else report_add ''CRDs installed'' StatusFail (''missing: '' @ join '', '' missing))"

definition checkAgent :: "Inputs \<Rightarrow> Report \<Rightarrow> Report" where
  "checkAgent i = (let counts = itoa_int (in_AgentReady i) @ ''/'' @ itoa_int (in_AgentDesired i) @ '' pods ready'' in
     if \<not> in_AgentFound i then report_add ''Agent DaemonSet'' StatusFail ''not found''
     else if in_AgentDesired i = 0 then report_add ''Agent DaemonSet'' StatusWarn ''0 scheduled pods (no matching nodes?)''
     else if in_AgentReady i = in_AgentDesired i then report_add ''Agent DaemonSet'' StatusPass counts
     else report_add ''Agent DaemonSet'' StatusFail counts)"

definition checkPeers :: "Inputs \<Rightarrow> Report \<Rightarrow> Report" where
  "checkPeers i =
     (if in_Peers i = [] then report_add ''Mesh peers'' StatusWarn ''no MeshPeers configured''
      else let connected = length (filter (\<lambda>p. pn_Phase p = ''Connected'') (in_Peers i));
               errored = length (filter (\<lambda>p. pn_Phase p = ''Error'') (in_Peers i));
               pending = length (filter (\<lambda>p. pn_Phase p \<noteq> ''Connected'' \<and> pn_Phase p \<noteq> ''Error'') (in_Peers i)) in
        report_add ''Mesh peers'' (if errored > 0 then StatusFail else if pending > 0 then StatusWarn else StatusPass)
          (itoa connected @ '' connected, '' @ itoa pending @ '' pending, '' @ itoa errored @ '' error''))"

definition checkHandshakes :: "Inputs \<Rightarrow> Report \<Rightarrow> Report" where
  "checkHandshakes i r =
     (if in_Now i \<le> 0 then r
      else let conns = filter (\<lambda>p. pn_Phase p = ''Connected'') (in_Peers i);
               stale = sort (map pn_ClusterID (filter (\<lambda>p. pn_LastHandshake p \<le> 0 \<or> in_Now i - pn_LastHandshake p > StaleHandshakeSeconds) conns)) in
        if conns = [] then r
        else if stale \<noteq> [] then report_add ''Tunnel handshakes'' StatusWarn
          (itoa (length stale) @ ''/'' @ itoa (length conns) @ '' stale (idle or unreachable): '' @ join '', '' stale) r
        else report_add ''Tunnel handshakes'' StatusPass (itoa (length conns) @ ''/'' @ itoa (length conns) @ '' recent'') r)"

definition checkExports :: "Inputs \<Rightarrow> Report \<Rightarrow> Report" where
  "checkExports i =
     (if in_Exports i = [] then report_add ''Service exports'' StatusPass ''none''
      else let invalid = sort (map (\<lambda>e. en_Namespace e @ ''/'' @ en_Name e) (filter (\<lambda>e. \<not> en_Valid e) (in_Exports i))) in
        if invalid \<noteq> [] then report_add ''Service exports'' StatusWarn (itoa (length invalid) @ '' invalid: '' @ join '', '' invalid)
        else report_add ''Service exports'' StatusPass (itoa (length (in_Exports i)) @ '' valid''))"

definition verify_Build :: "Inputs \<Rightarrow> Report" where
  "verify_Build i = report_add ''Service imports'' StatusPass
     (itoa (in_ImportsClusterSetIP i) @ '' ClusterSetIP, '' @ itoa (in_ImportsHeadless i) @ '' headless'')
     (checkExports i (checkHandshakes i (checkPeers i (checkAgent i (checkCRDs i [])))))"

text \<open>The names of the statuses round-trip, and a report fails exactly on a missing resource
  definition, an agent that is not fully ready, or a peer in error.\<close>

lemma status_roundtrip: "UnmarshalText (check_String s) = Inr s"
  by (cases s) (simp_all add: UnmarshalText_def check_String_def)

lemma UnmarshalText_exact: "UnmarshalText text = Inr s \<longleftrightarrow> text = check_String s"
  by (cases s) (auto simp: UnmarshalText_def check_String_def)

lemma report_Failed_iff:
  "report_Failed (verify_Build i) \<longleftrightarrow>
     (\<exists>c \<in> set (in_RequiredCRDs i). \<not> in_PresentCRDs i c) \<or>
     (\<not> in_AgentFound i \<or> in_AgentDesired i \<noteq> 0 \<and> in_AgentReady i \<noteq> in_AgentDesired i) \<or>
     (\<exists>p \<in> set (in_Peers i). pn_Phase p = ''Error'')"
proof -
  have add: "report_Failed (report_add n st d r) \<longleftrightarrow> st = StatusFail \<or> report_Failed r" for n st d r
    by (auto simp: report_Failed_def report_add_def)
  have crds: "report_Failed (checkCRDs i r) \<longleftrightarrow> (\<exists>c \<in> set (in_RequiredCRDs i). \<not> in_PresentCRDs i c) \<or> report_Failed r" for r
  proof -
    have "sort (filter (\<lambda>c. \<not> in_PresentCRDs i c) (in_RequiredCRDs i)) = [] \<longleftrightarrow> \<not> (\<exists>c \<in> set (in_RequiredCRDs i). \<not> in_PresentCRDs i c)"
      by (metis (no_types, lifting) filter_False length_0_conv length_sort filter_empty_conv)
    then show ?thesis by (simp add: checkCRDs_def Let_def add)
  qed
  have agent: "report_Failed (checkAgent i r) \<longleftrightarrow>
      \<not> in_AgentFound i \<or> in_AgentDesired i \<noteq> 0 \<and> in_AgentReady i \<noteq> in_AgentDesired i \<or> report_Failed r" for r
    by (auto simp: checkAgent_def Let_def add)
  have peers: "report_Failed (checkPeers i r) \<longleftrightarrow> (\<exists>p \<in> set (in_Peers i). pn_Phase p = ''Error'') \<or> report_Failed r" for r
    by (auto simp: checkPeers_def Let_def add filter_empty_conv)
  have rest: "report_Failed (checkHandshakes i r) \<longleftrightarrow> report_Failed r" "report_Failed (checkExports i r) \<longleftrightarrow> report_Failed r" for r
    by (simp_all add: checkHandshakes_def checkExports_def Let_def add)
  show ?thesis unfolding verify_Build_def add rest peers agent crds by (auto simp: report_Failed_def)
qed

section \<open>Snapshot\<close>

text \<open>Metric values are floating-point numbers that are only carried along; their type is a
  parameter.\<close>

record PeerSnapshot =
  sn_Name :: string
  sn_ClusterID :: string
  sn_Endpoint :: string
  sn_Phase :: string
  sn_PublicKey :: string
  sn_PodCIDRs :: "string list"
  sn_ServiceCIDRs :: "string list"
  sn_LastHandshake :: int
  sn_HandshakeAge :: int
  sn_LastProbeAttempt :: int
  sn_LastProbe :: int
  sn_Probed :: bool
  sn_ProbeAge :: int
  sn_Message :: string
  sn_ObservedGeneration :: int

record ConflictReport =
  cr_ClusterID :: string
  cr_Reason :: string

record ExportSnapshot =
  exs_Namespace :: string
  exs_Name :: string
  exs_Valid :: bool
  exs_Conflict :: bool
  exs_Message :: string

record PortSnapshot =
  pt_Name :: string
  pt_Protocol :: string
  pt_Port :: int

record ImportSnapshot =
  im_Namespace :: string
  im_Name :: string
  im_Type :: string
  im_IPs :: "string list"
  im_Ports :: "PortSnapshot list"
  im_Clusters :: "string list"

record PolicySourceSnapshot =
  pss_ClusterIDs :: "string list"
  pss_CIDRs :: "string list"

record PolicyIngressSnapshot =
  pis_From :: "PolicySourceSnapshot list"
  pis_Ports :: "PortSnapshot list"

record PolicySnapshot =
  pls_Name :: string
  pls_Destinations :: "string list"
  pls_Phase :: string
  pls_IngressRules :: int
  pls_Ingress :: "PolicyIngressSnapshot list"
  pls_Message :: string

record EventSnapshot =
  ev_Type :: string
  ev_Reason :: string
  ev_Message :: string
  ev_Object :: string
  ev_Count :: int
  ev_LastSeen :: int

record 'f MetricPointer =
  mc_Name :: string
  mc_Help :: string
  mc_Value :: 'f

record 'f SnapshotInputs =
  gi_Now :: int
  gi_RequiredCRDs :: "string list"
  gi_PresentCRDs :: "string \<Rightarrow> bool"
  gi_AgentFound :: bool
  gi_AgentDesired :: int
  gi_AgentReady :: int
  gi_Peers :: "PeerSnapshot list"
  gi_Conflicts :: "ConflictReport list"
  gi_Exports :: "ExportSnapshot list"
  gi_Imports :: "ImportSnapshot list"
  gi_Policies :: "PolicySnapshot list"
  gi_Events :: "EventSnapshot list"
  gi_Metrics :: "'f MetricPointer list"

record 'f Snapshot =
  snap_APIVersion :: string
  snap_Kind :: string
  snap_GeneratedAt :: int
  snap_Health :: Report
  snap_Peers :: "PeerSnapshot list"
  snap_Conflicts :: "ConflictReport list"
  snap_Exports :: "ExportSnapshot list"
  snap_Imports :: "ImportSnapshot list"
  snap_Policies :: "PolicySnapshot list"
  snap_Events :: "EventSnapshot list"
  snap_Metrics :: "'f MetricPointer list"

definition handshakeAge :: "int \<Rightarrow> int \<Rightarrow> int" where
  "handshakeAge now seen = (if now \<le> 0 \<or> seen \<le> 0 then - 1 else if now - seen > 0 then now - seen else 0)"

definition healthInputs :: "'f SnapshotInputs \<Rightarrow> Inputs" where
  "healthInputs gi = \<lparr>in_RequiredCRDs = gi_RequiredCRDs gi, in_PresentCRDs = gi_PresentCRDs gi, in_AgentFound = gi_AgentFound gi,
     in_AgentDesired = gi_AgentDesired gi, in_AgentReady = gi_AgentReady gi,
     in_Peers = map (\<lambda>p. \<lparr>pn_ClusterID = sn_ClusterID p, pn_Phase = sn_Phase p, pn_LastHandshake = sn_LastHandshake p\<rparr>) (gi_Peers gi),
     in_Exports = map (\<lambda>e. \<lparr>en_Namespace = exs_Namespace e, en_Name = exs_Name e, en_Valid = exs_Valid e\<rparr>) (gi_Exports gi),
     in_ImportsClusterSetIP = length (filter (\<lambda>im. im_Type im = ''ClusterSetIP'') (gi_Imports gi)),
     in_ImportsHeadless = length (filter (\<lambda>im. im_Type im = ''Headless'') (gi_Imports gi)),
     in_Now = gi_Now gi\<rparr>"

definition observe_peer :: "int \<Rightarrow> PeerSnapshot \<Rightarrow> PeerSnapshot" where
  "observe_peer now p = p\<lparr>sn_PublicKey := shortKey (sn_PublicKey p), sn_HandshakeAge := handshakeAge now (sn_LastHandshake p),
     sn_ProbeAge := handshakeAge now (sn_LastProbe p),
     sn_Probed := now > 0 \<and> sn_LastProbeAttempt p > 0 \<and> now - sn_LastProbeAttempt p \<le> StaleHandshakeSeconds\<rparr>"

definition BuildSnapshot :: "'f SnapshotInputs \<Rightarrow> 'f Snapshot" where
  "BuildSnapshot gi = \<lparr>snap_APIVersion = ''mesh.datawerx.io/snapshot/v1alpha1'', snap_Kind = ''MeshSnapshot'',
     snap_GeneratedAt = gi_Now gi, snap_Health = verify_Build (healthInputs gi),
     snap_Peers = sort_key sn_ClusterID (map (observe_peer (gi_Now gi)) (gi_Peers gi)),
     snap_Conflicts = sort_key (\<lambda>c. (cr_ClusterID c, cr_Reason c)) (gi_Conflicts gi),
     snap_Exports = sort_key (\<lambda>e. (exs_Namespace e, exs_Name e)) (gi_Exports gi),
     snap_Imports = sort_key (\<lambda>im. (im_Namespace im, im_Name im)) (gi_Imports gi),
     snap_Policies = sort_key pls_Name (gi_Policies gi),
     snap_Events = sort_key (\<lambda>e. (ev_Object e, ev_Reason e, ev_Message e)) (gi_Events gi),
     snap_Metrics = sort_key mc_Name (gi_Metrics gi)\<rparr>"

section \<open>Diagnosis\<close>

datatype Severity = SeverityInfo | SeverityWarning | SeverityCritical

definition severity_String :: "Severity \<Rightarrow> string" where
  "severity_String s = (case s of SeverityCritical \<Rightarrow> ''CRITICAL'' | SeverityWarning \<Rightarrow> ''WARNING'' | SeverityInfo \<Rightarrow> ''INFO'')"

record Finding =
  fi_Severity :: Severity
  fi_Title :: string
  fi_Detail :: string
  fi_Signal :: string
  fi_Remedy :: string

fun str_contains :: "string \<Rightarrow> string \<Rightarrow> bool" where
  "str_contains [] sub = (sub = [])"
| "str_contains (c # cs) sub = (take (length sub) (c # cs) = sub \<or> str_contains cs sub)"

definition conflictRemedy :: "string \<Rightarrow> string" where
  "conflictRemedy reason =
     (if str_contains reason ''overlap''
      then ''the two clusters reuse a range; renumber one, or enable basic NAT remap (DataWerx_REMAP_CIDR) to route them under virtual ranges''
      else if str_contains reason ''public key''
      then ''two peers advertise the same WireGuard key; regenerate one cluster's key so the kernel can tell them apart''
      else if str_contains reason ''duplicate cluster ID''
      then ''two peers share a clusterID; give each cluster a unique, stable ID''
      else ''correct the advertised peer fields so the topology is unambiguous'')"

definition peerErrorRemedy :: "string \<Rightarrow> string" where
  "peerErrorRemedy msg =
     (if str_contains msg ''dangerous''
      then ''the peer advertised a default/loopback/link-local/multicast range that is never routed into the mesh; remove it from the peer's CIDRs''
      else if str_contains msg ''overlap'' \<or> str_contains msg ''remap''
      then ''the peer's CIDR overlaps a local range; renumber, or enable DataWerx_REMAP_CIDR to route it under a virtual range''
      else if str_contains msg ''publicKey''
      then ''set spec.publicKey on the MeshPeer to the remote cluster's WireGuard public key''
      else ''inspect the MeshPeer status message and correct the offending spec field'')"

definition phaseOrUnset :: "string \<Rightarrow> string" where
  "phaseOrUnset phase = (if phase = '''' then ''<unset>'' else phase)"

definition diagnoseHealth :: "'f Snapshot \<Rightarrow> Finding list" where
  "diagnoseHealth s = map (\<lambda>c. \<lparr>fi_Severity = SeverityCritical, fi_Title = ''Health check failing: '' @ ck_Name c, fi_Detail = '''',
       fi_Signal = ck_Name c @ '' = FAIL ('' @ ck_Detail c @ '')'',
       fi_Remedy = ''resolve the failing check before diagnosing peers; nothing routes until the agent and CRDs are healthy''\<rparr>)
     (filter (\<lambda>c. ck_Status c = StatusFail) (snap_Health s))"

definition diagnoseConflicts :: "'f Snapshot \<Rightarrow> Finding list" where
  "diagnoseConflicts s = map (\<lambda>c. \<lparr>fi_Severity = SeverityCritical, fi_Title = ''Topology conflict on cluster '' @ cr_ClusterID c,
       fi_Detail = cr_Reason c, fi_Signal = ''conflict['' @ cr_ClusterID c @ '']: '' @ cr_Reason c,
       fi_Remedy = conflictRemedy (cr_Reason c)\<rparr>) (snap_Conflicts s)"

definition staleTunnel :: "PeerSnapshot \<Rightarrow> bool \<times> string" where
  "staleTunnel p =
     (if sn_LastHandshake p \<le> 0 then (True, ''no handshake recorded yet'')
      else if sn_HandshakeAge p > StaleHandshakeSeconds
      then (True, ''last handshake '' @ itoa_int (sn_HandshakeAge p) @ ''s ago (> '' @ itoa_int StaleHandshakeSeconds @ ''s)'')
      else (False, ''''))"

definition diagnosePeer :: "PeerSnapshot \<Rightarrow> Finding list" where
  "diagnosePeer p =
     (if sn_Phase p = ''Error'' then
        [\<lparr>fi_Severity = SeverityCritical, fi_Title = ''Peer '' @ sn_ClusterID p @ '' in Error'', fi_Detail = sn_Message p,
          fi_Signal = ''peer['' @ sn_ClusterID p @ ''].phase=Error: '' @ sn_Message p, fi_Remedy = peerErrorRemedy (sn_Message p)\<rparr>]
      else if sn_Phase p = ''Connected'' then
        (case staleTunnel p of (stale, why) \<Rightarrow> if \<not> stale then [] else
          [\<lparr>fi_Severity = SeverityWarning, fi_Title = ''Tunnel to '' @ sn_ClusterID p @ '' may be down'', fi_Detail = why,
            fi_Signal = ''peer['' @ sn_ClusterID p @ ''] connected, '' @ why,
            fi_Remedy = ''verify the peer endpoint is reachable (UDP/firewall, NAT, correct host:port); an idle tunnel can also legitimately go quiet''\<rparr>])
      else if sn_Phase p = ''Pending'' \<or> sn_Phase p = '''' then
        [\<lparr>fi_Severity = SeverityWarning, fi_Title = ''Peer '' @ sn_ClusterID p @ '' not programmed'', fi_Detail = sn_Message p,
          fi_Signal = ''peer['' @ sn_ClusterID p @ ''].phase='' @ quote (phaseOrUnset (sn_Phase p)),
          fi_Remedy = ''the node agent has not converged this peer yet; check the agent pod on this node has NET_ADMIN and is running''\<rparr>]
      else [])"

definition diagnosePeers :: "'f Snapshot \<Rightarrow> Finding list" where
  "diagnosePeers s = concat (map diagnosePeer (snap_Peers s))"

definition diagnoseExport :: "ExportSnapshot \<Rightarrow> Finding list" where
  "diagnoseExport e = (let nn = exs_Namespace e @ ''/'' @ exs_Name e in
     if exs_Conflict e then
       [\<lparr>fi_Severity = SeverityWarning, fi_Title = ''Export conflict: '' @ nn, fi_Detail = exs_Message e,
         fi_Signal = ''export['' @ nn @ ''].conflict: '' @ exs_Message e,
         fi_Remedy = ''clusters exported this name with incompatible type/ports; align the Service definitions across clusters''\<rparr>]
     else if \<not> exs_Valid e then
       [\<lparr>fi_Severity = SeverityWarning, fi_Title = ''Export invalid: '' @ nn, fi_Detail = exs_Message e,
         fi_Signal = ''export['' @ nn @ ''].valid=false: '' @ exs_Message e,
         fi_Remedy = ''ensure a Service of the same name/namespace exists and is selectable; the export marks itself Valid once it resolves''\<rparr>]
     else [])"

definition diagnoseExports :: "'f Snapshot \<Rightarrow> Finding list" where
  "diagnoseExports s = concat (map diagnoseExport (snap_Exports s))"

definition diagnosePolicies :: "'f Snapshot \<Rightarrow> Finding list" where
  "diagnosePolicies s = map (\<lambda>p. \<lparr>fi_Severity = SeverityCritical, fi_Title = ''Policy '' @ pls_Name p @ '' failed to program'',
       fi_Detail = pls_Message p, fi_Signal = ''policy['' @ pls_Name p @ ''].phase=Error: '' @ pls_Message p,
       fi_Remedy = ''fix the policy spec (likely a malformed or non-IPv4 CIDR); until it programs, its protected destinations may be exposed or fail closed''\<rparr>)
     (filter (\<lambda>p. pls_Phase p = ''Error'') (snap_Policies s))"

definition diagnoseEvents :: "'f Snapshot \<Rightarrow> Finding list" where
  "diagnoseEvents s = map (\<lambda>e. \<lparr>fi_Severity = SeverityInfo, fi_Title = ''Recent warning: '' @ ev_Reason e, fi_Detail = ev_Message e,
       fi_Signal = ''event['' @ ev_Object e @ ''] '' @ ev_Reason e @ '': '' @ ev_Message e, fi_Remedy = ''''\<rparr>)
     (filter (\<lambda>e. ev_Type e = ''Warning'') (snap_Events s))"

definition severity_rank :: "Severity \<Rightarrow> nat" where
  "severity_rank s = (case s of SeverityCritical \<Rightarrow> 0 | SeverityWarning \<Rightarrow> 1 | SeverityInfo \<Rightarrow> 2)"

definition Diagnose :: "'f Snapshot \<Rightarrow> Finding list" where
  "Diagnose s = sort_key (\<lambda>f. (severity_rank (fi_Severity f), fi_Title f, fi_Signal f))
     (diagnoseHealth s @ diagnoseConflicts s @ diagnosePeers s @ diagnoseExports s @ diagnosePolicies s @ diagnoseEvents s)"

section \<open>Reports from a snapshot\<close>

definition policiesFromSnapshot :: "PolicySnapshot list \<Rightarrow> Policy list" where
  "policiesFromSnapshot ps = map (\<lambda>p. \<lparr>pc_Name = pls_Name p, pc_Destinations = pls_Destinations p,
     pc_Ingress = map (\<lambda>ing. \<lparr>ir_From = map (\<lambda>f. \<lparr>ps_ClusterIDs = pss_ClusterIDs f, ps_CIDRs = pss_CIDRs f\<rparr>) (pis_From ing),
                              ir_Ports = map (\<lambda>pt. \<lparr>po_Protocol = pt_Protocol pt, po_Port = pt_Port pt\<rparr>) (pis_Ports ing)\<rparr>)
                    (pls_Ingress p)\<rparr>) ps"

definition reach_FromSnapshot :: "'f Snapshot \<Rightarrow> Reachability list" where
  "reach_FromSnapshot s = reach_Plan
     (map (\<lambda>p. \<lparr>rp_ClusterID = sn_ClusterID p, rp_Connected = sn_Phase p = ''Connected'',
                rp_Conflict = list_ex (\<lambda>c. cr_ClusterID c = sn_ClusterID p) (snap_Conflicts s),
                rp_CIDRs = sn_PodCIDRs p @ sn_ServiceCIDRs p\<rparr>) (snap_Peers s))
     (policiesFromSnapshot (snap_Policies s))
     (fold (\<lambda>p m. m(sn_ClusterID p := sn_PodCIDRs p @ sn_ServiceCIDRs p)) (snap_Peers s) (\<lambda>_. []))"

definition slo_FromSnapshot :: "'f Snapshot \<Rightarrow> slo_signal list" where
  "slo_FromSnapshot s = Assess (reach_FromSnapshot s)
     (fold (\<lambda>p m. m(sn_ClusterID p \<mapsto> (if sn_Probed p then sn_ProbeAge p else sn_HandshakeAge p))) (snap_Peers s) Map.empty)
     StaleHandshakeSeconds"

section \<open>Agreement of the reports\<close>

definition tunnel_title :: "string \<Rightarrow> string" where
  "tunnel_title cid = ''Tunnel to '' @ cid @ '' may be down''"

definition stale_peer :: "int \<Rightarrow> PeerSnapshot \<Rightarrow> bool" where
  "stale_peer now p \<longleftrightarrow> sn_Phase p = ''Connected'' \<and> (sn_LastHandshake p \<le> 0 \<or> now - sn_LastHandshake p > StaleHandshakeSeconds)"

lemma set_snap_Peers [simp]: "set (snap_Peers (BuildSnapshot gi)) = observe_peer (gi_Now gi) ` set (gi_Peers gi)"
  by (simp add: BuildSnapshot_def)

lemma observe_peer_fields [simp]:
  "sn_ClusterID (observe_peer now p) = sn_ClusterID p" "sn_Phase (observe_peer now p) = sn_Phase p"
  "sn_LastHandshake (observe_peer now p) = sn_LastHandshake p" "sn_LastProbe (observe_peer now p) = sn_LastProbe p"
  "sn_HandshakeAge (observe_peer now p) = handshakeAge now (sn_LastHandshake p)"
  "sn_ProbeAge (observe_peer now p) = handshakeAge now (sn_LastProbe p)"
  by (simp_all add: observe_peer_def)

lemma live_handshakeAge:
  assumes "0 < now"
  shows "slo_live (handshakeAge now seen) StaleHandshakeSeconds \<longleftrightarrow> 0 < seen \<and> now - seen \<le> StaleHandshakeSeconds"
  using assms by (auto simp: slo_live_def handshakeAge_def StaleHandshakeSeconds_def)

lemma staleTunnel_iff:
  assumes "0 < now"
  shows "fst (staleTunnel (observe_peer now p)) \<longleftrightarrow> \<not> (0 < sn_LastHandshake p \<and> now - sn_LastHandshake p \<le> StaleHandshakeSeconds)"
  using assms by (auto simp: staleTunnel_def handshakeAge_def StaleHandshakeSeconds_def)

lemma diagnosePeer_tunnel:
  "(\<exists>f \<in> set (diagnosePeer p). fi_Title f = tunnel_title cid) \<longleftrightarrow>
     sn_ClusterID p = cid \<and> sn_Phase p = ''Connected'' \<and> fst (staleTunnel p)"
  by (cases "staleTunnel p") (simp add: diagnosePeer_def tunnel_title_def)

lemma Diagnose_tunnel:
  "(\<exists>f \<in> set (Diagnose s). fi_Title f = tunnel_title cid) \<longleftrightarrow>
     (\<exists>p \<in> set (snap_Peers s). sn_ClusterID p = cid \<and> sn_Phase p = ''Connected'' \<and> fst (staleTunnel p))"
proof -
  have "fi_Title f \<noteq> tunnel_title cid" if "f \<in> set (diagnoseHealth s @ diagnoseConflicts s @ diagnoseExports s @ diagnosePolicies s @ diagnoseEvents s)" for f
    using that by (auto simp: diagnoseHealth_def diagnoseConflicts_def diagnoseExports_def diagnoseExport_def diagnosePolicies_def
        diagnoseEvents_def tunnel_title_def Let_def split: if_splits)
  then have "(\<exists>f \<in> set (Diagnose s). fi_Title f = tunnel_title cid) \<longleftrightarrow> (\<exists>f \<in> set (diagnosePeers s). fi_Title f = tunnel_title cid)"
    by (auto simp: Diagnose_def)
  also have "\<dots> \<longleftrightarrow> (\<exists>p \<in> set (snap_Peers s). \<exists>f \<in> set (diagnosePeer p). fi_Title f = tunnel_title cid)"
    by (auto simp: diagnosePeers_def)
  finally show ?thesis by (simp add: diagnosePeer_tunnel)
qed

lemma Diagnose_tunnel_built:
  assumes "0 < gi_Now gi"
  shows "(\<exists>f \<in> set (Diagnose (BuildSnapshot gi)). fi_Title f = tunnel_title cid) \<longleftrightarrow>
    (\<exists>p \<in> set (gi_Peers gi). sn_ClusterID p = cid \<and> stale_peer (gi_Now gi) p)"
  unfolding Diagnose_tunnel by (auto simp: staleTunnel_iff [OF assms] stale_peer_def)

lemma Diagnose_critical:
  "(\<exists>f \<in> set (Diagnose s). fi_Severity f = SeverityCritical) \<longleftrightarrow>
     report_Failed (snap_Health s) \<or> snap_Conflicts s \<noteq> [] \<or> (\<exists>p \<in> set (snap_Peers s). sn_Phase p = ''Error'') \<or>
     (\<exists>p \<in> set (snap_Policies s). pls_Phase p = ''Error'')"
proof -
  have parts: "(\<exists>f \<in> set (diagnoseHealth s). fi_Severity f = SeverityCritical) \<longleftrightarrow> report_Failed (snap_Health s)"
    "(\<exists>f \<in> set (diagnoseConflicts s). fi_Severity f = SeverityCritical) \<longleftrightarrow> snap_Conflicts s \<noteq> []"
    "(\<exists>f \<in> set (diagnosePeer p). fi_Severity f = SeverityCritical) \<longleftrightarrow> sn_Phase p = ''Error''"
    "(\<exists>f \<in> set (diagnosePolicies s). fi_Severity f = SeverityCritical) \<longleftrightarrow> (\<exists>p \<in> set (snap_Policies s). pls_Phase p = ''Error'')" for p
    by (auto simp: diagnoseHealth_def diagnoseConflicts_def diagnosePolicies_def diagnosePeer_def report_Failed_def list_ex_iff
        ex_in_conv [symmetric] set_empty [symmetric] simp del: set_empty split: prod.splits)
  have rest: "fi_Severity f \<noteq> SeverityCritical" if "f \<in> set (diagnoseExports s @ diagnoseEvents s)" for f
    using that by (auto simp: diagnoseExports_def diagnoseExport_def diagnoseEvents_def Let_def split: if_splits)
  have "(\<exists>f \<in> set (Diagnose s). fi_Severity f = SeverityCritical) \<longleftrightarrow>
     (\<exists>f \<in> set (diagnoseHealth s). fi_Severity f = SeverityCritical) \<or> (\<exists>f \<in> set (diagnoseConflicts s). fi_Severity f = SeverityCritical) \<or>
     (\<exists>p \<in> set (snap_Peers s). \<exists>f \<in> set (diagnosePeer p). fi_Severity f = SeverityCritical) \<or> (\<exists>f \<in> set (diagnosePolicies s). fi_Severity f = SeverityCritical)"
    using rest by (auto simp: Diagnose_def diagnosePeers_def)
  then show ?thesis unfolding parts .
qed

lemma checkHandshakes_warns:
  assumes "0 < in_Now i" "\<forall>c \<in> set r. ck_Name c \<noteq> ''Tunnel handshakes''"
  shows "(\<exists>c \<in> set (checkHandshakes i r). ck_Name c = ''Tunnel handshakes'' \<and> ck_Status c = StatusWarn) \<longleftrightarrow>
    (\<exists>p \<in> set (in_Peers i). pn_Phase p = ''Connected'' \<and> (pn_LastHandshake p \<le> 0 \<or> in_Now i - pn_LastHandshake p > StaleHandshakeSeconds))"
proof -
  define conns where "conns = filter (\<lambda>p. pn_Phase p = ''Connected'') (in_Peers i)"
  define stale where "stale = sort (map pn_ClusterID (filter (\<lambda>p. pn_LastHandshake p \<le> 0 \<or> in_Now i - pn_LastHandshake p > StaleHandshakeSeconds) conns))"
  have "set stale \<noteq> {} \<longleftrightarrow> (\<exists>p \<in> set (in_Peers i). pn_Phase p = ''Connected'' \<and> (pn_LastHandshake p \<le> 0 \<or> in_Now i - pn_LastHandshake p > StaleHandshakeSeconds))"
    by (auto simp: stale_def conns_def)
  moreover have "(\<exists>c \<in> set (checkHandshakes i r). ck_Name c = ''Tunnel handshakes'' \<and> ck_Status c = StatusWarn) \<longleftrightarrow> conns \<noteq> [] \<and> stale \<noteq> []"
    using assms by (auto simp: checkHandshakes_def report_add_def Let_def simp flip: conns_def stale_def)
  moreover have "stale \<noteq> [] \<Longrightarrow> conns \<noteq> []" by (auto simp: stale_def)
  ultimately show ?thesis by auto
qed

lemma handshake_warning_iff:
  assumes "0 < gi_Now gi"
  shows "(\<exists>c \<in> set (snap_Health (BuildSnapshot gi)). ck_Name c = ''Tunnel handshakes'' \<and> ck_Status c = StatusWarn) \<longleftrightarrow>
    (\<exists>p \<in> set (gi_Peers gi). stale_peer (gi_Now gi) p)"
proof -
  let ?i = "healthInputs gi"
  let ?r = "checkPeers ?i (checkAgent ?i (checkCRDs ?i []))"
  have "c \<in> set (checkExports i r) \<and> ck_Name c = ''Tunnel handshakes'' \<longleftrightarrow> c \<in> set r \<and> ck_Name c = ''Tunnel handshakes''" for c i r
    by (auto simp: checkExports_def report_add_def Let_def)
  then have "(\<exists>c \<in> set (snap_Health (BuildSnapshot gi)). ck_Name c = ''Tunnel handshakes'' \<and> ck_Status c = StatusWarn) \<longleftrightarrow>
      (\<exists>c \<in> set (checkHandshakes ?i ?r). ck_Name c = ''Tunnel handshakes'' \<and> ck_Status c = StatusWarn)"
    by (fastforce simp: BuildSnapshot_def verify_Build_def report_add_def)
  moreover have "\<forall>c \<in> set ?r. ck_Name c \<noteq> ''Tunnel handshakes''"
    by (simp add: checkPeers_def checkAgent_def checkCRDs_def report_add_def Let_def)
  note checkHandshakes_warns [OF _ this]
  ultimately show ?thesis using assms by (auto simp: healthInputs_def stale_peer_def)
qed

lemma fold_upd_distinct:
  assumes "distinct (map k xs)" "x \<in> set xs"
  shows "fold (\<lambda>x m. m(k x := v x)) xs m (k x) = v x"
  using assms
proof (induction xs rule: rev_induct)
  case (snoc y ys)
  then show ?case by (cases "x = y") (auto simp: image_iff)
qed simp

lemma slo_signal_of:
  assumes "distinct (map sn_ClusterID (snap_Peers s))" "p \<in> set (snap_Peers s)"
  shows "\<exists>sg r. sg \<in> set (slo_FromSnapshot s) \<and> sg_Cluster sg = sn_ClusterID p \<and>
    sg = signalFor r (slo_live (if sn_Probed p then sn_ProbeAge p else sn_HandshakeAge p) StaleHandshakeSeconds) \<and>
    (rb_Status r = StatusUnreachable \<longleftrightarrow> sn_Phase p \<noteq> ''Connected'') \<and>
    (rb_Status r = StatusDegraded \<longleftrightarrow> sn_Phase p = ''Connected'' \<and> (\<exists>c \<in> set (snap_Conflicts s). cr_ClusterID c = sn_ClusterID p))"
proof -
  define q where "q = \<lparr>rp_ClusterID = sn_ClusterID p, rp_Connected = sn_Phase p = ''Connected'',
    rp_Conflict = list_ex (\<lambda>c. cr_ClusterID c = sn_ClusterID p) (snap_Conflicts s), rp_CIDRs = sn_PodCIDRs p @ sn_ServiceCIDRs p\<rparr>"
  obtain accepts protected where r: "reachFor q accepts protected \<in> set (reach_FromSnapshot s)"
    using assms(2) by (auto simp: reach_FromSnapshot_def reach_Plan_def Let_def q_def)
  let ?r = "reachFor q accepts protected"
  have id: "rb_Cluster ?r = sn_ClusterID p" by (simp add: q_def)
  have live: "fold (\<lambda>p m. m(sn_ClusterID p \<mapsto> (if sn_Probed p then sn_ProbeAge p else sn_HandshakeAge p))) (snap_Peers s) Map.empty (sn_ClusterID p) =
      Some (if sn_Probed p then sn_ProbeAge p else sn_HandshakeAge p)"
    by (rule fold_upd_distinct [OF assms, where v = "\<lambda>p. Some (if sn_Probed p then sn_ProbeAge p else sn_HandshakeAge p)"])
  have mem: "signalFor ?r (slo_live (if sn_Probed p then sn_ProbeAge p else sn_HandshakeAge p) StaleHandshakeSeconds) \<in> set (slo_FromSnapshot s)"
    unfolding slo_FromSnapshot_def Assess_def set_sort set_map by (rule image_eqI [OF _ r]) (simp only: id live option.case)
  have "sg_Cluster (signalFor ?r b) = sn_ClusterID p" for b using id by (simp add: signalFor_def Let_def split: reach_status.splits)
  moreover have "rb_Status ?r = StatusUnreachable \<longleftrightarrow> sn_Phase p \<noteq> ''Connected''"
    "rb_Status ?r = StatusDegraded \<longleftrightarrow> sn_Phase p = ''Connected'' \<and> (\<exists>c \<in> set (snap_Conflicts s). cr_ClusterID c = sn_ClusterID p)"
    by (simp_all add: reachFor_def q_def Let_def list_ex_iff)
  ultimately show ?thesis using mem by blast
qed

lemma signalFor_verdict:
  "sg_Verdict (signalFor r live) = (case rb_Status r of StatusUnreachable \<Rightarrow> VerdictDown | StatusDegraded \<Rightarrow> VerdictDegraded
     | StatusBlocked \<Rightarrow> VerdictBlocked | StatusReachable \<Rightarrow> if live then VerdictHealthy else VerdictImpaired)"
  by (simp add: signalFor_def Let_def split: reach_status.splits)

text \<open>C15. The reports built from one snapshot agree. With a clock and distinct cluster
  identifiers, the diagnosis has a critical finding exactly on a failed health check
  (a peer in error fails one), a topology conflict or a policy in error; the health report warns about
  tunnels exactly if the diagnosis reports one; and every peer has a connectivity verdict: down
  exactly if it is not connected, degraded exactly if it is connected and in a conflict, and,
  where it is expected to reach this cluster, impaired exactly if the diagnosis reports its
  tunnel, unless a recent probe decides, by whether one succeeded within the stale window.\<close>

theorem snapshot_reports_agree:
  assumes "BuildSnapshot gi = s" "distinct (map sn_ClusterID (gi_Peers gi))" "0 < gi_Now gi"
  shows "((\<exists>f \<in> set (Diagnose s). fi_Severity f = SeverityCritical) \<longleftrightarrow>
      report_Failed (verify_Build (healthInputs gi)) \<or> gi_Conflicts gi \<noteq> [] \<or> (\<exists>p \<in> set (gi_Policies gi). pls_Phase p = ''Error'')) \<and>
    ((\<exists>c \<in> set (snap_Health s). ck_Name c = ''Tunnel handshakes'' \<and> ck_Status c = StatusWarn) \<longleftrightarrow>
      (\<exists>cid. \<exists>f \<in> set (Diagnose s). fi_Title f = tunnel_title cid)) \<and>
    (\<forall>p \<in> set (snap_Peers s). \<exists>sg \<in> set (slo_FromSnapshot s). sg_Cluster sg = sn_ClusterID p \<and>
      (sg_Verdict sg = VerdictDown \<longleftrightarrow> sn_Phase p \<noteq> ''Connected'') \<and>
      (sg_Verdict sg = VerdictDegraded \<longleftrightarrow> sn_Phase p = ''Connected'' \<and> (\<exists>c \<in> set (gi_Conflicts gi). cr_ClusterID c = sn_ClusterID p)) \<and>
      (sg_Verdict sg \<in> {VerdictHealthy, VerdictImpaired} \<longrightarrow> (sg_Verdict sg = VerdictImpaired \<longleftrightarrow>
         (if sn_Probed p then \<not> (0 < sn_LastProbe p \<and> gi_Now gi - sn_LastProbe p \<le> StaleHandshakeSeconds)
          else \<exists>f \<in> set (Diagnose s). fi_Title f = tunnel_title (sn_ClusterID p)))))"
proof -
  have s: "snap_Conflicts s = sort_key (\<lambda>c. (cr_ClusterID c, cr_Reason c)) (gi_Conflicts gi)" "set (snap_Policies s) = set (gi_Policies gi)"
    "snap_Health s = verify_Build (healthInputs gi)" "snap_Peers s = sort_key sn_ClusterID (map (observe_peer (gi_Now gi)) (gi_Peers gi))"
    using assms(1) by (auto simp: BuildSnapshot_def)
  have "mset (map sn_ClusterID (snap_Peers s)) = mset (map sn_ClusterID (gi_Peers gi))" by (simp add: s(4) image_mset.compositionality comp_def)
  then have dist: "distinct (map sn_ClusterID (snap_Peers s))" using assms(2) mset_eq_imp_distinct_iff by blast
  have crit: "(\<exists>p \<in> set (snap_Peers s). sn_Phase p = ''Error'') \<Longrightarrow> report_Failed (snap_Health s)"
    unfolding s(3) report_Failed_iff s(4) by (auto simp: healthInputs_def)
  have empty: "snap_Conflicts s = [] \<longleftrightarrow> gi_Conflicts gi = []" unfolding s(1) by (metis length_0_conv length_sort)
  have "\<exists>sg \<in> set (slo_FromSnapshot s). sg_Cluster sg = sn_ClusterID p \<and>
      (sg_Verdict sg = VerdictDown \<longleftrightarrow> sn_Phase p \<noteq> ''Connected'') \<and>
      (sg_Verdict sg = VerdictDegraded \<longleftrightarrow> sn_Phase p = ''Connected'' \<and> (\<exists>c \<in> set (gi_Conflicts gi). cr_ClusterID c = sn_ClusterID p)) \<and>
      (sg_Verdict sg \<in> {VerdictHealthy, VerdictImpaired} \<longrightarrow> (sg_Verdict sg = VerdictImpaired \<longleftrightarrow>
         (if sn_Probed p then \<not> (0 < sn_LastProbe p \<and> gi_Now gi - sn_LastProbe p \<le> StaleHandshakeSeconds)
          else \<exists>f \<in> set (Diagnose s). fi_Title f = tunnel_title (sn_ClusterID p))))" if p: "p \<in> set (snap_Peers s)" for p
  proof -
    obtain sg r where sg: "sg \<in> set (slo_FromSnapshot s)" "sg_Cluster sg = sn_ClusterID p"
      "sg = signalFor r (slo_live (if sn_Probed p then sn_ProbeAge p else sn_HandshakeAge p) StaleHandshakeSeconds)"
      "rb_Status r = StatusUnreachable \<longleftrightarrow> sn_Phase p \<noteq> ''Connected''"
      "rb_Status r = StatusDegraded \<longleftrightarrow> sn_Phase p = ''Connected'' \<and> (\<exists>c \<in> set (gi_Conflicts gi). cr_ClusterID c = sn_ClusterID p)"
      using slo_signal_of [OF dist p] by (auto simp: s(1))
    obtain q where q: "q \<in> set (gi_Peers gi)" "p = observe_peer (gi_Now gi) q" using p by (auto simp: s(4))
    have tunnel: "(\<exists>f \<in> set (Diagnose s). fi_Title f = tunnel_title (sn_ClusterID p)) \<longleftrightarrow> stale_peer (gi_Now gi) q"
      unfolding assms(1) [symmetric] Diagnose_tunnel_built [OF assms(3)] using q assms(2) by (auto simp: distinct_map dest: inj_onD)
    show ?thesis using sg(1,2,4,5) tunnel unfolding sg(3)
      by (intro bexI [OF _ sg(1) [unfolded sg(3)]]) (auto simp: signalFor_verdict live_handshakeAge [OF assms(3)] stale_peer_def q(2) split: reach_status.splits)
  qed
  then show ?thesis
    using crit handshake_warning_iff [OF assms(3)] Diagnose_tunnel_built [OF assms(3)] unfolding assms(1) Diagnose_critical s(2,3) empty by blast
qed

text \<open>A connected peer whose last handshake is old: without probes the reports agree that the
  tunnel is in doubt; with a probe that just succeeded the connectivity report says healthy
  while diagnosis and health report still doubt the tunnel.\<close>

definition quiet_peer :: "int \<Rightarrow> unit SnapshotInputs" where
  "quiet_peer probe = \<lparr>gi_Now = 2000, gi_RequiredCRDs = RequiredCRDs, gi_PresentCRDs = (\<lambda>_. True), gi_AgentFound = True,
     gi_AgentDesired = 1, gi_AgentReady = 1,
     gi_Peers = [\<lparr>sn_Name = ''b'', sn_ClusterID = ''b'', sn_Endpoint = '''', sn_Phase = ''Connected'', sn_PublicKey = ''k'',
       sn_PodCIDRs = [''10.1.0.0/16''], sn_ServiceCIDRs = [], sn_LastHandshake = 1000, sn_HandshakeAge = 0,
       sn_LastProbeAttempt = probe, sn_LastProbe = probe, sn_Probed = False, sn_ProbeAge = 0, sn_Message = '''', sn_ObservedGeneration = 1\<rparr>],
     gi_Conflicts = [], gi_Exports = [], gi_Imports = [], gi_Policies = [], gi_Events = [], gi_Metrics = []\<rparr>"

lemma quiet_peer_reach:
  "map (\<lambda>r. (rb_Cluster r, rb_Status r)) (reach_FromSnapshot (BuildSnapshot (quiet_peer probe))) = [(''b'', StatusReachable)]"
  by (simp add: reach_FromSnapshot_def reach_Plan_def BuildSnapshot_def quiet_peer_def observe_peer_def policiesFromSnapshot_def reachFor_def
      Interpret_def BuildFirewall_def ruleset_def interpret_rule_def hasArg_def conntrackArgs_def sorted_set_def Let_def go_eval)

lemma quiet_peer_healthy:
  "(\<exists>f \<in> set (Diagnose (BuildSnapshot (quiet_peer 1990))). fi_Title f = ''Tunnel to b may be down'') \<and>
   (\<exists>c \<in> set (snap_Health (BuildSnapshot (quiet_peer 1990))). ck_Name c = ''Tunnel handshakes'' \<and> ck_Status c = StatusWarn) \<and>
   map (\<lambda>sg. (sg_Cluster sg, sg_Verdict sg)) (slo_FromSnapshot (BuildSnapshot (quiet_peer 1990))) = [(''b'', VerdictHealthy)]"
proof -
  let ?s = "BuildSnapshot (quiet_peer 1990)"
  have "stale_peer (gi_Now (quiet_peer 1990)) (hd (gi_Peers (quiet_peer 1990)))"
    by (simp add: stale_peer_def quiet_peer_def StaleHandshakeSeconds_def)
  then have "\<exists>f \<in> set (Diagnose ?s). fi_Title f = tunnel_title ''b''"
    "\<exists>c \<in> set (snap_Health ?s). ck_Name c = ''Tunnel handshakes'' \<and> ck_Status c = StatusWarn"
    using Diagnose_tunnel_built [of "quiet_peer 1990" "''b''"] handshake_warning_iff [of "quiet_peer 1990"] by (simp_all add: quiet_peer_def)
  moreover obtain r where "reach_FromSnapshot ?s = [r]" "rb_Cluster r = ''b''" "rb_Status r = StatusReachable"
    using quiet_peer_reach [of 1990] by (auto simp: map_eq_Cons_conv)
  then have "map (\<lambda>sg. (sg_Cluster sg, sg_Verdict sg)) (slo_FromSnapshot ?s) = [(''b'', VerdictHealthy)]"
    by (simp add: slo_FromSnapshot_def Assess_def signalFor_def BuildSnapshot_def quiet_peer_def observe_peer_def handshakeAge_def slo_live_def
        StaleHandshakeSeconds_def Let_def)
  ultimately show ?thesis by (simp add: tunnel_title_def)
qed

theorem snapshot_reports_agree_witness:
  "\<not> (\<exists>f \<in> set (Diagnose (BuildSnapshot (quiet_peer 0))). fi_Severity f = SeverityCritical) \<and>
   (\<exists>sg \<in> set (slo_FromSnapshot (BuildSnapshot (quiet_peer 0))). sg_Cluster sg = ''b'' \<and> sg_Verdict sg \<notin> {VerdictDown, VerdictDegraded} \<and>
      (sg_Verdict sg \<in> {VerdictHealthy, VerdictImpaired} \<longrightarrow> (sg_Verdict sg = VerdictImpaired \<longleftrightarrow>
         (\<exists>f \<in> set (Diagnose (BuildSnapshot (quiet_peer 0))). fi_Title f = ''Tunnel to b may be down''))))"
proof -
  have "\<not> report_Failed (verify_Build (healthInputs (quiet_peer 0)))"
    unfolding report_Failed_iff by (simp add: healthInputs_def quiet_peer_def)
  moreover have "snap_Peers (BuildSnapshot (quiet_peer 0)) = [observe_peer 2000 (hd (gi_Peers (quiet_peer 0)))]"
    "sn_ClusterID (hd (gi_Peers (quiet_peer 0))) = ''b''" "sn_Phase (hd (gi_Peers (quiet_peer 0))) = ''Connected''"
    "\<not> sn_Probed (observe_peer 2000 (hd (gi_Peers (quiet_peer 0))))" "gi_Conflicts (quiet_peer 0) = []" "gi_Policies (quiet_peer 0) = []"
    by (simp_all add: BuildSnapshot_def quiet_peer_def observe_peer_def)
  moreover note snapshot_reports_agree [of "quiet_peer 0", OF refl]
  ultimately show ?thesis by (simp add: tunnel_title_def quiet_peer_def)
qed

end
