(* ===== verification/Spec2Isabelle.thy ===== *)
theory Spec2Isabelle
  imports Topology_Conflicts Meshfw_Manager Nat_Manager Ebpf_Remap Edge_Plan Peer_Convergence Service_Discovery Topology_Syncer Mesh_Health
begin

text \<open>
  A verification development of DataWerx Mesh: a broker-less overlay that connects Kubernetes
  clusters. Every node runs an agent whose reconcilers read the desired state from the API
  server, compute routes, NAT rules, firewall rules and DNS data with pure deterministic
  planners, and program the kernel with managers. No cluster coordinates the others, so what
  the planners compute has to be the same function of the observed objects everywhere, and
  what the managers program has to stay safe when any single call fails.

  \<^bold>\<open>Conventions.\<close> Go strings are lists of bytes, structs are records whose fields carry a
  short prefix, error returns are values of a sum type, run-time panics are a third
  outcome of \<^verbatim>\<open>go\<close>, and slices are lists. 64-bit lengths and counters are natural numbers or
  integers; addresses, masks, hashes and back-off durations are words of their width. Code
  outside the repository (netlink, wgctrl, iptables, the API server, the HTTP transport, the
  WireGuard key parser) is a record of operations that the definitions take as an argument.
  What is assumed of it is a locale with the documented behaviour, in which calls may fail at
  any point. Every locale is interpreted on the managers of the model, or on an in-memory
  instance with a schedule of faults where the provider is outside the repository.

  \<^bold>\<open>Shared theories.\<close>
  \<^item> \<^verbatim>\<open>Mesh_Prelude\<close>: results, fallible loops, the contract of a sort by key, key sets, prefixes
    of words, object lists by key.
  \<^item> \<^verbatim>\<open>Go_Strings\<close>, \<^verbatim>\<open>Go_Net\<close>: what the code uses of \<^verbatim>\<open>strings\<close>, \<^verbatim>\<open>strconv\<close>, \<^verbatim>\<open>fmt\<close>, \<^verbatim>\<open>hash/fnv\<close>,
    \<^verbatim>\<open>crypto/sha256\<close> and \<^verbatim>\<open>net\<close>: numerals, quoting, FNV-1a and SHA-256, parsing and printing of
    addresses and ranges, containment of prefixes, with round trips for IPv4 and IPv6.
  \<^item> \<^verbatim>\<open>Runs\<close>: sequences of fallible calls with the states they pass through, so that a lemma can
    speak about every intermediate state; laws for calls that change and calls that read.
  \<^item> \<^verbatim>\<open>Iptables\<close>, \<^verbatim>\<open>Netlink\<close>: the kernel interfaces, their laws and in-memory instances.

  \<^bold>\<open>Planners.\<close>
  \<^item> \<^verbatim>\<open>Topology_Plan\<close>, \<^verbatim>\<open>Topology_Remap\<close>, \<^verbatim>\<open>Topology_Conflicts\<close> (\<^verbatim>\<open>pkg/topology\<close>): \<^verbatim>\<open>PlanPeer\<close> splits
    the ranges of a peer and routes no dangerous or overlapping one (C11, C29); object names are
    legal (C35); virtual ranges lie in the pool with the size of the original (C30) and the
    remap plan is exact (C16), up to overlaps the textual check misses (C40); the validation
    reports a conflict exactly if two clusters are ambiguous (C28).
  \<^item> \<^verbatim>\<open>Meshfw_Plan\<close> (\<^verbatim>\<open>pkg/meshfw/plan.go\<close>, \<^verbatim>\<open>interpret.go\<close>): the compiled chain, read with
    first-match semantics on packets, decides as the policies say (C10), and the reader recovers
    the decisions (C32).
  \<^item> \<^verbatim>\<open>Nat_Plan\<close> (\<^verbatim>\<open>pkg/nat\<close> planners): the ClusterSetIP, remap, exemption and gateway rules and a
    walk of a packet through chains.
  \<^item> \<^verbatim>\<open>Ebpf_Remap\<close> (\<^verbatim>\<open>pkg/dataplane/ebpf\<close>): the maps translate addresses as the iptables rules do
    (C9), translations invert each other (C31), and the manager converges (C22).
  \<^item> \<^verbatim>\<open>Dns_Plan\<close>, \<^verbatim>\<open>Dns_Alloc\<close> (\<^verbatim>\<open>pkg/dns\<close>): names (C33), merged imports (C17), mirrored slices
    (C27) and ClusterSetIP allocation (C18).
  \<^item> \<^verbatim>\<open>Edge_Plan\<close> (\<^verbatim>\<open>pkg/edge\<close>, \<^verbatim>\<open>pkg/gateway/profile.go\<close>): device addresses (C24, C26), peers that
    cannot claim foreign addresses (C25), and profiles (C34).

  \<^bold>\<open>Managers.\<close>
  \<^item> \<^verbatim>\<open>Meshfw_Manager\<close> (\<^verbatim>\<open>pkg/meshfw/manager.go\<close>): in every state of a rebuild, also after a failing
    call, mesh traffic meets the old chain, a complete new chain or a drop (C1).
  \<^item> \<^verbatim>\<open>Nat_Manager\<close> (\<^verbatim>\<open>pkg/nat/manager.go\<close>): a sync that succeeds realizes the planned rules in both
    families (C23, and the lemmas C2 rests on).
  \<^item> \<^verbatim>\<open>Peer_Planes\<close> (\<^verbatim>\<open>pkg/routed\<close>, \<^verbatim>\<open>pkg/wg\<close>): what programming a peer leaves in the kernel (C19), and
    that every installed route is recorded (C20).

  \<^bold>\<open>Reconcilers and clients.\<close>
  \<^item> \<^verbatim>\<open>Peer_Controller\<close>, \<^verbatim>\<open>Peer_Convergence\<close> (\<^verbatim>\<open>pkg/controllers/meshpeer_controller.go\<close>): the
    reconciler as a transition system over API server and data plane; only safe ranges are ever
    routed (C3), two passes converge when calls succeed (C5), every programmed key is accounted
    for (C21), but for a key rotated just before deletion (C38). Both managers are interpreted
    as its data plane.
  \<^item> \<^verbatim>\<open>Mesh_Controllers\<close> (remap, masquerade exemption, policy and gateway reconcilers): entries are
    unambiguous (C6); the programmed chain enforces the stored policies (C7).
  \<^item> \<^verbatim>\<open>Service_Controllers\<close>, \<^verbatim>\<open>Service_Discovery\<close> (import, export and NAT reconcilers, \<^verbatim>\<open>pkg/dnsserver\<close>):
    clusters that see the same exports hold the same imports and answer alike (C4), but an event
    only refreshes its own service (C36).
  \<^item> \<^verbatim>\<open>Control_Plane\<close> (\<^verbatim>\<open>pkg/client\<close>): the retry loop ends within its bounds (C12).
  \<^item> \<^verbatim>\<open>Topology_Syncer\<close> (\<^verbatim>\<open>pkg/syncer\<close>): a pass converges to the fetched topology and leaves foreign
    objects alone (C8), unless they share a name with a fetched cluster (C37).
  \<^item> \<^verbatim>\<open>Mesh_Analysis\<close>, \<^verbatim>\<open>Mesh_Health\<close> (\<^verbatim>\<open>pkg/reach\<close>, \<^verbatim>\<open>pkg/impact\<close>, \<^verbatim>\<open>pkg/slo\<close>, \<^verbatim>\<open>pkg/verify\<close>): the read-only
    analyses against the chain the firewall programs (C13, C14, C39) and against each other
    (C15).
  \<^item> This theory composes service NAT from the API objects to a packet in the tables: traffic to
    an imported address only reaches backends of clusters that are up (C2).

  \<^bold>\<open>Loops and bounds.\<close> All definitions are total. Address probing stops at the budget of the
  source (the measure is what is left of it). The retry loop decreases on the attempts left and
  the one token refresh. The walk of a packet through NAT chains has depth 2, since the planner
  emits chains of exactly two levels below the root and none of them jumps further; the lemma
  that a planned service is delivered shows that the depth is enough. The endless loops of the
  agent are repetitions of the modelled pass.

  \<^bold>\<open>Abstractions.\<close> \<^verbatim>\<open>sort.Slice\<close> is a stable sort in the model; where elements with equal keys can
  differ the lemmas use the contract of a sort only or the keys are distinct. Mutexes are
  dropped, as each manager serializes its calls. Log lines, metrics and contexts have no effect
  on the modelled state.

  \<^bold>\<open>Not modelled.\<close> Process wiring and environment (\<^verbatim>\<open>pkg/agent\<close>, \<^verbatim>\<open>cmd\<close>, \<^verbatim>\<open>internal/cli\<close>), API reads for
  the command line (\<^verbatim>\<open>internal/meshstate\<close>), logging and metrics, the HTTP prober, the segment-size
  clamp, JSON and base64 tokens (\<^verbatim>\<open>pkg/bootstrap\<close>, the codecs of \<^verbatim>\<open>pkg/edge\<close> and \<^verbatim>\<open>pkg/gateway\<close>), graph
  drawing, calls to language-model services, generated deep copies, and the watch wiring of the
  controllers.
\<close>

text \<open>From a sync to the wire: after a sync of the ClusterSetIP chains that reports
  success, a packet that enters the root chain of the IPv4 tables for the
  address and port of exactly one IPv4 service is rewritten to one of its
  backends, whatever the random matches decide and whatever the tables held
  before, and any other packet passes unchanged.\<close>

lemma SyncClusterSetNAT_delivers:
  assumes "iptables_handle ipt tables4" "\<forall>h. ipt6 = Some h \<longrightarrow> iptables_handle h tables6"
    and "SyncClusterSetNAT ipt ipt6 services (s4, s6) = (Inr (), (s4', s6'), visited)"
    and "distinct services" "hash_free (filter (\<lambda>s. \<not> isIPv6 (sd_VIP s)) services)"
    and "\<forall>s\<in>set services. \<forall>t\<in>set services. serves s p \<longrightarrow> serves t p \<longrightarrow> t = s"
  shows "case find (\<lambda>s. \<not> isIPv6 (sd_VIP s) \<and> serves s p) services of
      None \<Rightarrow> \<forall>coin. kernel_fate (tables4 s4') coin p RootChain = None
    | Some s \<Rightarrow> \<forall>coin. \<exists>b\<in>set (sd_Backends s) - {''''}. kernel_fate (tables4 s4') coin p RootChain = Some (to_backend b p)"
proof -
  let ?v4 = "filter (\<lambda>s. \<not> isIPv6 (sd_VIP s)) services"
  have "realizes ?v4 (tables4 s4')" using SyncClusterSetNAT_exact [OF assms(1-3)] by simp
  note fate = kernel_fate_realized [OF this]
  have v4: "distinct ?v4" "\<forall>s\<in>set ?v4. \<forall>t\<in>set ?v4. serves s p \<longrightarrow> serves t p \<longrightarrow> t = s"
    using assms(4,6) by simp_all
  note balance = BuildRuleset_fate [OF v4(1) assms(5) v4(2)]
  show ?thesis
  proof (cases "find (\<lambda>s. \<not> isIPv6 (sd_VIP s) \<and> serves s p) services")
    case None
    then have "\<not> (\<exists>s\<in>set ?v4. serves s p)" by (auto simp: find_None_iff)
    then show ?thesis using balance None by (simp add: fate)
  next
    case (Some s)
    then have s: "s \<in> set ?v4" "serves s p" by (auto simp: find_Some_iff)
    then have "\<exists>t\<in>set ?v4. serves t p" by blast
    with balance obtain t where t: "t \<in> set ?v4" "serves t p"
      "\<forall>coin. \<exists>b\<in>set (sd_Backends t) - {''''}. nat_fate (ns_Rules (BuildRuleset ?v4)) coin p RootChain = Some (to_backend b p)"
      by auto
    have "t = s" using v4(2) s t(1,2) by blast
    then show ?thesis using t(3) Some by (simp add: fate)
  qed
qed

lemma example_ruleset:
  defines "p80 \<equiv> \<lparr>pd_Protocol = ''tcp'', pd_Port = 80\<rparr>"
  shows "BuildRuleset [web_service, idle_service] =
    \<lparr>ns_Chains = [pair_sep ((web_service, p80), ''10.96.0.10''), pair_svc (web_service, p80)],
     ns_Rules = [\<lparr>nr_Chain = RootChain, nr_Args = pair_root (web_service, p80)\<rparr>,
       \<lparr>nr_Chain = pair_svc (web_service, p80), nr_Args = [''-j'', pair_sep ((web_service, p80), ''10.96.0.10'')]\<rparr>,
       \<lparr>nr_Chain = pair_sep ((web_service, p80), ''10.96.0.10''), nr_Args = pair_dnat (web_service, p80) ''10.96.0.10''\<rparr>]\<rparr>"
proof -
  have b: "good_backends web_service = [''10.96.0.10'']"
    by (simp add: good_backends_def uniqueSortedStrings_def sortedKeys_def sorted_set_def web_service_def)
  have lt: "pair_sep x < pair_svc y" "\<not> pair_svc y \<le> pair_sep x" for x y
    by (simp_all add: pair_sep_def pair_svc_def sep_chain_def svc_chain_def hashChain_def sepChainPrefix_def svcChainPrefix_def
       less_char_def less_le_not_le split: prod.splits)
  show ?thesis
    using BuildRuleset_pairs [of "[web_service, idle_service]"] lt
    by (cases "BuildRuleset [web_service, idle_service]")
      (simp add: example_pairs nat_block_conv block_chains_conv b p80_def sorted_set_def)
qed

lemma example_chain_names:
  "pair_svc x \<noteq> ''PREROUTING''" "pair_svc x \<noteq> ''OUTPUT''" "pair_svc x \<noteq> ''DWX-SVC-OLD''" "pair_svc x \<noteq> ''DWX-CLUSTERSET''"
  "pair_sep y \<noteq> ''PREROUTING''" "pair_sep y \<noteq> ''OUTPUT''" "pair_sep y \<noteq> ''DWX-SVC-OLD''" "pair_sep y \<noteq> ''DWX-CLUSTERSET''"
proof -
  have l: "length (base32_bits bs) = (length bs + 4) div 5" for bs by (induction bs rule: base32_bits.induct) simp_all
  have "length (take 16 (base32_encode (sha256 s))) = 16" for s
    by (simp add: base32_encode_def l length_concat comp_def bits_of_byte_def sum_list_triv)
  then have "length (take 16 (base32_encode (sha256 s))) \<noteq> 3" for s by simp
  then have "take 16 (base32_encode (sha256 s)) \<noteq> ''OLD''" for s by (metis list.size(3,4) numeral_3_eq_3 One_nat_def add.commute plus_1_eq_Suc)
  then show "pair_svc x \<noteq> ''PREROUTING''" "pair_svc x \<noteq> ''OUTPUT''" "pair_svc x \<noteq> ''DWX-SVC-OLD''" "pair_svc x \<noteq> ''DWX-CLUSTERSET''"
  "pair_sep y \<noteq> ''PREROUTING''" "pair_sep y \<noteq> ''OUTPUT''" "pair_sep y \<noteq> ''DWX-SVC-OLD''" "pair_sep y \<noteq> ''DWX-CLUSTERSET''"
    by (simp_all add: pair_svc_def pair_sep_def svc_chain_def sep_chain_def hashChain_def svcChainPrefix_def sepChainPrefix_def split: prod.splits)
qed

lemma delivery_run:
  "\<exists>s' l. SyncClusterSetNAT kernel_iptables (None :: kernel iptables option) [web_service, idle_service] (nat_host, nat_host) =
     (Inr (), (s', nat_host), l)"
proof -
  note names = example_chain_names example_chain_names [THEN not_sym] chain_name_kinds [unfolded RootChain_def]
  have v4: "filter (\<lambda>s. \<not> isIPv6 (sd_VIP s)) [web_service, idle_service] = [web_service, idle_service]"
    by (simp add: web_service_def idle_service_def isIPv6_def)
  show ?thesis
    unfolding SyncClusterSetNAT_def Let_def v4 syncClusterSet_def example_ruleset
    by (simp add: names nat_ensureInfra_def nat_ensureChain_def nat_ensureHook_def nat_flush_def
      deleteManagedChains_def applyRuleset_def nat_append_def nat_hookChains_def on_v4_def if_v6_def seq_def bind_run_def
      errorf_def call_def ret_def kernel_iptables_def k_step_def k_put_def k_has_def nat_host_def
      TableNAT_def RootChain_def managed_chain_def svcChainPrefix_def sepChainPrefix_def has_prefix_def Let_def)
qed

section \<open>From the objects to the wire\<close>

text \<open>What a pass of the service NAT reconciler read and handed to the data plane.\<close>

lemma servicenat_reads:
  assumes "outcome (servicenat_Reconcile cl sync stale now) m = (Inr d, m')"
  shows "\<exists>sis a1 exs a2 down. sv_ListImports cl (ag_api m) = (Inr sis, a1) \<and> sv_ListExports cl a1 = (Inr exs, a2) \<and>
    (if 0 < stale then \<exists>peers a3. sv_ListPeers cl a2 = (Inr peers, a3) \<and> down = DownClusters peers now stale else down = (\<lambda>_. False)) \<and>
    sync (BuildServiceDNAT sis exs down) (ag_plane m) = (Inr (), ag_plane m')"
proof -
  obtain sis a1 where i: "sv_ListImports cl (ag_api m) = (Inr sis, a1)"
    using assms unfolding servicenat_Reconcile_def outcome_bind outcome_errorf outcome_call by (simp add: lift_call_def split: prod.splits sum.splits)
  obtain exs a2 where e: "sv_ListExports cl a1 = (Inr exs, a2)"
    using assms i unfolding servicenat_Reconcile_def outcome_bind outcome_errorf outcome_call by (simp add: lift_call_def split: prod.splits sum.splits)
  show ?thesis
  proof (cases "0 < stale")
    case True
    then obtain peers a3 where p: "sv_ListPeers cl a2 = (Inr peers, a3)"
      using assms i e by (auto simp: servicenat_Reconcile_def run_simps lift_call_def split: prod.splits sum.splits)
    obtain r pl where sy: "sync (BuildServiceDNAT sis exs (DownClusters peers now stale)) (ag_plane m) = (r, pl)" by fastforce
    then have "sync (BuildServiceDNAT sis exs (DownClusters peers now stale)) (ag_plane m) = (Inr (), ag_plane m')"
      using assms i e p True by (cases r) (auto simp: servicenat_Reconcile_def run_simps lift_call_def)
    then show ?thesis using i e p True by auto
  next
    case False
    obtain r pl where sy: "sync (BuildServiceDNAT sis exs (\<lambda>_. False)) (ag_plane m) = (r, pl)" by fastforce
    then have "sync (BuildServiceDNAT sis exs (\<lambda>_. False)) (ag_plane m) = (Inr (), ag_plane m')"
      using assms i e False by (cases r) (auto simp: servicenat_Reconcile_def run_simps lift_call_def)
    then show ?thesis using i e False by auto
  qed
qed

text \<open>The exs that bk an import.\<close>

definition backs :: "(string \<Rightarrow> bool) \<Rightarrow> ServiceImport \<Rightarrow> EndpointExport \<Rightarrow> bool" where
  "backs down si e \<longleftrightarrow> ex_Type (exo_Spec e) = ClusterSetIP \<and> \<not> down (ex_ClusterID (exo_Spec e)) \<and>
     ex_ServiceNamespace (exo_Spec e) @ ''/'' @ ex_ServiceName (exo_Spec e) = si_Namespace si @ ''/'' @ si_Name si"

lemma set_dnat_backends:
  "set (dnat_backends exs down (si_Namespace si @ ''/'' @ si_Name si)) = (\<Union>e \<in> {e \<in> set exs. backs down si e}. set (ex_IPs (exo_Spec e)))"
  by (auto simp: dnat_backends_def backs_def)

definition dnat_of :: "EndpointExport list \<Rightarrow> (string \<Rightarrow> bool) \<Rightarrow> ServiceImport \<Rightarrow> ServiceDNAT" where
  "dnat_of exs down si = \<lparr>sd_Namespace = si_Namespace si, sd_Name = si_Name si, sd_VIP = hd (si_IPs si),
     sd_Ports = map (\<lambda>p. \<lparr>pd_Protocol = to_lower (sp_Protocol p), pd_Port = sp_Port p\<rparr>) (si_Ports si),
     sd_Backends = dnat_backends exs down (si_Namespace si @ ''/'' @ si_Name si)\<rparr>"

lemma BuildServiceDNAT_conv:
  "BuildServiceDNAT sis exs down = map (dnat_of exs down)
     (filter (\<lambda>si. si_Type si = ClusterSetIP \<and> si_IPs si \<noteq> [] \<and> dnat_backends exs down (si_Namespace si @ ''/'' @ si_Name si) \<noteq> []) sis)"
  by (induction sis) (simp_all add: Let_def dnat_of_def)

lemma BuildServiceDNAT_distinct:
  assumes "distinct (map key_of sis)"
  shows "distinct (BuildServiceDNAT sis exs down)"
proof -
  have "inj_on (dnat_of exs down) A" if "inj_on key_of A" for A
    using that by (auto simp: inj_on_def dnat_of_def key_of_def)
  moreover have "distinct sis" "inj_on key_of (set sis)" using assms by (auto simp: distinct_map)
  ultimately show ?thesis unfolding BuildServiceDNAT_conv by (auto simp: distinct_map inj_on_def)
qed

text \<open>C2. Failover, from the stored objects to the wire. Let a pass of the service NAT reconciler
  succeed, with any tables before it. A packet that enters the root chain of the IPv4 tables
  for the virtual address and a port of an import is rewritten, whatever the random matches
  decide, to an address that some cluster exports for this service and that cluster is not
  down, where down means that a peer of the cluster is in error or stale; as long as one such
  address is left. The hashed chain names must not collide and no other import may have the
  address.\<close>

theorem servicenat_Reconcile_fails_over:
  assumes "iptables_handle ipt tables4" "\<forall>h. ipt6 = Some h \<longrightarrow> iptables_handle h tables6"
    and run: "outcome (servicenat_Reconcile cl (\<lambda>svcs. outcome (SyncClusterSetNAT ipt ipt6 svcs)) stale now) m = (Inr d, m')"
    and reads: "sv_ListImports cl (ag_api m) = (Inr sis, a1)" "sv_ListExports cl a1 = (Inr exs, a2)"
      "0 < stale" "sv_ListPeers cl a2 = (Inr peers, a3)"
    and keys: "distinct (map key_of sis)"
    and hash: "hash_free (filter (\<lambda>s. \<not> isIPv6 (sd_VIP s)) (BuildServiceDNAT sis exs (DownClusters peers now stale)))"
    and si: "si \<in> set sis" "si_Type si = ClusterSetIP" "si_IPs si = vip # rest" "vip \<noteq> ''''" "\<not> isIPv6 vip"
    and dst: "ip_matches (nat_hostCIDR vip) (np_dst p)"
      "\<exists>pt \<in> set (si_Ports si). nat_normalizeProto (to_lower (sp_Protocol pt)) = np_proto p \<and> sp_Port pt = int (np_dport p)"
    and only: "\<forall>sj \<in> set sis. si_IPs sj \<noteq> [] \<longrightarrow> ip_matches (nat_hostCIDR (hd (si_IPs sj))) (np_dst p) \<longrightarrow> sj = si"
    and up: "\<exists>e \<in> set exs. backs (DownClusters peers now stale) si e \<and> set (ex_IPs (exo_Spec e)) - {''''} \<noteq> {}"
  shows "\<forall>coin. \<exists>e \<in> set exs. backs (DownClusters peers now stale) si e \<and>
     (\<exists>b \<in> set (ex_IPs (exo_Spec e)) - {''''}. kernel_fate (tables4 (fst (ag_plane m'))) coin p RootChain = Some (to_backend b p))"
proof -
  let ?down = "DownClusters peers now stale"
  let ?svcs = "BuildServiceDNAT sis exs ?down" and ?s = "dnat_of exs ?down si"
  have "outcome (SyncClusterSetNAT ipt ipt6 ?svcs) (ag_plane m) = (Inr (), ag_plane m')"
    using servicenat_reads [OF run] reads by auto
  then obtain l where sync: "SyncClusterSetNAT ipt ipt6 ?svcs (fst (ag_plane m), snd (ag_plane m)) = (Inr (), (fst (ag_plane m'), snd (ag_plane m')), l)"
    by (auto simp: outcome_def split: prod.splits)
  have bk: "set (sd_Backends ?s) = (\<Union>e \<in> {e \<in> set exs. backs ?down si e}. set (ex_IPs (exo_Spec e)))"
    using set_dnat_backends [of exs ?down si] by (simp add: dnat_of_def)
  have s: "?s \<in> set ?svcs" "sd_VIP ?s = vip"
    using si up bk by (auto simp: BuildServiceDNAT_conv dnat_of_def)
  have some: "\<exists>b\<in>set (sd_Backends ?s). b \<noteq> ''''" unfolding bk using up by auto
  have ports: "sd_Ports ?s = map (\<lambda>pt. \<lparr>pd_Protocol = to_lower (sp_Protocol pt), pd_Port = sp_Port pt\<rparr>) (si_Ports si)" by (simp add: dnat_of_def)
  have serves: "serves ?s p" unfolding serves_def s(2) ports using si(4) dst some by simp
  have uniq: "t = ?s" if "t \<in> set ?svcs" "serves t p" for t
  proof -
    note t = that
    obtain sj where sj: "t = dnat_of exs ?down sj" "sj \<in> set sis" "si_IPs sj \<noteq> []"
      using t(1) unfolding BuildServiceDNAT_conv by auto
    have "ip_matches (nat_hostCIDR (hd (si_IPs sj))) (np_dst p)" using that(2) sj(1) by (simp add: serves_def dnat_of_def)
    then show ?thesis using only sj by blast
  qed
  then have un: "\<forall>s\<in>set ?svcs. \<forall>t\<in>set ?svcs. serves s p \<longrightarrow> serves t p \<longrightarrow> t = s" by metis
  have "find (\<lambda>s. \<not> isIPv6 (sd_VIP s) \<and> serves s p) ?svcs = Some ?s"
  proof (cases "find (\<lambda>s. \<not> isIPv6 (sd_VIP s) \<and> serves s p) ?svcs")
    case None
    then show ?thesis using s serves si(5) unfolding find_None_iff by metis
  next
    case (Some t)
    then have "t \<in> set ?svcs" "serves t p" by (auto simp: find_Some_iff)
    then show ?thesis using uniq Some by metis
  qed
  then have "\<forall>coin. \<exists>b \<in> set (sd_Backends ?s) - {''''}. kernel_fate (tables4 (fst (ag_plane m'))) coin p RootChain = Some (to_backend b p)"
    using SyncClusterSetNAT_delivers [OF assms(1,2) sync BuildServiceDNAT_distinct [OF keys] hash, of p] un by simp
  then show ?thesis unfolding bk by blast
qed

definition fleet_export :: "string \<Rightarrow> string \<Rightarrow> string list \<Rightarrow> EndpointExport" where
  "fleet_export c name ips = \<lparr>exo_Namespace = ''shop'', exo_Name = c, exo_Spec = \<lparr>ex_ClusterID = c, ex_ServiceNamespace = ''shop'',
     ex_ServiceName = name, ex_Type = ClusterSetIP, ex_ExportedAtUnix = 7, ex_Ports = [], ex_IPs = ips\<rparr>\<rparr>"

definition fleet_import :: "string \<Rightarrow> string \<Rightarrow> string list \<Rightarrow> ServiceImport" where
  "fleet_import name vip protos = \<lparr>si_Namespace = ''shop'', si_Name = name, si_Type = ClusterSetIP,
     si_Ports = map (\<lambda>proto. \<lparr>sp_Name = '''', sp_Protocol = proto, sp_AppProtocol = None, sp_Port = 80\<rparr>) protos, si_IPs = [vip], si_Clusters = []\<rparr>"

definition fleet_store :: svc_store where
  "fleet_store = \<lparr>ss_exports = [fleet_export ''a'' ''web'' [''10.96.0.10'', ''''], fleet_export ''b'' ''web'' [''10.97.0.10''], fleet_export ''a'' ''idle'' [''10.96.0.11'']],
     ss_imports = [fleet_import ''web'' ''241.0.0.5'' [''TCP'', ''''], fleet_import ''idle'' '''' [''TCP'']], ss_slices = [],
     ss_peers = [(eg_peer ''k'' False)\<lparr>mp_Status := (mp_Status (eg_peer ''k'' False))\<lparr>ms_Phase := Error\<rparr>\<rparr>], ss_faults = []\<rparr>"

lemma fleet_reads:
  "sv_ListImports mem_services fleet_store = (Inr (ss_imports fleet_store), fleet_store)"
  "sv_ListExports mem_services fleet_store = (Inr (ss_exports fleet_store), fleet_store)"
  "sv_ListPeers mem_services fleet_store = (Inr (ss_peers fleet_store), fleet_store)"
  by (simp_all add: mem_services_def ss_step_def fleet_store_def)

lemma fleet_down: "DownClusters (ss_peers fleet_store) 1000 300 = (\<lambda>c. c = ''b'')"
  by (auto simp: DownClusters_def fleet_store_def clusterDown_def eg_peer_def eg_spec_def)

lemma fleet_services: "BuildServiceDNAT (ss_imports fleet_store) (ss_exports fleet_store) (\<lambda>c. c = ''b'') = [web_service, idle_service]"
  by (simp add: fleet_store_def fleet_import_def fleet_export_def dnat_backends_def web_service_def idle_service_def ClusterSetIP_def go_eval)

abbreviation fleet_sync :: "ServiceDNAT list \<Rightarrow> kernel \<times> kernel \<Rightarrow> unit result \<times> kernel \<times> kernel" where
  "fleet_sync svcs \<equiv> outcome (SyncClusterSetNAT kernel_iptables (None :: kernel iptables option) svcs)"

lemma fleet_run:
  "\<exists>m'. outcome (servicenat_Reconcile mem_services fleet_sync 300 1000) \<lparr>ag_api = fleet_store, ag_plane = (nat_host, nat_host)\<rparr> = (Inr failoverPollInterval, m')"
proof -
  obtain s' l where run: "SyncClusterSetNAT kernel_iptables (None :: kernel iptables option) [web_service, idle_service] (nat_host, nat_host) =
      (Inr (), (s', nat_host), l)" using delivery_run by blast
  then have "fleet_sync [web_service, idle_service] (nat_host, nat_host) = (Inr (), (s', nat_host))" by (simp add: outcome_def)
  then show ?thesis
    by (simp add: servicenat_Reconcile_def run_simps lift_call_def fleet_reads fleet_down fleet_services)
qed

theorem servicenat_Reconcile_fails_over_witness:
  "\<exists>m'. outcome (servicenat_Reconcile mem_services fleet_sync 300 1000) \<lparr>ag_api = fleet_store, ag_plane = (nat_host, nat_host)\<rparr> = (Inr failoverPollInterval, m') \<and>
     DownClusters (ss_peers fleet_store) 1000 300 ''b'' \<and>
     (\<forall>coin. kernel_fate (k_tables (fst (ag_plane m'))) coin web_packet RootChain = Some (to_backend ''10.96.0.10'' web_packet))"
proof -
  let ?m = "\<lparr>ag_api = fleet_store, ag_plane = (nat_host, nat_host)\<rparr>"
  obtain m' where run: "outcome (servicenat_Reconcile mem_services fleet_sync 300 1000) ?m = (Inr failoverPollInterval, m')"
    using fleet_run by blast
  let ?si = "fleet_import ''web'' ''241.0.0.5'' [''TCP'', '''']"
  have v6: "\<forall>h. (None :: kernel iptables option) = Some h \<longrightarrow> iptables_handle h k_tables" by simp
  have reads: "sv_ListImports mem_services (ag_api ?m) = (Inr (ss_imports fleet_store), fleet_store)" using fleet_reads(1) by simp
  have keys: "distinct (map key_of (ss_imports fleet_store))" by (simp add: fleet_store_def fleet_import_def key_of_def)
  have hash: "hash_free (filter (\<lambda>s. \<not> isIPv6 (sd_VIP s)) (BuildServiceDNAT (ss_imports fleet_store) (ss_exports fleet_store) (DownClusters (ss_peers fleet_store) 1000 300)))"
    unfolding fleet_down fleet_services using example_hash_free by (simp add: web_service_def idle_service_def isIPv6_def)
  have si: "?si \<in> set (ss_imports fleet_store)" "si_Type ?si = ClusterSetIP" "si_IPs ?si = ''241.0.0.5'' # []" "''241.0.0.5'' \<noteq> ''''" "\<not> isIPv6 ''241.0.0.5''"
    by (simp_all add: fleet_store_def fleet_import_def isIPv6_def)
  have dst: "ip_matches (nat_hostCIDR ''241.0.0.5'') (np_dst web_packet)"
    using example_serves(1) by (simp add: serves_def web_service_def)
  have pt: "\<exists>pt \<in> set (si_Ports ?si). nat_normalizeProto (to_lower (sp_Protocol pt)) = np_proto web_packet \<and> sp_Port pt = int (np_dport web_packet)"
    by (simp add: fleet_import_def web_packet_def nat_normalizeProto_def go_eval)
  have only: "\<forall>sj \<in> set (ss_imports fleet_store). si_IPs sj \<noteq> [] \<longrightarrow> ip_matches (nat_hostCIDR (hd (si_IPs sj))) (np_dst web_packet) \<longrightarrow> sj = ?si"
    by (simp add: fleet_store_def fleet_import_def nat_hostCIDR_def isIPv6_def ip_matches_def parse_net_def go_eval)
  have up: "\<exists>e \<in> set (ss_exports fleet_store). backs (DownClusters (ss_peers fleet_store) 1000 300) ?si e \<and> set (ex_IPs (exo_Spec e)) - {''''} \<noteq> {}"
    unfolding fleet_down by (simp add: fleet_store_def fleet_export_def fleet_import_def backs_def)
  have "\<forall>coin. \<exists>e \<in> set (ss_exports fleet_store). backs (DownClusters (ss_peers fleet_store) 1000 300) ?si e \<and>
     (\<exists>b \<in> set (ex_IPs (exo_Spec e)) - {''''}. kernel_fate (k_tables (fst (ag_plane m'))) coin web_packet RootChain = Some (to_backend b web_packet))"
    by (rule servicenat_Reconcile_fails_over [OF kern.iptables_handle_axioms v6 run reads fleet_reads(2) _ fleet_reads(3) keys hash si dst pt only up]) simp
  then have "\<forall>coin. kernel_fate (k_tables (fst (ag_plane m'))) coin web_packet RootChain = Some (to_backend ''10.96.0.10'' web_packet)"
    unfolding fleet_down by (auto simp: fleet_store_def fleet_export_def fleet_import_def backs_def)
  then show ?thesis using run by (auto simp: fleet_down)
qed

end
